(* ===== verification/HFT_Prelude.thy ===== *)
theory HFT_Prelude
  imports Main "HOL-Library.Word" "HOL-Library.Monad_Syntax" "HOL-Library.Signed_Division"
begin

text \<open>
  The shared base of the development: the C++ notions every component uses and the lemmas
  about them.

  \<^item> \<open>int64_t\<close> and \<open>int32_t\<close> values are \<open>int\<close>. Every signed operation of the source is
    written as the exact integer operation wrapped in \<open>i64\<close> or \<open>i32\<close>, which is \<open>None\<close> when the
    result leaves the range of the type: signed overflow is undefined behaviour in C++, and
    \<open>None\<close> stands for an execution with undefined behaviour throughout. Unsigned values are
    \<open>64 word\<close> and \<open>32 word\<close>, whose arithmetic wraps as the language says.
  \<^item> \<open>std::array\<close> and C array accesses go through \<open>at_index\<close>, \<open>None\<close> out of range.
  \<^item> \<open>char[8]\<close> fields are byte lists; \<open>strncpy\<close>, \<open>strncmp\<close> and \<open>strnlen\<close> are modelled with
    the reads they make, so that reading past the bytes a pointer may reach is \<open>None\<close> too.
  \<^item> \<open>std::to_string\<close> on unsigned values is \<open>to_dec\<close>.

  The interfaces of the two flat arrays of slots (\<open>OrderManager\<close> and \<open>PositionTracker\<close>) are the locales
  \<open>scan_loop\<close> and \<open>slot_table\<close> of the theory \<open>Slot_Table\<close>.
\<close>

named_theorems ub_defs "definitions of the checked operations"
named_theorems cpp_str "facts about the C string functions"
named_theorems hft_consts "values of the source's constants"

section \<open>Signed integers with undefined overflow\<close>

definition int32 :: "int \<Rightarrow> bool" where
  "int32 x \<longleftrightarrow> - 2147483648 \<le> x \<and> x \<le> 2147483647"

definition int64 :: "int \<Rightarrow> bool" where
  "int64 x \<longleftrightarrow> - 9223372036854775808 \<le> x \<and> x \<le> 9223372036854775807"

definition i32 :: "int \<Rightarrow> int option" where
  "i32 x = (if int32 x then Some x else None)"

definition i64 :: "int \<Rightarrow> int option" where
  "i64 x = (if int64 x then Some x else None)"

declare int32_def [ub_defs] int64_def [ub_defs] i32_def [ub_defs] i64_def [ub_defs]

lemma i32_eq_Some [simp]: "i32 x = Some y \<longleftrightarrow> y = x \<and> int32 x"
  by (auto simp: i32_def)

lemma i64_eq_Some [simp]: "i64 x = Some y \<longleftrightarrow> y = x \<and> int64 x"
  by (auto simp: i64_def)

lemma i32_eq_None [simp]: "i32 x = None \<longleftrightarrow> \<not> int32 x"
  by (auto simp: i32_def)

lemma i64_eq_None [simp]: "i64 x = None \<longleftrightarrow> \<not> int64 x"
  by (auto simp: i64_def)

lemma i32_in_range: "int32 x \<Longrightarrow> i32 x = Some x"
  by simp

lemma i64_in_range: "int64 x \<Longrightarrow> i64 x = Some x"
  by simp

lemma int32_int64 [intro]: "int32 x \<Longrightarrow> int64 x"
  by (simp add: int32_def int64_def)

lemma int64_abs: "\<bar>x\<bar> \<le> 9223372036854775807 \<Longrightarrow> int64 x"
  unfolding int64_def by linarith

lemma int32_abs: "\<bar>x\<bar> \<le> 2147483647 \<Longrightarrow> int32 x"
  unfolding int32_def by linarith

lemma int32_zero [simp]: "int32 0"
  by (simp add: int32_def)

lemma int64_zero [simp]: "int64 0"
  by (simp add: int64_def)

text \<open>The modular narrowing \<open>static_cast\<close> from \<open>int64_t\<close> to \<open>int32_t\<close>, and from
  \<open>uint64_t\<close> to \<open>int64_t\<close>.\<close>

definition narrow_i32 :: "int \<Rightarrow> int" where
  "narrow_i32 x = signed_take_bit 31 x"

definition u64_to_i64 :: "64 word \<Rightarrow> int" where
  "u64_to_i64 w = sint w"

lemma narrow_i32_id: "int32 x \<Longrightarrow> narrow_i32 x = x"
  by (simp add: narrow_i32_def int32_def signed_take_bit_int_eq_self_iff)

lemma int32_narrow_i32 [simp]: "int32 (narrow_i32 x)"
  using signed_take_bit_int_greater_eq_minus_exp [of 31 x] signed_take_bit_int_less_exp [of 31 x]
  by (simp add: narrow_i32_def int32_def)

lemma int64_u64_to_i64 [simp]: "int64 (u64_to_i64 w)"
  using sint_greater_eq [of w] sint_less [of w] by (simp add: u64_to_i64_def int64_def)

text \<open>Division of the source truncates towards zero: \<open>sdiv\<close>. What is lost is less than the
  divisor, and the quotient stays in the range of the dividend.\<close>

lemma sdiv_remainder_bound:
  fixes a b :: int
  assumes "0 < b"
  shows "\<bar>a - a sdiv b * b\<bar> < b"
proof -
  have "a - a sdiv b * b = a smod b"
    by (rule minus_sdiv_mult_eq_smod)
  moreover have "\<bar>a smod b\<bar> < b"
    using assms by (simp add: signed_modulo_int_def abs_mult abs_sgn_eq)
  ultimately show ?thesis by simp
qed

lemma sdiv_nonneg_bounds:
  fixes a b :: int
  assumes "0 < b" "0 \<le> a"
  shows "a sdiv b * b \<le> a \<and> a < (a sdiv b + 1) * b"
proof -
  have eq: "a sdiv b = a div b"
    using assms by (cases "a = 0") (simp_all add: signed_divide_int_def)
  have "a div b * b \<le> a"
    using assms by (metis add_increasing2 div_mult_mod_eq order_refl pos_mod_sign)
  moreover have "a < (a div b + 1) * b"
    using div_mult_mod_eq [of a b] pos_mod_bound [OF assms(1), of a]
    unfolding distrib_right by linarith
  ultimately show ?thesis by (simp add: eq)
qed

lemma int64_sdiv: "int64 a \<Longrightarrow> 0 < b \<Longrightarrow> int64 (a sdiv b)"
proof -
  assume a: "int64 a" and b: "0 < b"
  have le: "\<bar>a\<bar> div \<bar>b\<bar> \<le> \<bar>a\<bar>" "0 \<le> \<bar>a\<bar> div \<bar>b\<bar>"
    using b zdiv_mono2 [of "\<bar>a\<bar>" 1 b] by (auto simp: pos_imp_zdiv_nonneg_iff)
  show ?thesis
    using a b le by (cases "a < 0") (auto simp: signed_divide_int_def sgn_if int64_def)
qed

section \<open>Array accesses\<close>

definition at_index :: "'a list \<Rightarrow> nat \<Rightarrow> 'a option" where
  "at_index xs i = (if i < length xs then Some (xs ! i) else None)"

lemma at_index_Some [simp]: "at_index xs i = Some x \<longleftrightarrow> i < length xs \<and> x = xs ! i"
  by (auto simp: at_index_def)

lemma at_index_in [simp]: "i < length xs \<Longrightarrow> at_index xs i = Some (xs ! i)"
  by simp

lemma ball_ran_upd: "\<forall>x \<in> ran m. P x \<Longrightarrow> P v \<Longrightarrow> \<forall>x \<in> ran (m(k \<mapsto> v)). P x"
  by (auto simp: ran_def)

text \<open>A sum over a finite map after one update.\<close>

lemma sum_map_upd:
  fixes g :: "'v \<Rightarrow> int"
  assumes "finite (dom m)"
  shows "(\<Sum>x \<in> dom (m(k \<mapsto> v)). g (the ((m(k \<mapsto> v)) x))) =
    (\<Sum>x \<in> dom m. g (the (m x))) + g v - (case m k of None \<Rightarrow> 0 | Some u \<Rightarrow> g u)"
proof -
  let ?r = "\<Sum>x \<in> dom m - {k}. g (the (m x))"
  have "(\<Sum>x \<in> insert k (dom m). g (the ((m(k \<mapsto> v)) x))) =
      g v + (\<Sum>x \<in> dom m - {k}. g (the ((m(k \<mapsto> v)) x)))"
    using sum.insert_remove [OF assms, of "\<lambda>x. g (the ((m(k \<mapsto> v)) x))" k] by simp
  also have "(\<Sum>x \<in> dom m - {k}. g (the ((m(k \<mapsto> v)) x))) = ?r"
    by (rule sum.cong) auto
  finally have new: "(\<Sum>x \<in> dom (m(k \<mapsto> v)). g (the ((m(k \<mapsto> v)) x))) = g v + ?r"
    by simp
  have old: "(\<Sum>x \<in> dom m. g (the (m x))) = (case m k of None \<Rightarrow> 0 | Some u \<Rightarrow> g u) + ?r"
  proof (cases "m k")
    case None
    then have "dom m - {k} = dom m" by auto
    with None show ?thesis by simp
  next
    case (Some u)
    then have "k \<in> dom m" by auto
    from sum.remove [OF assms this, of "\<lambda>x. g (the (m x))"] Some show ?thesis by simp
  qed
  from new old show ?thesis by simp
qed

section \<open>Exceptions, loops with a body that may fail\<close>

text \<open>The exceptions the program throws or meets: two of the standard library, raised by
  \<open>EventLog\<close>, and those of QuickFIX the gateway can see.\<close>

datatype cpp_exn =
  RuntimeError string | OverflowError string
  | FieldNotFound | IncorrectDataFormat | SessionNotFound | UnsupportedMessageType

fun foldm :: "('b \<Rightarrow> 's \<Rightarrow> 's option) \<Rightarrow> 'b list \<Rightarrow> 's \<Rightarrow> 's option" where
  "foldm f [] s = Some s"
| "foldm f (x # xs) s = do { s' \<leftarrow> f x s; foldm f xs s' }"

lemma foldm_append: "foldm f (xs @ ys) s = do { s' \<leftarrow> foldm f xs s; foldm f ys s' }"
  by (induction xs arbitrary: s) (simp_all cong: Option.bind_cong)

lemma foldm_snoc [simp]: "foldm f (xs @ [x]) s = do { s' \<leftarrow> foldm f xs s; f x s' }"
  by (simp add: foldm_append cong: Option.bind_cong)

text \<open>An invariant of every step is an invariant of the loop, and a relation between two loops
  over related elements is kept by running them side by side.\<close>

lemma foldm_invariant:
  assumes "foldm f xs s = Some t" "P s"
    and "\<And>x s s'. x \<in> set xs \<Longrightarrow> P s \<Longrightarrow> f x s = Some s' \<Longrightarrow> P s'"
  shows "P t"
  using assms
proof (induction xs arbitrary: s)
  case Nil
  then show ?case by simp
next
  case (Cons x xs)
  from Cons.prems(1) obtain s' where s': "f x s = Some s'" "foldm f xs s' = Some t"
    by (auto simp: Option.bind_eq_Some_conv)
  have "P s'" using Cons.prems(3) [OF _ Cons.prems(2) s'(1)] by simp
  with s'(2) show ?case by (rule Cons.IH) (rule Cons.prems(3), auto)
qed

lemma foldm_simulation:
  assumes "foldm f xs s = Some t" "R s u" "list_all2 E xs ys"
    and "\<And>x y s u s'. E x y \<Longrightarrow> R s u \<Longrightarrow> f x s = Some s' \<Longrightarrow> \<exists>u'. g y u = Some u' \<and> R s' u'"
  shows "\<exists>v. foldm g ys u = Some v \<and> R t v"
  using assms(3,1,2)
proof (induction xs ys arbitrary: s u rule: list_all2_induct)
  case Nil
  then show ?case by simp
next
  case (Cons x xs y ys)
  from Cons.prems(1) obtain s' where s': "f x s = Some s'" "foldm f xs s' = Some t"
    by (auto simp: Option.bind_eq_Some_conv)
  with assms(4) Cons.hyps(1) Cons.prems(2) obtain u' where "g y u = Some u'" "R s' u'"
    by blast
  with Cons.IH [OF s'(2)] show ?case by simp
qed

section \<open>C strings\<close>

definition NUL :: char where
  "NUL = CHR 0x00"

definition cstr :: "nat \<Rightarrow> char list \<Rightarrow> char list" where
  "cstr n bs = takeWhile (\<lambda>c. c \<noteq> NUL) (take n bs)"

definition readable :: "nat \<Rightarrow> char list \<Rightarrow> bool" where
  "readable n bs \<longleftrightarrow> n \<le> length bs \<or> NUL \<in> set bs"

definition strnlen :: "char list \<Rightarrow> nat \<Rightarrow> nat" where
  "strnlen bs n = length (cstr n bs)"

fun strncpy :: "char list \<Rightarrow> nat \<Rightarrow> char list option" where
  "strncpy src 0 = Some []"
| "strncpy [] (Suc n) = None"
| "strncpy (c # cs) (Suc n) =
     (if c = NUL then Some (replicate (Suc n) NUL)
      else map_option ((#) c) (strncpy cs n))"

fun strncmp :: "char list \<Rightarrow> char list \<Rightarrow> nat \<Rightarrow> int option" where
  "strncmp a b 0 = Some 0"
| "strncmp (x # xs) (y # ys) (Suc n) =
     (if x \<noteq> y then Some (if (of_char x :: nat) < of_char y then - 1 else 1)
      else if x = NUL then Some 0
      else strncmp xs ys n)"
| "strncmp a b (Suc n) = None"

text \<open>A \<open>std::string\<close> or a literal as the bytes its \<open>data()\<close> pointer may read: the terminating
  zero included.\<close>

definition c_str :: "string \<Rightarrow> char list" where
  "c_str s = s @ [NUL]"

definition pad_name :: "nat \<Rightarrow> char list \<Rightarrow> char list" where
  "pad_name n s = s @ replicate (n - length s) NUL"

lemma cstr_Nil [simp]: "cstr n [] = []" and cstr_0 [simp]: "cstr 0 bs = []"
  by (simp_all add: cstr_def)

lemma cstr_Suc_Cons [simp]:
  "cstr (Suc n) (c # cs) = (if c = NUL then [] else c # cstr n cs)"
  by (simp add: cstr_def)

lemma readable_Suc_Cons [simp]:
  "readable (Suc n) (c # cs) \<longleftrightarrow> c = NUL \<or> readable n cs"
  by (auto simp: readable_def)

lemma readable_Suc_Nil [simp]: "\<not> readable (Suc n) []"
  by (simp add: readable_def)

lemma readable_full: "n \<le> length bs \<Longrightarrow> readable n bs"
  by (simp add: readable_def)

lemma readable_c_str [simp]: "readable n (c_str s)"
  by (simp add: readable_def c_str_def)

lemma length_cstr: "length (cstr n bs) \<le> n"
  using length_takeWhile_le [of "\<lambda>c. c \<noteq> NUL" "take n bs"] by (simp add: cstr_def)

lemma NUL_notin_cstr [simp]: "NUL \<notin> set (cstr n bs)"
  by (auto simp: cstr_def dest: set_takeWhileD)

lemma cstr_c_str: "NUL \<notin> set s \<Longrightarrow> cstr n (c_str s) = take n s"
proof (induction s arbitrary: n)
  case Nil
  then show ?case by (cases n) (simp_all add: c_str_def)
next
  case (Cons c s)
  then show ?case by (cases n) (auto simp: c_str_def)
qed

lemma cstr_pad_name: "NUL \<notin> set s \<Longrightarrow> length s \<le> n \<Longrightarrow> cstr n (pad_name n s) = s"
proof (induction s arbitrary: n)
  case Nil
  then show ?case by (cases n) (simp_all add: pad_name_def)
next
  case (Cons c s)
  then obtain m where "n = Suc m" by (cases n) auto
  with Cons show ?case by (auto simp: pad_name_def)
qed

lemma length_pad_name [simp]: "length s \<le> n \<Longrightarrow> length (pad_name n s) = n"
  by (simp add: pad_name_def)

lemma strncpy_eq [cpp_str]: "readable n bs \<Longrightarrow> strncpy bs n = Some (pad_name n (cstr n bs))"
  by (induction bs n rule: strncpy.induct) (auto simp: pad_name_def)

lemma strncpy_unreadable: "\<not> readable n bs \<Longrightarrow> strncpy bs n = None"
  by (induction bs n rule: strncpy.induct) (auto simp: readable_def)

lemma strncmp_total [cpp_str]:
  "readable n a \<Longrightarrow> readable n b \<Longrightarrow> \<exists>r. strncmp a b n = Some r \<and> (r = 0 \<longleftrightarrow> cstr n a = cstr n b)"
  by (induction a b n rule: strncmp.induct) auto

lemma cstr_strncpy: "strncpy bs n = Some cs \<Longrightarrow> cstr n cs = cstr n bs \<and> length cs = n"
  by (cases "readable n bs")
    (auto simp: strncpy_eq cstr_pad_name length_cstr strncpy_unreadable)

text \<open>\<open>std::to_string\<close> of an unsigned value.\<close>

definition digit_char :: "nat \<Rightarrow> char" where
  "digit_char d = char_of (48 + d)"

fun to_dec :: "nat \<Rightarrow> string" where
  "to_dec n = (if n < 10 then [digit_char n] else to_dec (n div 10) @ [digit_char (n mod 10)])"

declare to_dec.simps [simp del]

lemma digit_char_inj: "d < 10 \<Longrightarrow> e < 10 \<Longrightarrow> digit_char d = digit_char e \<longleftrightarrow> d = e"
proof -
  assume lt: "d < 10" "e < 10"
  then have "of_char (digit_char d) = 48 + d" "of_char (digit_char e) = 48 + e"
    by (simp_all add: digit_char_def of_char_of)
  then show ?thesis by (metis add_left_cancel)
qed

lemma digit_char_not_NUL: "d < 10 \<Longrightarrow> digit_char d \<noteq> NUL"
proof
  assume lt: "d < 10" and eq: "digit_char d = NUL"
  from lt have "of_char (digit_char d) = 48 + d"
    by (simp add: digit_char_def of_char_of)
  moreover have "of_char NUL = (0::nat)"
    by (simp add: NUL_def)
  ultimately show False using eq by simp
qed

lemma to_dec_no_NUL: "NUL \<notin> set (to_dec n)"
proof (induction n rule: to_dec.induct)
  case (1 n)
  have "n mod 10 < 10" by simp
  then have "digit_char (n mod 10) \<noteq> NUL" by (rule digit_char_not_NUL)
  with 1 show ?case
    by (subst to_dec.simps) (use digit_char_not_NUL [of n] in auto)
qed

lemma to_dec_inj: "to_dec m = to_dec n \<Longrightarrow> m = n"
proof (induction m arbitrary: n rule: to_dec.induct)
  case (1 m)
  have ne: "to_dec k \<noteq> []" for k
    by (subst to_dec.simps) simp
  show ?case
  proof (cases "m < 10 \<or> n < 10")
    case True
    with "1.prems" ne [of "m div 10"] ne [of "n div 10"] show ?thesis
      by (auto simp: to_dec.simps [of m] to_dec.simps [of n] digit_char_inj split: if_splits)
  next
    case False
    with "1.prems" have "to_dec (m div 10) = to_dec (n div 10)"
        and "digit_char (m mod 10) = digit_char (n mod 10)"
      by (simp_all add: to_dec.simps [of m] to_dec.simps [of n])
    with False "1.IH" have "m div 10 = n div 10" and "m mod 10 = n mod 10"
      by (simp_all add: digit_char_inj)
    then show ?thesis by (metis div_mult_mod_eq)
  qed
qed

lemma hd_to_dec: "of_char (hd (to_dec n)) < (58 :: nat)"
proof (induction n rule: to_dec.induct)
  case (1 n)
  have "to_dec (n div 10) \<noteq> []" by (subst to_dec.simps) simp
  with 1 show ?case
    by (subst to_dec.simps) (simp add: digit_char_def of_char_of)
qed

lemma length_to_dec: "0 < k \<Longrightarrow> n < 10 ^ k \<Longrightarrow> length (to_dec n) \<le> k"
proof (induction n arbitrary: k rule: to_dec.induct)
  case (1 n)
  show ?case
  proof (cases "n < 10")
    case True
    with "1.prems" show ?thesis by (simp add: to_dec.simps [of n])
  next
    case False
    with "1.prems" obtain j where k: "k = Suc j" and j: "0 < j"
      by (cases k; cases "k - 1") auto
    with "1.prems" have "n div 10 < 10 ^ j" by (simp add: less_mult_imp_div_less)
    with False "1.IH" j have "length (to_dec (n div 10)) \<le> j" by simp
    with False k show ?thesis by (simp add: to_dec.simps [of n])
  qed
qed

end
