(* ===== verification/Slot_Table.thy ===== *)
theory Slot_Table
  imports HFT_Prelude
begin

text \<open>
  The interface of the flat slot arrays. \<open>OrderManager\<close> and \<open>PositionTracker\<close> both keep a
  \<open>std::array\<close> of zeroed 64-byte slots with the number in use, look a slot up with a linear
  \<open>strncmp\<close> search over an 8-byte key and append a slot when the search fails.

  \<open>table_map\<close> is the abstract view of such an array, a finite map from C strings to slots, and
  \<open>table_ok\<close> its invariant. The locale \<open>scan_loop\<close> holds what a search loop promises,
  \<open>slot_table\<close> extends it with the "find or append" operation.
\<close>

section \<open>The abstract view of a slot array\<close>

definition slot_keys :: "('a \<Rightarrow> char list) \<Rightarrow> 'a list \<Rightarrow> nat \<Rightarrow> char list list" where
  "slot_keys key sl n = map (\<lambda>s. cstr 8 (key s)) (take n sl)"

definition table_map :: "('a \<Rightarrow> char list) \<Rightarrow> 'a list \<Rightarrow> nat \<Rightarrow> char list \<Rightarrow> 'a option" where
  "table_map key sl n = map_of (map (\<lambda>s. (cstr 8 (key s), s)) (take n sl))"

definition table_ok :: "('a \<Rightarrow> char list) \<Rightarrow> nat \<Rightarrow> 'a list \<Rightarrow> nat \<Rightarrow> bool" where
  "table_ok key cap sl n \<longleftrightarrow>
     length sl = cap \<and> n \<le> cap \<and> (\<forall>s \<in> set (take n sl). length (key s) = 8) \<and>
     distinct (slot_keys key sl n)"

lemma nth_mem_take: "j < n \<Longrightarrow> n \<le> length sl \<Longrightarrow> sl ! j \<in> set (take n sl)"
  by (metis length_take min.absorb2 nth_mem nth_take)

lemma mem_slot_keys:
  "n \<le> length sl \<Longrightarrow> k \<in> set (slot_keys key sl n) \<longleftrightarrow> (\<exists>j < n. k = cstr 8 (key (sl ! j)))"
  by (auto simp: slot_keys_def nth_image [symmetric])

lemma table_okD:
  assumes "table_ok key cap sl n"
  shows "length sl = cap" "n \<le> cap" "distinct (slot_keys key sl n)"
    "\<And>j. j < n \<Longrightarrow> length (key (sl ! j)) = 8"
  using assms by (auto simp: table_ok_def nth_mem_take)

lemma table_ok_empty: "table_ok key cap (replicate cap s) 0"
  by (simp add: table_ok_def slot_keys_def)

lemma table_map_empty [simp]: "table_map key sl 0 = Map.empty"
  by (simp add: table_map_def)

lemma length_slot_keys: "n \<le> length sl \<Longrightarrow> length (slot_keys key sl n) = n"
  by (simp add: slot_keys_def)

lemma nth_slot_keys: "j < n \<Longrightarrow> n \<le> length sl \<Longrightarrow> slot_keys key sl n ! j = cstr 8 (key (sl ! j))"
  by (simp add: slot_keys_def)

lemma dom_table_map: "dom (table_map key sl n) = set (slot_keys key sl n)"
  by (simp add: table_map_def slot_keys_def dom_map_of_conv_image_fst image_image)

lemma table_map_None: "table_map key sl n k = None \<longleftrightarrow> k \<notin> set (slot_keys key sl n)"
  using dom_table_map [of key sl n] by auto

lemma slot_keys_unique:
  assumes "table_ok key cap sl n" "i < n" "j < n" "cstr 8 (key (sl ! i)) = cstr 8 (key (sl ! j))"
  shows "i = j"
  using assms table_okD(1-3) [OF assms(1)] nth_eq_iff_index_eq [of "slot_keys key sl n" i j]
  by (simp add: nth_slot_keys length_slot_keys)

lemma table_map_nth:
  assumes "table_ok key cap sl n" "j < n"
  shows "table_map key sl n (cstr 8 (key (sl ! j))) = Some (sl ! j)"
proof -
  let ?ps = "map (\<lambda>s. (cstr 8 (key s), s)) (take n sl)"
  have "map fst ?ps = slot_keys key sl n" by (simp add: slot_keys_def)
  then have "distinct (map fst ?ps)" using table_okD(3) [OF assms(1)] by simp
  moreover have "(cstr 8 (key (sl ! j)), sl ! j) \<in> set ?ps"
    using assms table_okD(1,2) [OF assms(1)] by (simp add: nth_mem_take)
  ultimately show ?thesis by (simp add: table_map_def)
qed

lemma table_map_SomeE:
  assumes "table_map key sl n k = Some s" "n \<le> length sl"
  obtains j where "j < n" "sl ! j = s" "cstr 8 (key s) = k"
proof -
  from assms(1) have "(k, s) \<in> set (map (\<lambda>s. (cstr 8 (key s), s)) (take n sl))"
    unfolding table_map_def by (rule map_of_SomeD)
  with assms(2) that show thesis by (auto simp: in_set_conv_nth)
qed

lemma card_table_map: "table_ok key cap sl n \<Longrightarrow> card (dom (table_map key sl n)) = n"
  by (simp add: dom_table_map distinct_card table_okD length_slot_keys)

lemma ran_table_map:
  assumes "table_ok key cap sl n"
  shows "ran (table_map key sl n) = set (take n sl)"
proof (intro equalityI subsetI)
  fix s assume "s \<in> ran (table_map key sl n)"
  then obtain k where k: "table_map key sl n k = Some s" by (auto simp: ran_def)
  have "n \<le> length sl" using table_okD(1,2) [OF assms] by simp
  with k obtain j where "j < n" "sl ! j = s" by (rule table_map_SomeE)
  with table_okD(1,2) [OF assms] show "s \<in> set (take n sl)"
    by (auto simp: nth_mem_take)
next
  fix s assume "s \<in> set (take n sl)"
  then obtain j where "j < n" "s = sl ! j" by (auto simp: in_set_conv_nth)
  with table_map_nth [OF assms] show "s \<in> ran (table_map key sl n)"
    by (auto intro: ranI)
qed

text \<open>Summing over the slots in use is summing over the map, in any order.\<close>

lemma sum_list_slots:
  assumes ok: "table_ok key cap sl n"
  shows "sum_list (map g (take n sl)) = (\<Sum>k \<in> dom (table_map key sl n). g (the (table_map key sl n k)))"
proof -
  let ?h = "\<lambda>k. g (the (table_map key sl n k))"
  have "(\<Sum>k \<in> dom (table_map key sl n). ?h k) = sum_list (map ?h (slot_keys key sl n))"
    using table_okD(3) [OF ok] by (simp add: dom_table_map sum.distinct_set_conv_list)
  also have "map ?h (slot_keys key sl n) = map g (take n sl)"
    using table_map_nth [OF ok] table_okD(1,2) [OF ok]
    by (intro nth_equalityI) (simp_all add: length_slot_keys nth_slot_keys)
  finally show ?thesis by simp
qed

lemma finite_dom_table_map [simp]: "finite (dom (table_map key sl n))"
  by (simp add: dom_table_map)

text \<open>Overwriting a slot without changing its key, and appending a slot with a new key.\<close>

lemma table_update:
  assumes ok: "table_ok key cap sl n" and j: "j < n" and key: "key s = key (sl ! j)"
  shows "table_ok key cap (sl[j := s]) n"
    and "table_map key (sl[j := s]) n = (table_map key sl n)(cstr 8 (key (sl ! j)) \<mapsto> s)"
proof -
  have len: "j < length sl" using j table_okD(1,2) [OF ok] by simp
  have keys: "slot_keys key (sl[j := s]) n = slot_keys key sl n"
    using len key j by (simp add: slot_keys_def take_update_swap map_update list_update_same_conv)
  show ok': "table_ok key cap (sl[j := s]) n"
    using ok keys key j table_okD(4) [OF ok]
    by (auto simp: table_ok_def take_update_swap dest!: set_update_subset_insert [THEN subsetD])
  show "table_map key (sl[j := s]) n = (table_map key sl n)(cstr 8 (key (sl ! j)) \<mapsto> s)"
  proof (rule ext)
    fix k
    show "table_map key (sl[j := s]) n k = ((table_map key sl n)(cstr 8 (key (sl ! j)) \<mapsto> s)) k"
    proof (cases "k \<in> set (slot_keys key sl n)")
      case False
      moreover have "cstr 8 (key (sl ! j)) \<in> set (slot_keys key sl n)"
        using j table_okD(1,2) [OF ok] by (auto simp: mem_slot_keys)
      ultimately show ?thesis
        using table_map_None [of key "sl[j := s]" n k] table_map_None [of key sl n k] keys
        by auto
    next
      case True
      then obtain i where i: "i < n" "k = cstr 8 (key (sl ! i))"
        using table_okD(1,2) [OF ok] by (auto simp: mem_slot_keys)
      have "table_map key (sl[j := s]) n k = Some (sl[j := s] ! i)"
        using table_map_nth [OF ok' i(1)] i(2) key len by (cases "i = j") auto
      then show ?thesis
        using i j len table_map_nth [OF ok i(1)] slot_keys_unique [OF ok i(1) j]
        by (auto simp: nth_list_update)
    qed
  qed
qed

lemma table_append:
  assumes ok: "table_ok key cap sl n" and room: "n < cap" and len: "length (key s) = 8"
    and new: "cstr 8 (key s) \<notin> set (slot_keys key sl n)"
  shows "table_ok key cap (sl[n := s]) (Suc n)"
    and "table_map key (sl[n := s]) (Suc n) = (table_map key sl n)(cstr 8 (key s) \<mapsto> s)"
proof -
  have n: "n < length sl" using room table_okD(1) [OF ok] by simp
  have take: "take (Suc n) (sl[n := s]) = take n sl @ [s]"
    using n by (simp add: take_Suc_conv_app_nth)
  then have keys: "slot_keys key (sl[n := s]) (Suc n) = slot_keys key sl n @ [cstr 8 (key s)]"
    by (simp add: slot_keys_def)
  show "table_ok key cap (sl[n := s]) (Suc n)"
    using ok room len new take keys by (auto simp: table_ok_def)
  have "table_map key (sl[n := s]) (Suc n) =
      [cstr 8 (key s) \<mapsto> s] ++ table_map key sl n"
    using take by (simp add: table_map_def)
  also have "\<dots> = (table_map key sl n)(cstr 8 (key s) \<mapsto> s)"
    using new table_map_None [of key sl n "cstr 8 (key s)"]
    by (auto simp: map_add_def fun_eq_iff split: option.splits)
  finally show "table_map key (sl[n := s]) (Suc n) = (table_map key sl n)(cstr 8 (key s) \<mapsto> s)" .
qed

section \<open>The linear search\<close>

locale scan_loop =
  fixes key :: "'a \<Rightarrow> char list"
    and scan :: "'a list \<Rightarrow> char list \<Rightarrow> nat \<Rightarrow> nat \<Rightarrow> nat option option"
  assumes scan_step: "scan sl k i n =
    (if i < n then do {
       s \<leftarrow> at_index sl i;
       c \<leftarrow> strncmp (key s) k 8;
       if c = 0 then Some (Some i) else scan sl k (Suc i) n }
     else Some None)"
begin

lemma scan_result:
  assumes "n \<le> length sl" "\<And>j. j < n \<Longrightarrow> length (key (sl ! j)) = 8" "readable 8 k"
  shows "\<exists>r. scan sl k i n = Some r \<and>
    (case r of None \<Rightarrow> \<forall>j. i \<le> j \<and> j < n \<longrightarrow> cstr 8 (key (sl ! j)) \<noteq> cstr 8 k
     | Some j \<Rightarrow> i \<le> j \<and> j < n \<and> cstr 8 (key (sl ! j)) = cstr 8 k)"
proof (induction "n - i" arbitrary: i rule: less_induct)
  case less
  show ?case
  proof (cases "i < n")
    case False
    then show ?thesis by (auto simp: scan_step [of sl k i])
  next
    case True
    with assms obtain c where c: "strncmp (key (sl ! i)) k 8 = Some c"
        "c = 0 \<longleftrightarrow> cstr 8 (key (sl ! i)) = cstr 8 k"
      using strncmp_total [of 8 "key (sl ! i)" k] by (auto simp: readable_full)
    show ?thesis
    proof (cases "c = 0")
      case True
      with \<open>i < n\<close> c assms(1) show ?thesis by (simp add: scan_step [of sl k i])
    next
      case False
      with \<open>i < n\<close> c assms(1) have eq: "scan sl k i n = scan sl k (Suc i) n"
        by (simp add: scan_step [of sl k i])
      have "n - Suc i < n - i" using \<open>i < n\<close> by simp
      from less [OF this] obtain r where r: "scan sl k (Suc i) n = Some r"
        "case r of None \<Rightarrow> \<forall>j. Suc i \<le> j \<and> j < n \<longrightarrow> cstr 8 (key (sl ! j)) \<noteq> cstr 8 k
         | Some j \<Rightarrow> Suc i \<le> j \<and> j < n \<and> cstr 8 (key (sl ! j)) = cstr 8 k"
        by blast
      moreover have "i \<le> j \<longleftrightarrow> i = j \<or> Suc i \<le> j" for j by arith
      ultimately show ?thesis
        using False c(2) by (intro exI [of _ r]) (auto simp: eq split: option.splits)
    qed
  qed
qed

lemma scan_hit:
  assumes "table_ok key cap sl n" "readable 8 k"
  shows "scan sl k 0 n = Some (Some j) \<longleftrightarrow> j < n \<and> cstr 8 (key (sl ! j)) = cstr 8 k"
proof -
  obtain r where r: "scan sl k 0 n = Some r"
      "case r of None \<Rightarrow> \<forall>j. j < n \<longrightarrow> cstr 8 (key (sl ! j)) \<noteq> cstr 8 k
       | Some j \<Rightarrow> j < n \<and> cstr 8 (key (sl ! j)) = cstr 8 k"
    using scan_result [of n sl k 0] table_okD(1,2,4) [OF assms(1)] assms(2)
    by (auto split: option.splits)
  then show ?thesis
    using slot_keys_unique [OF assms(1)] by (auto split: option.splits)
qed

lemma scan_miss:
  assumes "table_ok key cap sl n" "readable 8 k"
  shows "scan sl k 0 n = Some None \<longleftrightarrow> table_map key sl n (cstr 8 k) = None"
proof -
  obtain r where r: "scan sl k 0 n = Some r"
      "case r of None \<Rightarrow> \<forall>j. j < n \<longrightarrow> cstr 8 (key (sl ! j)) \<noteq> cstr 8 k
       | Some j \<Rightarrow> j < n \<and> cstr 8 (key (sl ! j)) = cstr 8 k"
    using scan_result [of n sl k 0] table_okD(1,2,4) [OF assms(1)] assms(2)
    by (auto split: option.splits)
  then show ?thesis
    using table_okD(1,2) [OF assms(1)] table_map_nth [OF assms(1)]
    by (auto simp: table_map_None mem_slot_keys split: option.splits)
qed

lemma scan_cases:
  assumes "table_ok key cap sl n" "readable 8 k"
  obtains (hit) j where "scan sl k 0 n = Some (Some j)" "j < n"
      "cstr 8 (key (sl ! j)) = cstr 8 k" "table_map key sl n (cstr 8 k) = Some (sl ! j)"
    | (miss) "scan sl k 0 n = Some None" "table_map key sl n (cstr 8 k) = None"
proof (cases "table_map key sl n (cstr 8 k)")
  case None
  then show ?thesis using miss scan_miss [OF assms] by simp
next
  case (Some s)
  then obtain j where "j < n" "sl ! j = s" "cstr 8 (key s) = cstr 8 k"
    using table_map_SomeE table_okD(1,2) [OF assms(1)] by metis
  then show ?thesis
    using hit [of j] scan_hit [OF assms, of j] Some by simp
qed

text \<open>The write access of a handler: search, return if nothing is found, otherwise rewrite the
  slot. It keeps the invariant and updates the abstract map at one key.\<close>

lemma scan_modify:
  assumes ok: "table_ok key cap sl n" and k: "readable 8 k"
    and keep: "\<forall>s s'. f s = Some s' \<longrightarrow> key s' = key s"
    and eq: "r = do { p \<leftarrow> scan sl k 0 n;
      case p of None \<Rightarrow> Some sl
      | Some i \<Rightarrow> do { s \<leftarrow> at_index sl i; s' \<leftarrow> f s; Some (sl[i := s']) } }"
  shows "map_option (\<lambda>sl'. table_map key sl' n) r =
      (case table_map key sl n (cstr 8 k) of None \<Rightarrow> Some (table_map key sl n)
       | Some s \<Rightarrow> map_option (\<lambda>s'. (table_map key sl n)(cstr 8 k \<mapsto> s')) (f s))"
    and "r = Some sl' \<Longrightarrow> table_ok key cap sl' n"
proof -
  have "map_option (\<lambda>sl'. table_map key sl' n) r =
      (case table_map key sl n (cstr 8 k) of None \<Rightarrow> Some (table_map key sl n)
       | Some s \<Rightarrow> map_option (\<lambda>s'. (table_map key sl n)(cstr 8 k \<mapsto> s')) (f s)) \<and>
    (\<forall>sl'. r = Some sl' \<longrightarrow> table_ok key cap sl' n)"
  proof (cases rule: scan_cases [OF ok k])
    case (1 j)
    have len: "j < length sl" using 1(2) table_okD(1,2) [OF ok] by simp
    then have r: "r = map_option (\<lambda>s'. sl[j := s']) (f (sl ! j))"
      using 1(1) eq by (cases "f (sl ! j)") simp_all
    show ?thesis
    proof (cases "f (sl ! j)")
      case None
      with r 1(4) show ?thesis by simp
    next
      case (Some s')
      note upd = table_update [OF ok 1(2) keep [rule_format, OF Some]]
      show ?thesis using Some r upd 1(3,4) by auto
    qed
  next
    case 2
    then show ?thesis using ok eq by auto
  qed
  then show "map_option (\<lambda>sl'. table_map key sl' n) r =
      (case table_map key sl n (cstr 8 k) of None \<Rightarrow> Some (table_map key sl n)
       | Some s \<Rightarrow> map_option (\<lambda>s'. (table_map key sl n)(cstr 8 k \<mapsto> s')) (f s))"
    and "r = Some sl' \<Longrightarrow> table_ok key cap sl' n"
    by blast+
qed

text \<open>The read access: the search, then the slot it names.\<close>

lemma scan_lookup:
  assumes "table_ok key cap sl n" "readable 8 k"
  shows "map_option (map_option ((!) sl)) (scan sl k 0 n) = Some (table_map key sl n (cstr 8 k))"
  using scan_cases [OF assms] by (metis option.simps(8,9))

end

section \<open>Find or append\<close>

locale slot_table = scan_loop key scan
  for key :: "'a \<Rightarrow> char list"
    and scan :: "'a list \<Rightarrow> char list \<Rightarrow> nat \<Rightarrow> nat \<Rightarrow> nat option option" +
  fixes fresh :: "char list \<Rightarrow> 'a"
    and cap :: nat
    and obtain_slot :: "'a list \<Rightarrow> nat \<Rightarrow> char list \<Rightarrow> ('a list \<times> nat \<times> nat option) option"
  assumes fresh_key: "key (fresh bs) = bs"
    and obtain_step: "obtain_slot sl n k =
      do {
        r \<leftarrow> scan sl k 0 n;
        case r of
          Some i \<Rightarrow> Some (sl, n, Some i)
        | None \<Rightarrow>
            if cap \<le> n then Some (sl, n, None)
            else do {
              _ \<leftarrow> at_index sl n;
              bs \<leftarrow> strncpy k 8;
              Some (sl[n := fresh bs], Suc n, Some n) } }"
begin

definition slot_for :: "'a list \<Rightarrow> nat \<Rightarrow> char list \<Rightarrow> 'a" where
  "slot_for sl n k =
     (case table_map key sl n (cstr 8 k) of Some s \<Rightarrow> s | None \<Rightarrow> fresh (pad_name 8 (cstr 8 k)))"

lemma obtain_cases:
  assumes ok: "table_ok key cap sl n" and k: "readable 8 k"
  obtains (full) "obtain_slot sl n k = Some (sl, n, None)"
      "table_map key sl n (cstr 8 k) = None" "n = cap"
    | (slot) sl' n' j where "obtain_slot sl n k = Some (sl', n', Some j)" "table_ok key cap sl' n'"
      "j < n'" "cstr 8 (key (sl' ! j)) = cstr 8 k" "length (key (sl' ! j)) = 8"
      "table_map key sl' n' = (table_map key sl n)(cstr 8 k \<mapsto> slot_for sl n k)"
      "sl' ! j = slot_for sl n k" "n \<le> n'" "table_map key sl n (cstr 8 k) \<noteq> None \<or> n < cap"
proof (cases rule: scan_cases [OF ok k])
  case (1 j)
  have o: "obtain_slot sl n k = Some (sl, n, Some j)"
    unfolding obtain_step 1(1) by simp
  have f: "slot_for sl n k = sl ! j"
    by (simp add: slot_for_def 1(4))
  have m: "(table_map key sl n)(cstr 8 k \<mapsto> sl ! j) = table_map key sl n"
    using 1(4) by (rule map_upd_triv)
  show ?thesis
    using 1(4) by (intro slot [OF o ok 1(2,3) table_okD(4) [OF ok 1(2)]]) (simp_all add: f m)
next
  case 2
  show ?thesis
  proof (cases "cap \<le> n")
    case True
    then have "obtain_slot sl n k = Some (sl, n, None)"
      unfolding obtain_step 2(1) by simp
    then show ?thesis by (rule full) (use True 2(2) table_okD(2) [OF ok] in simp_all)
  next
    case False
    let ?s = "fresh (pad_name 8 (cstr 8 k))"
    have key: "cstr 8 (key ?s) = cstr 8 k" "length (key ?s) = 8"
      by (simp_all add: fresh_key cstr_pad_name length_cstr)
    have new: "cstr 8 (key ?s) \<notin> set (slot_keys key sl n)"
      using 2(2) key(1) by (simp add: table_map_None)
    note app = table_append [OF ok _ key(2) new]
    have n: "n < cap" "n < length sl" using False table_okD(1) [OF ok] by simp_all
    have o: "obtain_slot sl n k = Some (sl[n := ?s], Suc n, Some n)"
      unfolding obtain_step 2(1) using n by (simp add: strncpy_eq [OF k])
    have f: "slot_for sl n k = ?s"
      by (simp add: slot_for_def 2(2))
    show ?thesis
      by (intro slot [OF o app(1)]) (use n key app(2) f in simp_all)
  qed
qed

text \<open>Writing the obtained slot updates the abstract map at the key, and nowhere else; when the
  array is full and the key is new, nothing changes.\<close>

lemma obtain_modify:
  assumes ok: "table_ok key cap sl n" and k: "readable 8 k"
    and keep: "\<forall>s s'. f s = Some s' \<longrightarrow> key s' = key s"
    and eq: "r = do { (sl1, n1, p) \<leftarrow> obtain_slot sl n k;
      case p of None \<Rightarrow> Some (sl1, n1)
      | Some i \<Rightarrow> do { s \<leftarrow> at_index sl1 i; s' \<leftarrow> f s; Some (sl1[i := s'], n1) } }"
  shows "map_option (\<lambda>(sl', n'). table_map key sl' n') r =
      (if table_map key sl n (cstr 8 k) \<noteq> None \<or> n < cap then
         map_option (\<lambda>s'. (table_map key sl n)(cstr 8 k \<mapsto> s')) (f (slot_for sl n k))
       else Some (table_map key sl n))" (is "?map")
    and "r = Some (sl', n') \<Longrightarrow> table_ok key cap sl' n'"
proof -
  have "?map \<and> (\<forall>sl' n'. r = Some (sl', n') \<longrightarrow> table_ok key cap sl' n')"
  proof (cases rule: obtain_cases [OF ok k])
    case 1
    then show ?thesis using ok eq by simp
  next
    case (2 sl1 n1 j)
    have len: "j < length sl1" using 2(3) table_okD(1,2) [OF 2(2)] by simp
    have r: "r = map_option (\<lambda>s'. (sl1[j := s'], n1)) (f (slot_for sl n k))"
      using 2(1,7) len eq by (cases "f (slot_for sl n k)") simp_all
    show ?thesis
    proof (cases "f (slot_for sl n k)")
      case None
      with r 2(9) show ?thesis by simp
    next
      case (Some s')
      then have "key s' = key (sl1 ! j)" using keep 2(7) by simp
      note upd = table_update [OF 2(2,3) this]
      show ?thesis using Some r upd 2(4,6,9) by auto
    qed
  qed
  then show ?map and "r = Some (sl', n') \<Longrightarrow> table_ok key cap sl' n'" by blast+
qed

end

end
