(* ===== verification/Binary64.thy ===== *)
theory Binary64
  imports HFT_Prelude "HOL-Library.Log_Nat"
begin

text \<open>
  The part of IEEE 754 binary64 the program computes with: the conversion of an integer, one
  multiplication or division, and the conversion back. A finite double is the rational it stands
  for; every operation rounds the exact result to nearest, ties to even, on the grid of doubles,
  subnormals included. Signed zeros are not told apart, since the program never looks at the sign
  of a zero.
\<close>

section \<open>Rounding\<close>

datatype double = Finite rat | Infinity bool | NaN

definition round_half_even :: "rat \<Rightarrow> int" where
  "round_half_even x =
     (let f = \<lfloor>x\<rfloor>; r = x - of_int f in
      if r < 1 / 2 then f else if r > 1 / 2 then f + 1 else if even f then f else f + 1)"

text \<open>The exponent of the unit in the last place: the least \<open>e \<ge> - 1074\<close> with \<open>\<bar>x\<bar> < 2 ^ (53 + e)\<close>,
  from the bit lengths of numerator and denominator.\<close>

definition ulp_exp :: "rat \<Rightarrow> int" where
  "ulp_exp x =
     (let (n, d) = quotient_of x; e = bitlen \<bar>n\<bar> - bitlen d - 53 in
      max (- 1074) (if \<bar>x\<bar> < 2 powi (53 + e) then e else e + 1))"

definition round64 :: "rat \<Rightarrow> double" where
  "round64 x =
     (let u = 2 powi ulp_exp x; y = of_int (round_half_even (x / u)) * u in
      if \<bar>y\<bar> < 2 ^ 1024 then Finite y else Infinity (x < 0))"

section \<open>Operations\<close>

text \<open>\<open>static_cast<double>\<close> of an integer.\<close>

definition d_of_int :: "int \<Rightarrow> double" where
  "d_of_int n = round64 (of_int n)"

text \<open>Multiplication and division by a finite positive double, the only ones in the program.\<close>

definition d_mul :: "double \<Rightarrow> rat \<Rightarrow> double" where
  "d_mul x c = (case x of Finite a \<Rightarrow> round64 (a * c) | Infinity s \<Rightarrow> Infinity s | NaN \<Rightarrow> NaN)"

definition d_div :: "double \<Rightarrow> rat \<Rightarrow> double" where
  "d_div x c = (case x of Finite a \<Rightarrow> round64 (a / c) | Infinity s \<Rightarrow> Infinity s | NaN \<Rightarrow> NaN)"

definition d_add :: "double \<Rightarrow> double \<Rightarrow> double" where
  "d_add x y =
     (case (x, y) of
        (Finite a, Finite b) \<Rightarrow> round64 (a + b)
      | (NaN, _) \<Rightarrow> NaN
      | (_, NaN) \<Rightarrow> NaN
      | (Infinity s, Infinity t) \<Rightarrow> if s = t then Infinity s else NaN
      | (Infinity s, Finite _) \<Rightarrow> Infinity s
      | (Finite _, Infinity t) \<Rightarrow> Infinity t)"

text \<open>Truncation towards zero, and the two conversions to integer types: undefined when the
  truncated value does not fit.\<close>

definition trunc :: "rat \<Rightarrow> int" where
  "trunc x = (if x < 0 then \<lceil>x\<rceil> else \<lfloor>x\<rfloor>)"

definition d_to_i64 :: "double \<Rightarrow> int option" where
  "d_to_i64 x = (case x of Finite a \<Rightarrow> i64 (trunc a) | _ \<Rightarrow> None)"

definition d_to_i32 :: "double \<Rightarrow> int option" where
  "d_to_i32 x = (case x of Finite a \<Rightarrow> i32 (trunc a) | _ \<Rightarrow> None)"

section \<open>The error of rounding\<close>

lemma round_half_even_error: "\<bar>of_int (round_half_even x) - x\<bar> \<le> 1 / 2"
proof -
  define f r where "f = \<lfloor>x\<rfloor>" and "r = x - of_int f"
  have "0 \<le> r" "r < 1" unfolding r_def f_def by linarith+
  then show ?thesis
    unfolding round_half_even_def Let_def f_def [symmetric] r_def [symmetric] by (auto simp: r_def)
qed

lemma round_half_even_int [simp]: "round_half_even (of_int n) = n"
  by (simp add: round_half_even_def)

lemma ulp_exp_bounds:
  assumes "x \<noteq> 0"
  shows "\<bar>x\<bar> < 2 powi (53 + ulp_exp x)" "ulp_exp x = - 1074 \<or> 2 powi (52 + ulp_exp x) \<le> \<bar>x\<bar>"
proof -
  obtain n d where q: "quotient_of x = (n, d)" by (cases "quotient_of x")
  define e where "e = bitlen \<bar>n\<bar> - bitlen d - 53"
  have x: "x = of_int n / of_int d" and d: "0 < d"
    using quotient_of_div [OF q] quotient_of_denom_pos [OF q] by simp_all
  with assms have n: "0 < \<bar>n\<bar>" by auto
  have ax: "\<bar>x\<bar> = of_int \<bar>n\<bar> / of_int d" using x d by (simp add: abs_divide)
  have p: "(2::rat) powi (bitlen k - 1) \<le> of_int k" "of_int k < (2::rat) powi bitlen k" if "0 < k" for k
  proof -
    have "1 \<le> bitlen k" using that by (metis bitlen_eq_zero_iff bitlen_nonneg linorder_not_less
        order_less_le int_one_le_iff_zero_less)
    moreover have "2 ^ nat (bitlen k - 1) \<le> k" "k < 2 ^ nat (bitlen k)" using bitlen_bounds [OF that] by auto
    then have "of_int (2 ^ nat (bitlen k - 1)) \<le> (of_int k :: rat)" "(of_int k :: rat) < of_int (2 ^ nat (bitlen k))"
      by (simp_all only: of_int_le_iff of_int_less_iff)
    ultimately show "(2::rat) powi (bitlen k - 1) \<le> of_int k" "of_int k < (2::rat) powi bitlen k"
      by (simp_all add: power_int_nonneg_exp)
  qed
  have "\<bar>x\<bar> < 2 powi bitlen \<bar>n\<bar> / 2 powi (bitlen d - 1)"
    unfolding ax using p(2) [OF n] p(1) [OF d] d by (intro frac_less) auto
  also have "\<dots> = 2 powi (54 + e)" by (simp add: power_int_diff [symmetric] e_def algebra_simps)
  finally have up: "\<bar>x\<bar> < 2 powi (54 + e)" .
  have "(2::rat) powi (52 + e) = 2 powi (bitlen \<bar>n\<bar> - 1) / 2 powi bitlen d"
    by (simp add: power_int_diff [symmetric] e_def algebra_simps)
  also have "\<dots> \<le> \<bar>x\<bar>"
    unfolding ax using p(1) [OF n] p(2) [OF d] d n by (intro frac_le) auto
  finally have lo: "2 powi (52 + e) \<le> \<bar>x\<bar>" .
  have u: "ulp_exp x = max (- 1074) (if \<bar>x\<bar> < 2 powi (53 + e) then e else e + 1)"
    by (simp add: ulp_exp_def q e_def)
  have mono: "(2::rat) powi (53 + a) \<le> 2 powi (53 + b)" if "a \<le> b" for a b :: int
    using that by (intro power_int_increasing) auto
  show "\<bar>x\<bar> < 2 powi (53 + ulp_exp x)"
  proof (cases "\<bar>x\<bar> < 2 powi (53 + e)")
    case True
    then show ?thesis using u mono [of e "ulp_exp x"] by (auto intro: less_le_trans)
  next
    case False
    then have "e + 1 \<le> ulp_exp x" using u by auto
    then show ?thesis using up mono [of "e + 1" "ulp_exp x"] by (simp add: add.commute add.left_commute)
  qed
  show "ulp_exp x = - 1074 \<or> 2 powi (52 + ulp_exp x) \<le> \<bar>x\<bar>"
    using u lo by (auto simp: max_def add.commute add.left_commute not_less)
qed

text \<open>The rounded value as a rational, and its relative error in the normal range.\<close>

definition rnd :: "rat \<Rightarrow> rat" where
  "rnd x = of_int (round_half_even (x / 2 powi ulp_exp x)) * 2 powi ulp_exp x"

lemma rnd_error:
  assumes "2 powi (- 1022) \<le> \<bar>x\<bar>"
  shows "\<bar>rnd x - x\<bar> \<le> \<bar>x\<bar> / 2 ^ 53"
proof -
  define u :: rat where "u = 2 powi ulp_exp x"
  have u: "0 < u" by (simp add: u_def)
  have "(0::rat) < 2 powi (- 1022)" by simp
  with assms have x: "x \<noteq> 0" by auto
  have "2 ^ 52 * u \<le> \<bar>x\<bar>"
    using ulp_exp_bounds(2) [OF x] assms
    by (auto simp: u_def power_int_add power_int_nonneg_exp)
  moreover have "\<bar>rnd x - x\<bar> = \<bar>of_int (round_half_even (x / u)) - x / u\<bar> * u"
    using u by (simp add: rnd_def u_def [symmetric] abs_mult_pos left_diff_distrib)
  moreover have "\<dots> \<le> 1 / 2 * u"
    using round_half_even_error u by (intro mult_right_mono) auto
  ultimately show ?thesis by simp
qed

lemma rnd_of_int: "\<bar>n\<bar> < 2 ^ 53 \<Longrightarrow> rnd (of_int n) = of_int n"
proof (cases "n = 0")
  case False
  assume n: "\<bar>n\<bar> < 2 ^ 53"
  define e where "e = ulp_exp (of_int n)"
  have "e \<le> 0"
  proof (rule ccontr)
    assume "\<not> e \<le> 0"
    then have "(2::rat) powi 53 \<le> 2 powi (52 + e)" by (intro power_int_increasing) auto
    also have "\<dots> \<le> of_int \<bar>n\<bar>"
      using ulp_exp_bounds(2) [of "of_int n"] False \<open>\<not> e \<le> 0\<close> by (auto simp: e_def)
    finally have "(of_int (2 ^ 53) :: rat) \<le> of_int \<bar>n\<bar>" by simp
    with n show False by (simp only: of_int_le_iff)
  qed
  then have "(of_int n :: rat) / 2 powi e = of_int (n * 2 ^ nat (- e))"
    by (simp add: power_int_def field_simps)
  then have r: "round_half_even (of_int n / 2 powi e) = n * 2 ^ nat (- e)"
    by (simp only: round_half_even_int)
  show ?thesis
    unfolding rnd_def e_def [symmetric] r using \<open>e \<le> 0\<close> by (simp add: power_int_def field_simps)
qed (simp add: rnd_def round_half_even_def)

lemma round64_rnd: "\<bar>rnd x\<bar> < 2 ^ 1024 \<Longrightarrow> round64 x = Finite (rnd x)"
  by (simp add: round64_def rnd_def Let_def)

text \<open>The rounding of a given value, from its exponent and its significand.\<close>

lemma ulp_exp_eqI:
  assumes "2 powi (52 + e) \<le> \<bar>x\<bar>" "\<bar>x\<bar> < 2 powi (53 + e)" "- 1074 \<le> e"
  shows "ulp_exp x = e"
proof -
  have "(0::rat) < 2 powi (52 + e)" by simp
  then have "0 < \<bar>x\<bar>" using assms(1) by (rule less_le_trans)
  then have x: "x \<noteq> 0" by simp
  note b = ulp_exp_bounds [OF x]
  have lt: "a < b" if "(2::rat) powi a < 2 powi b" for a b :: int
    using that by (metis linorder_not_less one_le_numeral power_int_increasing)
  have "e \<le> ulp_exp x" using lt [of "52 + e" "53 + ulp_exp x"] b(1) assms(1) by auto
  moreover have "ulp_exp x \<le> e" using b(2) lt [of "52 + ulp_exp x" "53 + e"] assms(2,3) by auto
  ultimately show ?thesis by simp
qed

lemma round_half_even_eqI: "\<bar>x - of_int k\<bar> < 1 / 2 \<Longrightarrow> round_half_even x = k"
proof -
  assume "\<bar>x - of_int k\<bar> < 1 / 2"
  then have "\<bar>(of_int (round_half_even x) :: rat) - of_int k\<bar> < 1"
    using round_half_even_error [of x] by linarith
  then have "\<bar>round_half_even x - k\<bar> < 1" by (metis of_int_abs of_int_diff of_int_less_1_iff)
  then show ?thesis by simp
qed

lemma round64_eqI:
  assumes "2 powi (52 + e) \<le> \<bar>x\<bar>" "\<bar>x\<bar> < 2 powi (53 + e)" "- 1074 \<le> e"
    and "\<bar>x / 2 powi e - of_int k\<bar> < 1 / 2" "\<bar>of_int k * 2 powi e\<bar> < (2::rat) ^ 1024"
  shows "round64 x = Finite (of_int k * 2 powi e)"
  using assms(5) by (simp add: round64_def ulp_exp_eqI [OF assms(1-3)] round_half_even_eqI [OF assms(4)])

lemma trunc_bounds:
  "0 \<le> x \<Longrightarrow> of_int (trunc x) \<le> x \<and> x < of_int (trunc x) + 1"
  "x \<le> 0 \<Longrightarrow> x \<le> of_int (trunc x) \<and> of_int (trunc x) - 1 < x"
  by (auto simp: trunc_def) linarith+

end
