(* ===== verification/OrderEvent.thy ===== *)
theory OrderEvent
  imports Binary64
begin

text \<open>
  \<open>include/OrderEvent.h\<close>: the 64-byte event that is the unit of the event log, its enums, its
  views and the two factories. An \<open>enum class\<close> over \<open>uint8_t\<close> may hold any byte, and a
  zero-initialised event does hold 0, so each enum has a constructor for the bytes that name no
  enumerator.
\<close>

section \<open>Enums and the event record\<close>

definition PRICE_SCALE :: int where
  "PRICE_SCALE = 1000000"

datatype event_type =
  NewOrder | PartialFill | FullFill | Cancel | Reject | Amend | EventType_other "8 word"

datatype side = Buy | Sell | Side_other "8 word"

record order_event =
  sequence :: "64 word"
  timestamp_ns :: "64 word"
  price :: int
  fill_price :: int
  qty :: int
  fill_qty :: int
  symbol :: "char list"
  order_id :: "char list"
  etype :: event_type
  side :: side
  evt_pad :: "8 word list"

text \<open>\<open>std::string_view\<close>: the bytes its pointer may read and its length. The source passes views
  but its string calls use only \<open>data()\<close>, so what may be read matters more than the length.\<close>

record string_view =
  sv_data :: "char list"
  sv_size :: nat

definition sv_of :: "string \<Rightarrow> string_view" where
  "sv_of s = \<lparr>sv_data = c_str s, sv_size = length s\<rparr>"

definition sv_string :: "string_view \<Rightarrow> string" where
  "sv_string v = take (sv_size v) (sv_data v)"

definition symbol_view :: "order_event \<Rightarrow> string_view" where
  "symbol_view e = \<lparr>sv_data = symbol e, sv_size = strnlen (symbol e) 8\<rparr>"

definition order_id_view :: "order_event \<Rightarrow> string_view" where
  "order_id_view e = \<lparr>sv_data = order_id e, sv_size = strnlen (order_id e) 8\<rparr>"

definition is_fill :: "order_event \<Rightarrow> bool" where
  "is_fill e \<longleftrightarrow> etype e = PartialFill \<or> etype e = FullFill"

definition price_d :: "order_event \<Rightarrow> double" where
  "price_d e = d_div (d_of_int (price e)) (of_int PRICE_SCALE)"

definition fill_price_d :: "order_event \<Rightarrow> double" where
  "fill_price_d e = d_div (d_of_int (fill_price e)) (of_int PRICE_SCALE)"

definition zero_event :: order_event where
  "zero_event = \<lparr>sequence = 0, timestamp_ns = 0, price = 0, fill_price = 0, qty = 0,
     fill_qty = 0, symbol = replicate 8 NUL, order_id = replicate 8 NUL,
     etype = EventType_other 0, side = Side_other 0, evt_pad = replicate 6 0\<rparr>"

section \<open>The factories\<close>

definition make_fill ::
  "string_view \<Rightarrow> side \<Rightarrow> int \<Rightarrow> int \<Rightarrow> string_view \<Rightarrow> string_view \<Rightarrow> bool \<Rightarrow> order_event option" where
  "make_fill symb sd fqty fprice oid exchange_id partial =
     (let e = zero_event\<lparr>etype := (if partial then PartialFill else FullFill), side := sd,
                qty := fqty, fill_qty := fqty, fill_price := fprice\<rparr>
      in do {
        s \<leftarrow> strncpy (sv_data symb) 8;
        i \<leftarrow> strncpy (sv_data oid) 8;
        Some (e\<lparr>symbol := s, order_id := i\<rparr>) })"

definition make_new_order ::
  "string_view \<Rightarrow> side \<Rightarrow> int \<Rightarrow> int \<Rightarrow> string_view \<Rightarrow> order_event option" where
  "make_new_order symb sd q price_fp oid =
     (let e = zero_event\<lparr>etype := NewOrder, side := sd, qty := q, price := price_fp\<rparr>
      in do {
        s \<leftarrow> strncpy (sv_data symb) 8;
        i \<leftarrow> strncpy (sv_data oid) 8;
        Some (e\<lparr>symbol := s, order_id := i\<rparr>) })"

section \<open>Well-formed events\<close>

text \<open>The C types of the fields: what every event of the program satisfies by typing.\<close>

definition event_ok :: "order_event \<Rightarrow> bool" where
  "event_ok e \<longleftrightarrow> int64 (price e) \<and> int64 (fill_price e) \<and> int32 (qty e) \<and> int32 (fill_qty e) \<and>
     length (symbol e) = 8 \<and> length (order_id e) = 8 \<and> length (evt_pad e) = 6"

text \<open>The names an event carries, as C strings of at most eight bytes.\<close>

definition event_symbol :: "order_event \<Rightarrow> string" where
  "event_symbol e = cstr 8 (symbol e)"

definition event_oid :: "order_event \<Rightarrow> string" where
  "event_oid e = cstr 8 (order_id e)"

lemma event_okD:
  assumes "event_ok e"
  shows "int64 (price e)" "int64 (fill_price e)" "int32 (qty e)" "int32 (fill_qty e)"
    "readable 8 (symbol e)" "readable 8 (order_id e)" "length (symbol e) = 8" "length (order_id e) = 8"
  using assms by (auto simp: event_ok_def readable_def)

lemma sv_data_views [simp]:
  "sv_data (symbol_view e) = symbol e" "sv_data (order_id_view e) = order_id e"
  "sv_data (sv_of s) = c_str s"
  by (simp_all add: symbol_view_def order_id_view_def sv_of_def)

lemma take_strnlen: "take (strnlen bs n) bs = cstr n bs"
proof -
  have "cstr n bs = take (length (cstr n bs)) (take n bs)"
    unfolding cstr_def by (rule takeWhile_eq_take)
  then show ?thesis
    using length_cstr [of n bs] by (simp add: strnlen_def min_absorb1)
qed

lemma sv_string_views:
  "sv_string (symbol_view e) = event_symbol e" "sv_string (order_id_view e) = event_oid e"
  by (simp_all add: sv_string_def symbol_view_def order_id_view_def take_strnlen
      event_symbol_def event_oid_def)

lemma make_fill_eq:
  assumes "readable 8 (sv_data symb)" "readable 8 (sv_data oid)"
  shows "make_fill symb sd fqty fprice oid xid partial =
    Some (zero_event\<lparr>etype := (if partial then PartialFill else FullFill), side := sd,
      qty := fqty, fill_qty := fqty, fill_price := fprice,
      symbol := pad_name 8 (cstr 8 (sv_data symb)), order_id := pad_name 8 (cstr 8 (sv_data oid))\<rparr>)"
  using assms by (simp add: make_fill_def strncpy_eq)

lemma make_new_order_eq:
  assumes "readable 8 (sv_data symb)" "readable 8 (sv_data oid)"
  shows "make_new_order symb sd q p oid =
    Some (zero_event\<lparr>etype := NewOrder, side := sd, qty := q, price := p,
      symbol := pad_name 8 (cstr 8 (sv_data symb)), order_id := pad_name 8 (cstr 8 (sv_data oid))\<rparr>)"
  using assms by (simp add: make_new_order_def strncpy_eq)

lemma make_new_order_fields:
  assumes "make_new_order symb sd q p oid = Some e"
  shows "etype e = NewOrder" "side e = sd" "qty e = q" "price e = p" "fill_qty e = 0" "fill_price e = 0"
    "sequence e = 0" "event_symbol e = cstr 8 (sv_data symb)" "event_oid e = cstr 8 (sv_data oid)"
    "int64 p \<Longrightarrow> int32 q \<Longrightarrow> event_ok e"
  using assms
  by (auto simp: make_new_order_def Let_def Option.bind_eq_Some_conv zero_event_def event_symbol_def
      event_oid_def event_ok_def dest!: cstr_strncpy)

lemma make_fill_fields:
  assumes "make_fill symb sd q p oid xid partial = Some e"
  shows "is_fill e" "side e = sd" "qty e = q" "fill_qty e = q" "fill_price e = p" "price e = 0"
    "event_symbol e = cstr 8 (sv_data symb)" "event_oid e = cstr 8 (sv_data oid)"
    "int64 p \<Longrightarrow> int32 q \<Longrightarrow> event_ok e"
  using assms
  by (auto simp: make_fill_def Let_def Option.bind_eq_Some_conv zero_event_def event_symbol_def
      event_oid_def event_ok_def is_fill_def split: if_splits dest!: cstr_strncpy)

section \<open>Sample events\<close>

text \<open>Events with given fields, for evaluating the program on concrete inputs.\<close>

definition sample_event :: "event_type \<Rightarrow> string \<Rightarrow> string \<Rightarrow> side \<Rightarrow> order_event" where
  "sample_event et oid symb sd =
     zero_event\<lparr>etype := et, side := sd, symbol := pad_name 8 symb, order_id := pad_name 8 oid\<rparr>"

definition sample_new :: "string \<Rightarrow> string \<Rightarrow> side \<Rightarrow> int \<Rightarrow> int \<Rightarrow> order_event" where
  "sample_new oid symb sd q px = (sample_event NewOrder oid symb sd)\<lparr>qty := q, price := px\<rparr>"

definition sample_fill :: "string \<Rightarrow> string \<Rightarrow> side \<Rightarrow> int \<Rightarrow> int \<Rightarrow> order_event" where
  "sample_fill oid symb sd q px = (sample_event PartialFill oid symb sd)\<lparr>fill_qty := q, fill_price := px\<rparr>"

section \<open>Properties\<close>

text \<open>\<open>make_fill\<close> is defined exactly when both names may be read, that is when their bytes hold a
  zero or number at least eight. The event it builds has the fill type its flag chooses, the given
  side, quantity and price, a limit price of zero, and its two views show the names cut to eight
  bytes; it is well formed for arguments of the declared types.\<close>

lemma make_fill_carries:
  "(case make_fill symb sd q p oid xid partial of
      None \<Rightarrow> \<not> readable 8 (sv_data symb) \<or> \<not> readable 8 (sv_data oid)
    | Some e \<Rightarrow> readable 8 (sv_data symb) \<and> readable 8 (sv_data oid) \<and>
        (event_ok e \<longleftrightarrow> int32 q \<and> int64 p) \<and>
        etype e = (if partial then PartialFill else FullFill) \<and> is_fill e \<and> side e = sd \<and>
        qty e = q \<and> fill_qty e = q \<and> fill_price e = p \<and> price e = 0 \<and>
        sv_string (symbol_view e) = cstr 8 (sv_data symb) \<and>
        sv_string (order_id_view e) = cstr 8 (sv_data oid))"
proof (cases "readable 8 (sv_data symb) \<and> readable 8 (sv_data oid)")
  case True
  then show ?thesis
    by (simp add: make_fill_eq sv_string_views event_symbol_def event_oid_def event_ok_def is_fill_def
        zero_event_def cstr_pad_name length_cstr conj_comms)
next
  case False
  then have "make_fill symb sd q p oid xid partial = None"
    using strncpy_unreadable [of 8 "sv_data symb"] strncpy_unreadable [of 8 "sv_data oid"]
    by (cases "readable 8 (sv_data symb)") (simp_all add: make_fill_def Let_def strncpy_eq)
  with False show ?thesis by simp
qed

end
