(* ===== verification/EventLog.thy ===== *)
theory EventLog
  imports OrderEvent
begin

text \<open>
  \<open>include/EventLog.h\<close>: the append-only, memory-mapped event log.

  The log file is a \<open>log_file\<close>: its length, the header and the event slots (a function from the
  slot number, since the file has room for ten million of them). An open \<open>EventLog\<close> object is the
  mapped file and the in-memory \<open>next_seq_\<close>. The operating system appears as arguments: whether
  \<open>open\<close>, \<open>ftruncate\<close> and \<open>mmap\<close> succeed, and what \<open>clock_gettime\<close> returns. An access to the
  mapping beyond the end of the file, or beyond the mapping, is \<open>None\<close>.
\<close>

section \<open>Header, file and object\<close>

definition LOG_MAGIC :: "64 word" where
  "LOG_MAGIC = 0xBAADF00D1337CAFE"

definition MAX_EVENTS :: nat where
  "MAX_EVENTS = 10000000"

definition FILE_SIZE :: nat where
  "FILE_SIZE = 64 + MAX_EVENTS * 64"

declare MAX_EVENTS_def [hft_consts] FILE_SIZE_def [hft_consts] LOG_MAGIC_def [hft_consts]

record log_header =
  magic :: "64 word"
  next_sequence :: "64 word"

record log_file =
  f_len :: nat
  header :: log_header
  events :: "nat \<Rightarrow> order_event"

record event_log =
  next_seq :: "64 word"
  mapped :: log_file

record timespec =
  tv_sec :: int
  tv_nsec :: int

definition now_ns :: "timespec \<Rightarrow> 64 word" where
  "now_ns ts = word_of_int (tv_sec ts) * 1000000000 + word_of_int (tv_nsec ts)"

text \<open>A slot of \<open>events_\<close> may be accessed when it is inside the mapping and inside the file.\<close>

definition slot_backed :: "log_file \<Rightarrow> nat \<Rightarrow> bool" where
  "slot_backed f i \<longleftrightarrow> i < MAX_EVENTS \<and> 64 + (i + 1) * 64 \<le> f_len f"

definition event_at :: "log_file \<Rightarrow> nat \<Rightarrow> order_event option" where
  "event_at f i = (if slot_backed f i then Some (events f i) else None)"

section \<open>Operations\<close>

definition log_append :: "timespec \<Rightarrow> order_event \<Rightarrow> event_log \<Rightarrow> (event_log \<times> (cpp_exn + 64 word)) option" where
  "log_append ts evt lg =
     (let sq = next_seq lg in
      if MAX_EVENTS \<le> unat sq then Some (lg, Inl (OverflowError ''EventLog full''))
      else let evt1 = evt\<lparr>sequence := sq, timestamp_ns := now_ns ts\<rparr>; f = mapped lg in
        if \<not> slot_backed f (unat sq) then None
        else let f1 = f\<lparr>events := (events f)(unat sq := evt1)\<rparr>;
                 log1 = lg\<lparr>mapped := f1, next_seq := sq + 1\<rparr>;
                 f2 = f1\<lparr>header := (header f1)\<lparr>next_sequence := sq + 1\<rparr>\<rparr>
             in Some (log1\<lparr>mapped := f2\<rparr>, Inr sq))"

definition read :: "event_log \<Rightarrow> 64 word \<Rightarrow> order_event option option" where
  "read lg sq =
     (if next_seq lg \<le> sq then Some None
      else map_option Some (event_at (mapped lg) (unat sq)))"

function replay_loop ::
  "(order_event \<Rightarrow> 's \<Rightarrow> 's option) \<Rightarrow> log_file \<Rightarrow> nat \<Rightarrow> nat \<Rightarrow> 's \<Rightarrow> 's option" where
  "replay_loop fn f i head s =
     (if i < head then do {
        e \<leftarrow> event_at f i;
        s' \<leftarrow> fn e s;
        replay_loop fn f (Suc i) head s' }
      else Some s)"
  by pat_completeness auto
termination
  by (relation "measure (\<lambda>(fn, f, i, head, s). head - i)") auto

declare replay_loop.simps [simp del]

definition replay :: "event_log \<Rightarrow> (order_event \<Rightarrow> 's \<Rightarrow> 's option) \<Rightarrow> 's \<Rightarrow> 's option" where
  "replay lg fn s = replay_loop fn (mapped lg) 0 (unat (next_seq lg)) s"

definition log_size :: "event_log \<Rightarrow> 64 word" where
  "log_size lg = next_seq lg"

definition log_empty :: "event_log \<Rightarrow> bool" where
  "log_empty lg \<longleftrightarrow> log_size lg = 0"

text \<open>What the operating system answers during \<open>open_or_create\<close>.\<close>

record os_env =
  open_ok :: bool
  ftruncate_ok :: bool
  mmap_ok :: bool

definition all_calls_succeed :: os_env where
  "all_calls_succeed = \<lparr>open_ok = True, ftruncate_ok = True, mmap_ok = True\<rparr>"

definition blank_file :: log_file where
  "blank_file = \<lparr>f_len = 0, header = \<lparr>magic = 0, next_sequence = 0\<rparr>, events = (\<lambda>_. zero_event)\<rparr>"

text \<open>The constructor, on the directory entry of its path (\<open>None\<close>: no such file): the entry
  afterwards and the object or the exception. The path that the source adds to the first message is
  left out.\<close>

definition open_or_create ::
  "os_env \<Rightarrow> log_file option \<Rightarrow> (log_file option \<times> (cpp_exn + event_log)) option" where
  "open_or_create os entry =
     (let exists = (entry \<noteq> None) in
      if \<not> open_ok os then Some (entry, Inl (RuntimeError ''EventLog: cannot open ''))
      else let f0 = (case entry of Some f \<Rightarrow> f | None \<Rightarrow> blank_file) in
      if \<not> exists \<and> \<not> ftruncate_ok os then
        Some (Some f0, Inl (RuntimeError ''EventLog: ftruncate failed''))
      else let f1 = (if \<not> exists then f0\<lparr>f_len := FILE_SIZE\<rparr> else f0) in
      if \<not> mmap_ok os then Some (Some f1, Inl (RuntimeError ''EventLog: mmap failed''))
      else if f_len f1 < 64 then None
      else if \<not> exists then
        let f2 = f1\<lparr>header := \<lparr>magic = LOG_MAGIC, next_sequence = 0\<rparr>\<rparr>
        in Some (Some f2, Inr \<lparr>next_seq = 0, mapped = f2\<rparr>)
      else if magic (header f1) \<noteq> LOG_MAGIC then
        Some (Some f1, Inl (RuntimeError ''EventLog: corrupt file''))
      else Some (Some f1, Inr \<lparr>next_seq = next_sequence (header f1), mapped = f1\<rparr>))"

text \<open>The destructor unmaps and closes: the shared mapping is what the file keeps.\<close>

definition close_log :: "event_log \<Rightarrow> log_file" where
  "close_log lg = mapped lg"

section \<open>The log as a list of events\<close>

definition log_events :: "event_log \<Rightarrow> order_event list" where
  "log_events lg = map (events (mapped lg)) [0..<unat (next_seq lg)]"

definition file_ok :: "log_file \<Rightarrow> bool" where
  "file_ok f \<longleftrightarrow> f_len f = FILE_SIZE \<and> magic (header f) = LOG_MAGIC \<and>
     unat (next_sequence (header f)) \<le> MAX_EVENTS \<and>
     (\<forall>i < unat (next_sequence (header f)). sequence (events f i) = word_of_nat i)"

definition log_ok :: "event_log \<Rightarrow> bool" where
  "log_ok lg \<longleftrightarrow> file_ok (mapped lg) \<and> next_seq lg = next_sequence (header (mapped lg))"

lemma slot_backed_full: "f_len f = FILE_SIZE \<Longrightarrow> i < MAX_EVENTS \<Longrightarrow> slot_backed f i"
  by (simp add: slot_backed_def FILE_SIZE_def)

lemma unat_next: "unat sq < MAX_EVENTS \<Longrightarrow> unat (sq + 1 :: 64 word) = Suc (unat sq)"
  by (simp add: MAX_EVENTS_def unat_word_ariths)

lemma length_log_events: "length (log_events lg) = unat (next_seq lg)"
  by (simp add: log_events_def)

text \<open>The replay loop is a fold over the events from its index on.\<close>

lemma replay_loop_foldm:
  assumes "\<And>i. i < head \<Longrightarrow> slot_backed f i"
  shows "replay_loop fn f i head s = foldm fn (map (events f) [i..<head]) s"
  using assms
proof (induction fn f i head s rule: replay_loop.induct)
  case (1 fn f i head s)
  show ?case
  proof (cases "i < head")
    case False
    then show ?thesis by (simp add: replay_loop.simps [of fn f i])
  next
    case True
    with 1 have "event_at f i = Some (events f i)" by (simp add: event_at_def)
    with True 1 show ?thesis
      by (cases "fn (events f i) s")
        (simp_all add: replay_loop.simps [of fn f i] upt_conv_Cons)
  qed
qed

lemma log_ok_backed: "log_ok lg \<Longrightarrow> i < unat (next_seq lg) \<Longrightarrow> slot_backed (mapped lg) i"
  by (auto simp: log_ok_def file_ok_def intro: slot_backed_full)

lemma log_append_ok:
  assumes "log_ok lg" "unat (next_seq lg) < MAX_EVENTS"
  obtains lg' where "log_append ts evt lg = Some (lg', Inr (next_seq lg))" "log_ok lg'"
    "log_events lg' = log_events lg @ [evt\<lparr>sequence := next_seq lg, timestamp_ns := now_ns ts\<rparr>]"
proof -
  let ?sq = "next_seq lg" and ?f = "mapped lg"
  let ?e = "evt\<lparr>sequence := ?sq, timestamp_ns := now_ns ts\<rparr>"
  let ?f' = "?f\<lparr>events := (events ?f)(unat ?sq := ?e),
    header := (header ?f)\<lparr>next_sequence := ?sq + 1\<rparr>\<rparr>"
  let ?lg' = "lg\<lparr>mapped := ?f', next_seq := ?sq + 1\<rparr>"
  have backed: "slot_backed ?f (unat ?sq)"
    using assms by (auto simp: log_ok_def file_ok_def intro: slot_backed_full)
  have 1: "log_append ts evt lg = Some (?lg', Inr ?sq)"
    using assms(2) backed by (simp add: log_append_def Let_def)
  have 2: "log_ok ?lg'"
    using assms by (auto simp: log_ok_def file_ok_def unat_next less_Suc_eq)
  have 3: "log_events ?lg' = log_events lg @ [?e]"
    using assms(2) by (simp add: log_events_def unat_next)
  show thesis by (rule that [OF 1 2 3])
qed

section \<open>Properties\<close>

lemma log_append_Inr_lt:
  "log_append ts evt lg = Some (lg', Inr sq) \<Longrightarrow> unat (next_seq lg) < MAX_EVENTS \<and> sq = next_seq lg"
  by (auto simp: log_append_def Let_def split: if_splits)

lemma log_append_events:
  assumes "log_ok lg" "log_append ts evt lg = Some (lg', Inr sq)"
  shows "log_ok lg'" "log_events lg' = log_events lg @ [evt\<lparr>sequence := next_seq lg, timestamp_ns := now_ns ts\<rparr>]"
proof -
  have "unat (next_seq lg) < MAX_EVENTS" using log_append_Inr_lt [OF assms(2)] by simp
  from log_append_ok [OF assms(1) this, of ts evt] assms(2)
  show "log_ok lg'" "log_events lg' = log_events lg @ [evt\<lparr>sequence := next_seq lg, timestamp_ns := now_ns ts\<rparr>]"
    by (metis option.inject prod.inject)+
qed

lemma read_log_events:
  assumes "log_ok lg"
  shows "read lg sq = Some (if unat sq < length (log_events lg) then Some (log_events lg ! unat sq) else None)"
  using log_ok_backed [OF assms, of "unat sq"]
  by (auto simp: read_def event_at_def length_log_events log_events_def word_le_nat_alt)

text \<open>A log that holds nothing, as the constructor creates it.\<close>

definition empty_log :: event_log where
  "empty_log = \<lparr>next_seq = 0,
     mapped = blank_file\<lparr>f_len := FILE_SIZE, header := \<lparr>magic = LOG_MAGIC, next_sequence = 0\<rparr>\<rparr>\<rparr>"

lemma empty_log_ok [simp]: "log_ok empty_log" "log_events empty_log = []" "next_seq empty_log = 0"
  by (simp_all add: empty_log_def log_ok_def file_ok_def log_events_def)

lemma open_or_create_new:
  "open_ok os \<Longrightarrow> ftruncate_ok os \<Longrightarrow> mmap_ok os \<Longrightarrow>
     open_or_create os None = Some (Some (close_log empty_log), Inr empty_log)"
  by (simp add: open_or_create_def Let_def FILE_SIZE_def empty_log_def close_log_def)

lemma reopen_closed:
  assumes "log_ok lg" "open_ok os" "mmap_ok os"
  shows "open_or_create os (Some (close_log lg)) = Some (Some (close_log lg), Inr lg)"
  using assms by (cases lg) (simp add: open_or_create_def close_log_def log_ok_def file_ok_def FILE_SIZE_def Let_def)

text \<open>C22. An append to a log with room returns the next sequence number, keeps the log well formed
  (so sequence numbers stay gapless), and adds exactly the event, numbered and time-stamped, at the
  end: every earlier event is unchanged, and \<open>read\<close> at the returned number gives the event back.\<close>

theorem append_adds_event:
  assumes "log_ok lg" "length (log_events lg) < MAX_EVENTS"
  shows "\<exists>lg'. log_append ts evt lg = Some (lg', Inr (next_seq lg)) \<and> log_ok lg' \<and>
    log_events lg' = log_events lg @ [evt\<lparr>sequence := next_seq lg, timestamp_ns := now_ns ts\<rparr>] \<and>
    read lg' (next_seq lg) = Some (Some (evt\<lparr>sequence := next_seq lg, timestamp_ns := now_ns ts\<rparr>)) \<and>
    log_size lg' = log_size lg + 1"
proof -
  have lt: "unat (next_seq lg) < MAX_EVENTS" using assms(2) by (simp add: length_log_events)
  obtain lg' where a: "log_append ts evt lg = Some (lg', Inr (next_seq lg))" "log_ok lg'"
    "log_events lg' = log_events lg @ [evt\<lparr>sequence := next_seq lg, timestamp_ns := now_ns ts\<rparr>]"
    by (rule log_append_ok [OF assms(1) lt])
  moreover have "read lg' (next_seq lg) = Some (Some (evt\<lparr>sequence := next_seq lg, timestamp_ns := now_ns ts\<rparr>))"
    using read_log_events [OF a(2)] a(3) by (simp add: length_log_events [of lg, symmetric])
  moreover have "log_size lg' = log_size lg + 1"
    using a(1) by (auto simp: log_append_def Let_def log_size_def split: if_splits)
  ultimately show ?thesis by blast
qed

theorem append_adds_event_witness:
  "\<exists>lg'. log_append \<lparr>tv_sec = 1, tv_nsec = 5\<rparr> (sample_new ''O1'' ''AAPL'' Buy 100 175) empty_log
      = Some (lg', Inr 0) \<and> log_ok lg' \<and>
    log_events lg' = [(sample_new ''O1'' ''AAPL'' Buy 100 175)\<lparr>sequence := 0, timestamp_ns := 1000000005\<rparr>]"
  using append_adds_event [of empty_log "\<lparr>tv_sec = 1, tv_nsec = 5\<rparr>" "sample_new ''O1'' ''AAPL'' Buy 100 175"]
  by (auto simp: MAX_EVENTS_def now_ns_def)

text \<open>\<open>read\<close> never touches memory outside the log: for a sequence number below the size it returns
  the event with that number, and \<open>nullptr\<close> from the size on.\<close>

lemma read_exact:
  assumes "log_ok lg"
  shows "if sq < log_size lg then \<exists>e. read lg sq = Some (Some e) \<and> sequence e = sq \<and> e = log_events lg ! unat sq
    else read lg sq = Some None"
proof (cases "sq < log_size lg")
  case True
  then have lt: "unat sq < unat (next_seq lg)" by (simp add: log_size_def word_less_nat_alt)
  have "sequence (log_events lg ! unat sq) = sq"
    using assms lt by (simp add: log_events_def log_ok_def file_ok_def)
  with True lt show ?thesis by (simp add: read_log_events [OF assms] length_log_events)
next
  case False
  then show ?thesis
    by (simp add: read_log_events [OF assms] length_log_events log_size_def word_less_nat_alt)
qed

text \<open>On a full log \<open>append\<close> throws \<open>overflow_error\<close> and leaves the log as it was; it never throws
  before.\<close>

lemma append_full_throws:
  assumes "log_ok lg"
  shows "log_append ts evt lg = Some (lg, Inl (OverflowError ''EventLog full'')) \<longleftrightarrow> length (log_events lg) = MAX_EVENTS"
proof -
  have "length (log_events lg) \<le> MAX_EVENTS"
    using assms by (simp add: length_log_events log_ok_def file_ok_def)
  then show ?thesis
    using log_append_ok [OF assms, of ts evt] by (auto simp: log_append_def Let_def length_log_events)
qed

text \<open>Closing a well-formed log and opening its file again gives the same log, with the same size
  and the same events; a first opening gives the empty log. Both need only that the system calls
  succeed.\<close>

lemma reopen_round_trip:
  assumes "open_ok os" "ftruncate_ok os" "mmap_ok os"
  shows "(\<forall>lg. log_ok lg \<longrightarrow> open_or_create os (Some (close_log lg)) = Some (Some (close_log lg), Inr lg)) \<and>
    (\<exists>lg. open_or_create os None = Some (Some (close_log lg), Inr lg) \<and> log_ok lg \<and> log_empty lg)"
  using assms reopen_closed [of _ os] open_or_create_new [of os]
  by (auto simp: log_empty_def log_size_def intro!: exI [of _ empty_log])

text \<open>When \<open>ftruncate\<close> fails while the log is being created, the constructor throws but leaves an
  empty file behind. Every later start finds that the file exists, skips \<open>ftruncate\<close>, maps the empty
  file and touches a page beyond its end: the behaviour is undefined (\<open>SIGBUS\<close>) until someone removes
  the file.\<close>

lemma failed_creation_poisons_path:
  assumes "open_ok os" "\<not> ftruncate_ok os" "open_ok os'" "mmap_ok os'"
  shows "\<exists>f. open_or_create os None = Some (Some f, Inl (RuntimeError ''EventLog: ftruncate failed'')) \<and>
    open_or_create os' (Some f) = None"
  using assms by (auto simp: open_or_create_def Let_def blank_file_def)

text \<open>The constructor accepts any file with the magic number: a \<open>next_sequence\<close> beyond the capacity
  is taken over unchecked, and a \<open>replay\<close> of that log that gets as far as the capacity leaves the
  mapping.\<close>

lemma corrupt_next_sequence_accepted:
  assumes "open_ok os" "mmap_ok os" "f_len f = FILE_SIZE" "magic (header f) = LOG_MAGIC"
    and "MAX_EVENTS < unat (next_sequence (header f))"
  shows "\<exists>lg. open_or_create os (Some f) = Some (Some f, Inr lg) \<and> MAX_EVENTS < unat (log_size lg) \<and>
    (\<forall>fn (s :: 's). replay lg fn s = None)"
proof -
  let ?lg = "\<lparr>next_seq = next_sequence (header f), mapped = f\<rparr>"
  have step: "replay_loop fn f i head s = None" if "MAX_EVENTS < head" "i \<le> MAX_EVENTS"
    for fn :: "order_event \<Rightarrow> 's \<Rightarrow> 's option" and i head s
    using that
  proof (induction fn f i head s rule: replay_loop.induct)
    case (1 fn f i head s)
    show ?case
    proof (cases "i = MAX_EVENTS")
      case True
      with "1.prems" show ?thesis by (subst replay_loop.simps) (simp add: event_at_def slot_backed_def)
    next
      case False
      with "1.IH" "1.prems" show ?thesis
        by (subst replay_loop.simps) (auto split: Option.bind_split)
    qed
  qed
  have "open_or_create os (Some f) = Some (Some f, Inr ?lg)"
    using assms by (simp add: open_or_create_def Let_def FILE_SIZE_def)
  then show ?thesis using assms(5) step by (auto simp: log_size_def replay_def)
qed

end
