(* ===== verification/OrderManager.thy ===== *)
theory OrderManager
  imports Slot_Table EventLog
begin

text \<open>
  \<open>include/OrderManager.h\<close>: the projection of the event stream to per-order state, in a flat array
  of 512 slots keyed by the 8-byte order id. A pointer into the array is the index of its slot.

  \<open>om_map\<close> reads the array as a finite map from order ids to orders and \<open>om_spec\<close> says what each
  event does to that map; \<open>apply_event\<close> refines it, undefined behaviour included.
\<close>

section \<open>Orders\<close>

datatype order_state =
  Pending | PartiallyFilled | Filled | Cancelled | Rejected | OrderState_other "8 word"

fun order_state_to_string :: "order_state \<Rightarrow> string" where
  "order_state_to_string Pending = ''Pending''"
| "order_state_to_string PartiallyFilled = ''PartiallyFilled''"
| "order_state_to_string Filled = ''Filled''"
| "order_state_to_string Cancelled = ''Cancelled''"
| "order_state_to_string Rejected = ''Rejected''"
| "order_state_to_string (OrderState_other _) = ''Unknown''"

record order =
  o_order_id :: "char list"
  o_symbol :: "char list"
  limit_price :: int
  avg_fill_price :: int
  opened_seq :: "64 word"
  last_seq :: "64 word"
  original_qty :: int
  filled_qty :: int
  o_state :: order_state
  o_side :: side
  o_pad :: "8 word list"

definition o_order_id_view :: "order \<Rightarrow> string_view" where
  "o_order_id_view od = \<lparr>sv_data = o_order_id od, sv_size = strnlen (o_order_id od) 8\<rparr>"

definition o_symbol_view :: "order \<Rightarrow> string_view" where
  "o_symbol_view od = \<lparr>sv_data = o_symbol od, sv_size = strnlen (o_symbol od) 8\<rparr>"

definition remaining_qty :: "order \<Rightarrow> int option" where
  "remaining_qty od = i32 (original_qty od - filled_qty od)"

definition is_open :: "order \<Rightarrow> bool" where
  "is_open od \<longleftrightarrow> o_state od = Pending \<or> o_state od = PartiallyFilled"

definition is_terminal :: "order \<Rightarrow> bool" where
  "is_terminal od \<longleftrightarrow> \<not> is_open od"

definition limit_price_d :: "order \<Rightarrow> double" where
  "limit_price_d od = d_div (d_of_int (limit_price od)) (of_int PRICE_SCALE)"

definition avg_fill_price_d :: "order \<Rightarrow> double" where
  "avg_fill_price_d od = d_div (d_of_int (avg_fill_price od)) (of_int PRICE_SCALE)"

definition zero_order :: order where
  "zero_order = \<lparr>o_order_id = replicate 8 NUL, o_symbol = replicate 8 NUL, limit_price = 0,
     avg_fill_price = 0, opened_seq = 0, last_seq = 0, original_qty = 0, filled_qty = 0,
     o_state = OrderState_other 0, o_side = Side_other 0, o_pad = replicate 6 0\<rparr>"

section \<open>The manager\<close>

definition MAX_ORDERS :: nat where
  "MAX_ORDERS = 512"

declare MAX_ORDERS_def [hft_consts]

record order_manager =
  om_slots :: "order list"
  om_count :: nat

definition new_order_manager :: order_manager where
  "new_order_manager = \<lparr>om_slots = replicate MAX_ORDERS zero_order, om_count = 0\<rparr>"

function om_find_loop :: "order list \<Rightarrow> char list \<Rightarrow> nat \<Rightarrow> nat \<Rightarrow> nat option option" where
  "om_find_loop sl oid i n =
     (if i < n then do {
        od \<leftarrow> at_index sl i;
        c \<leftarrow> strncmp (o_order_id od) oid 8;
        if c = 0 then Some (Some i) else om_find_loop sl oid (Suc i) n }
      else Some None)"
  by pat_completeness auto
termination
  by (relation "measure (\<lambda>(sl, oid, i, n). n - i)") auto

declare om_find_loop.simps [simp del]

definition om_find :: "order_manager \<Rightarrow> string_view \<Rightarrow> nat option option" where
  "om_find om oid = om_find_loop (om_slots om) (sv_data oid) 0 (om_count om)"

function om_get_loop :: "order list \<Rightarrow> char list \<Rightarrow> nat \<Rightarrow> nat \<Rightarrow> nat option option" where
  "om_get_loop sl oid i n =
     (if i < n then do {
        od \<leftarrow> at_index sl i;
        c \<leftarrow> strncmp (o_order_id od) oid 8;
        if c = 0 then Some (Some i) else om_get_loop sl oid (Suc i) n }
      else Some None)"
  by pat_completeness auto
termination
  by (relation "measure (\<lambda>(sl, oid, i, n). n - i)") auto

declare om_get_loop.simps [simp del]

text \<open>\<open>get\<close> returns the order its pointer designates.\<close>

definition om_get :: "order_manager \<Rightarrow> string_view \<Rightarrow> order option option" where
  "om_get om oid =
     map_option (map_option ((!) (om_slots om))) (om_get_loop (om_slots om) (sv_data oid) 0 (om_count om))"

definition om_get_or_create :: "order_manager \<Rightarrow> string_view \<Rightarrow> (order_manager \<times> nat option) option" where
  "om_get_or_create om oid = do {
     p \<leftarrow> om_find om oid;
     case p of
       Some i \<Rightarrow> Some (om, Some i)
     | None \<Rightarrow>
         if MAX_ORDERS \<le> om_count om then Some (om, None)
         else do {
           _ \<leftarrow> at_index (om_slots om) (om_count om);
           bs \<leftarrow> strncpy (sv_data oid) 8;
           Some (\<lparr>om_slots = (om_slots om)[om_count om := zero_order\<lparr>o_order_id := bs\<rparr>],
                  om_count = Suc (om_count om)\<rparr>, Some (om_count om)) } }"

definition open_order :: "order_event \<Rightarrow> order \<Rightarrow> order option" where
  "open_order e od = do {
     s \<leftarrow> strncpy (symbol e) 8;
     Some (od\<lparr>o_symbol := s, o_state := Pending, o_side := side e, limit_price := price e,
       original_qty := qty e, filled_qty := 0, avg_fill_price := 0,
       opened_seq := sequence e, last_seq := sequence e\<rparr>) }"

definition handle_new :: "order_event \<Rightarrow> order_manager \<Rightarrow> order_manager option" where
  "handle_new e om = do {
     (om1, p) \<leftarrow> om_get_or_create om (order_id_view e);
     case p of
       None \<Rightarrow> Some om1
     | Some i \<Rightarrow> do {
         od \<leftarrow> at_index (om_slots om1) i;
         od' \<leftarrow> open_order e od;
         Some (om1\<lparr>om_slots := (om_slots om1)[i := od']\<rparr>) } }"

text \<open>The common frame of the other handlers: find the order, return if there is none, run the
  body on it.\<close>

definition om_with_order ::
  "order_manager \<Rightarrow> string_view \<Rightarrow> (order \<Rightarrow> order option) \<Rightarrow> order_manager option" where
  "om_with_order om oid body = do {
     p \<leftarrow> om_find om oid;
     case p of
       None \<Rightarrow> Some om
     | Some i \<Rightarrow> do {
         od \<leftarrow> at_index (om_slots om) i;
         od' \<leftarrow> body od;
         Some (om\<lparr>om_slots := (om_slots om)[i := od']\<rparr>) } }"

definition fill_order :: "order_event \<Rightarrow> order \<Rightarrow> order option" where
  "fill_order e od = do {
     prev_cost \<leftarrow> i64 (avg_fill_price od * filled_qty od);
     fill_cost \<leftarrow> i64 (fill_price e * fill_qty e);
     new_filled \<leftarrow> i32 (filled_qty od + fill_qty e);
     avg \<leftarrow> (if new_filled > 0 then do {
              total \<leftarrow> i64 (prev_cost + fill_cost);
              i64 (total sdiv new_filled) }
            else Some 0);
     let od1 = od\<lparr>avg_fill_price := avg, filled_qty := new_filled, last_seq := sequence e\<rparr>;
     rem \<leftarrow> remaining_qty od1;
     Some (od1\<lparr>o_state := (if rem \<le> 0 then Filled else PartiallyFilled)\<rparr>) }"

definition handle_fill :: "order_event \<Rightarrow> order_manager \<Rightarrow> order_manager option" where
  "handle_fill e om = om_with_order om (order_id_view e) (fill_order e)"

definition handle_cancel :: "order_event \<Rightarrow> order_manager \<Rightarrow> order_manager option" where
  "handle_cancel e om = om_with_order om (order_id_view e)
     (\<lambda>od. Some (od\<lparr>o_state := Cancelled, last_seq := sequence e\<rparr>))"

definition handle_reject :: "order_event \<Rightarrow> order_manager \<Rightarrow> order_manager option" where
  "handle_reject e om = om_with_order om (order_id_view e)
     (\<lambda>od. Some (od\<lparr>o_state := Rejected, last_seq := sequence e\<rparr>))"

definition amend_order :: "order_event \<Rightarrow> order \<Rightarrow> order" where
  "amend_order e od =
     (let od1 = (if qty e > 0 then od\<lparr>original_qty := qty e\<rparr> else od);
          od2 = (if price e > 0 then od1\<lparr>limit_price := price e\<rparr> else od1)
      in od2\<lparr>last_seq := sequence e\<rparr>)"

definition handle_amend :: "order_event \<Rightarrow> order_manager \<Rightarrow> order_manager option" where
  "handle_amend e om = om_with_order om (order_id_view e) (\<lambda>od. Some (amend_order e od))"

definition om_apply_event :: "order_event \<Rightarrow> order_manager \<Rightarrow> order_manager option" where
  "om_apply_event e om =
     (case etype e of
        NewOrder \<Rightarrow> handle_new e om
      | PartialFill \<Rightarrow> handle_fill e om
      | FullFill \<Rightarrow> handle_fill e om
      | Cancel \<Rightarrow> handle_cancel e om
      | Reject \<Rightarrow> handle_reject e om
      | Amend \<Rightarrow> handle_amend e om
      | EventType_other _ \<Rightarrow> Some om)"

definition om_replay_from :: "event_log \<Rightarrow> order_manager \<Rightarrow> order_manager option" where
  "om_replay_from lg om =
     replay lg om_apply_event
       (om\<lparr>om_slots := replicate MAX_ORDERS zero_order, om_count := 0\<rparr>)"

definition om_for_each :: "(order \<Rightarrow> 's \<Rightarrow> 's option) \<Rightarrow> order_manager \<Rightarrow> 's \<Rightarrow> 's option" where
  "om_for_each fn om s =
     foldm (\<lambda>i s. do { od \<leftarrow> at_index (om_slots om) i; fn od s }) [0..<om_count om] s"

definition om_for_each_open :: "(order \<Rightarrow> 's \<Rightarrow> 's option) \<Rightarrow> order_manager \<Rightarrow> 's \<Rightarrow> 's option" where
  "om_for_each_open fn om s =
     foldm (\<lambda>i s. do { od \<leftarrow> at_index (om_slots om) i; if is_open od then fn od s else Some s })
       [0..<om_count om] s"

definition open_exposure :: "order_manager \<Rightarrow> string_view \<Rightarrow> int option" where
  "open_exposure om symb =
     foldm (\<lambda>i ex. do {
         od \<leftarrow> at_index (om_slots om) i;
         if \<not> is_open od then Some ex
         else do {
           c \<leftarrow> strncmp (o_symbol od) (sv_data symb) 8;
           if c \<noteq> 0 then Some ex
           else do {
             rem \<leftarrow> remaining_qty od;
             d \<leftarrow> (if o_side od = Buy then Some rem else i32 (- rem));
             i32 (ex + d) } } })
       [0..<om_count om] 0"

definition order_count :: "order_manager \<Rightarrow> nat" where
  "order_count om = om_count om"

definition open_order_count :: "order_manager \<Rightarrow> nat option" where
  "open_order_count om =
     foldm (\<lambda>i n. do { od \<leftarrow> at_index (om_slots om) i; Some (if is_open od then Suc n else n) })
       [0..<om_count om] 0"

section \<open>The abstract view\<close>

definition om_map :: "order_manager \<Rightarrow> string \<Rightarrow> order option" where
  "om_map om = table_map o_order_id (om_slots om) (om_count om)"

text \<open>An order in use: its fields are in the range of their C types, its id is in the form
  \<open>strncpy\<close> leaves it in and the padding is still zero.\<close>

definition order_ok :: "order \<Rightarrow> bool" where
  "order_ok od \<longleftrightarrow> o_order_id od = pad_name 8 (cstr 8 (o_order_id od)) \<and> length (o_symbol od) = 8 \<and>
     int64 (limit_price od) \<and> int64 (avg_fill_price od) \<and> int32 (original_qty od) \<and>
     int32 (filled_qty od) \<and> o_pad od = replicate 6 0"

definition om_ok :: "order_manager \<Rightarrow> bool" where
  "om_ok om \<longleftrightarrow> table_ok o_order_id MAX_ORDERS (om_slots om) (om_count om) \<and>
     (\<forall>od \<in> ran (om_map om). order_ok od)"

text \<open>What an event does to the map of orders. \<open>None\<close> is undefined behaviour: an overflow in the
  average price or in the filled quantity.\<close>

definition opened_order :: "order_event \<Rightarrow> order" where
  "opened_order e = \<lparr>o_order_id = pad_name 8 (event_oid e), o_symbol = pad_name 8 (event_symbol e),
     limit_price = price e, avg_fill_price = 0, opened_seq = sequence e, last_seq = sequence e,
     original_qty = qty e, filled_qty = 0, o_state = Pending, o_side = side e,
     o_pad = replicate 6 0\<rparr>"

definition update_existing ::
  "(string \<Rightarrow> order option) \<Rightarrow> string \<Rightarrow> (order \<Rightarrow> order option) \<Rightarrow> (string \<Rightarrow> order option) option" where
  "update_existing m k body =
     (case m k of None \<Rightarrow> Some m | Some od \<Rightarrow> map_option (\<lambda>od'. m(k \<mapsto> od')) (body od))"

definition om_spec :: "order_event \<Rightarrow> (string \<Rightarrow> order option) \<Rightarrow> (string \<Rightarrow> order option) option" where
  "om_spec e m =
     (case etype e of
        NewOrder \<Rightarrow> Some (if m (event_oid e) \<noteq> None \<or> card (dom m) < MAX_ORDERS
                         then m(event_oid e \<mapsto> opened_order e) else m)
      | PartialFill \<Rightarrow> update_existing m (event_oid e) (fill_order e)
      | FullFill \<Rightarrow> update_existing m (event_oid e) (fill_order e)
      | Cancel \<Rightarrow> update_existing m (event_oid e)
          (\<lambda>od. Some (od\<lparr>o_state := Cancelled, last_seq := sequence e\<rparr>))
      | Reject \<Rightarrow> update_existing m (event_oid e)
          (\<lambda>od. Some (od\<lparr>o_state := Rejected, last_seq := sequence e\<rparr>))
      | Amend \<Rightarrow> update_existing m (event_oid e) (\<lambda>od. Some (amend_order e od))
      | EventType_other _ \<Rightarrow> Some m)"

section \<open>The search loops and the array\<close>

definition om_obtain :: "order list \<Rightarrow> nat \<Rightarrow> char list \<Rightarrow> (order list \<times> nat \<times> nat option) option" where
  "om_obtain sl n k = map_option (\<lambda>(om, p). (om_slots om, om_count om, p))
     (om_get_or_create \<lparr>om_slots = sl, om_count = n\<rparr> \<lparr>sv_data = k, sv_size = 0\<rparr>)"

interpretation omg: scan_loop o_order_id om_get_loop
  by unfold_locales (rule om_get_loop.simps)

interpretation omt: slot_table o_order_id om_find_loop
  "\<lambda>bs. zero_order\<lparr>o_order_id := bs\<rparr>" MAX_ORDERS om_obtain
proof unfold_locales
  fix sl k i n
  show "om_find_loop sl k i n =
    (if i < n then do {
       s \<leftarrow> at_index sl i;
       c \<leftarrow> strncmp (o_order_id s) k 8;
       if c = 0 then Some (Some i) else om_find_loop sl k (Suc i) n }
     else Some None)"
    by (rule om_find_loop.simps)
next
  fix bs
  show "o_order_id (zero_order\<lparr>o_order_id := bs\<rparr>) = bs" by simp
next
  fix sl n k
  show "om_obtain sl n k =
      do {
        r \<leftarrow> om_find_loop sl k 0 n;
        case r of
          Some i \<Rightarrow> Some (sl, n, Some i)
        | None \<Rightarrow>
            if MAX_ORDERS \<le> n then Some (sl, n, None)
            else do {
              _ \<leftarrow> at_index sl n;
              bs \<leftarrow> strncpy k 8;
              Some (sl[n := zero_order\<lparr>o_order_id := bs\<rparr>], Suc n, Some n) } }"
    by (auto simp: om_obtain_def om_get_or_create_def om_find_def Option.bind_eq_Some_conv
        split: option.splits Option.bind_splits)
qed

lemma om_get_or_create_obtain:
  "om_get_or_create om oid =
     map_option (\<lambda>(sl, n, p). (\<lparr>om_slots = sl, om_count = n\<rparr>, p))
       (om_obtain (om_slots om) (om_count om) (sv_data oid))"
  by (cases om) (auto simp: om_obtain_def om_get_or_create_def om_find_def
      split: option.splits Option.bind_splits)

lemma om_okD:
  assumes "om_ok om"
  shows "table_ok o_order_id MAX_ORDERS (om_slots om) (om_count om)"
    "\<And>k od. om_map om k = Some od \<Longrightarrow> order_ok od"
    "om_count om \<le> MAX_ORDERS" "length (om_slots om) = MAX_ORDERS"
    "card (dom (om_map om)) = om_count om"
    "\<And>k od. om_map om k = Some od \<Longrightarrow> cstr 8 (o_order_id od) = k"
proof -
  from assms have ok: "table_ok o_order_id MAX_ORDERS (om_slots om) (om_count om)"
    by (simp add: om_ok_def)
  then show "table_ok o_order_id MAX_ORDERS (om_slots om) (om_count om)" .
  show "\<And>k od. om_map om k = Some od \<Longrightarrow> order_ok od"
    using assms by (auto simp: om_ok_def intro: ranI)
  show "om_count om \<le> MAX_ORDERS" "length (om_slots om) = MAX_ORDERS"
    using table_okD [OF ok] by simp_all
  show "card (dom (om_map om)) = om_count om"
    unfolding om_map_def by (rule card_table_map [OF ok])
  show "\<And>k od. om_map om k = Some od \<Longrightarrow> cstr 8 (o_order_id od) = k"
    using table_okD(1,2) [OF ok] by (metis om_map_def table_map_SomeE)
qed

lemma om_ok_new [simp]: "om_ok new_order_manager" "om_map new_order_manager = Map.empty"
  by (simp_all add: om_ok_def new_order_manager_def om_map_def table_ok_empty)

lemma om_with_order_spec:
  assumes ok: "om_ok om" and k: "readable 8 (sv_data oid)"
    and keep: "\<forall>od od'. body od = Some od' \<longrightarrow> o_order_id od' = o_order_id od"
    and good: "\<forall>od od'. order_ok od \<longrightarrow> body od = Some od' \<longrightarrow> order_ok od'"
  shows "map_option om_map (om_with_order om oid body) =
      update_existing (om_map om) (cstr 8 (sv_data oid)) body"
    and "om_with_order om oid body = Some om' \<Longrightarrow> om_ok om'"
proof -
  define r where "r = do { p \<leftarrow> om_find_loop (om_slots om) (sv_data oid) 0 (om_count om);
    case p of None \<Rightarrow> Some (om_slots om)
    | Some i \<Rightarrow> do { s \<leftarrow> at_index (om_slots om) i; s' \<leftarrow> body s; Some ((om_slots om)[i := s']) } }"
  have eq: "om_with_order om oid body = map_option (\<lambda>sl. om\<lparr>om_slots := sl\<rparr>) r"
    by (auto simp: om_with_order_def om_find_def r_def split: option.splits Option.bind_splits)
  note mod = omt.scan_modify [OF om_okD(1) [OF ok] k keep r_def]
  show map: "map_option om_map (om_with_order om oid body) =
      update_existing (om_map om) (cstr 8 (sv_data oid)) body"
    using mod(1) by (simp add: eq option.map_comp o_def om_map_def update_existing_def)
  assume some: "om_with_order om oid body = Some om'"
  then obtain sl where sl: "r = Some sl" "om' = om\<lparr>om_slots := sl\<rparr>" by (auto simp: eq)
  have "om_map om' = om_map om \<or> (\<exists>od od'. om_map om (cstr 8 (sv_data oid)) = Some od \<and>
      body od = Some od' \<and> om_map om' = (om_map om)(cstr 8 (sv_data oid) \<mapsto> od'))"
    using map some by (auto simp: update_existing_def map_option_case split: option.splits)
  then have "\<forall>od \<in> ran (om_map om'). order_ok od"
  proof (elim disjE exE conjE)
    fix od od'
    assume "om_map om (cstr 8 (sv_data oid)) = Some od" "body od = Some od'"
      and m: "om_map om' = (om_map om)(cstr 8 (sv_data oid) \<mapsto> od')"
    with good om_okD(2) [OF ok] have "order_ok od'" by blast
    with ok show ?thesis unfolding m om_ok_def by (intro ball_ran_upd) blast+
  qed (use ok in \<open>simp add: om_ok_def\<close>)
  then show "om_ok om'" using mod(2) [OF sl(1)] sl(2) by (simp add: om_ok_def)
qed

lemma opened_order_ok: "event_ok e \<Longrightarrow> order_ok (opened_order e)"
  by (simp add: order_ok_def opened_order_def event_ok_def event_oid_def event_symbol_def cstr_pad_name length_cstr)

text \<open>What \<open>handle_new\<close> writes, whether the slot is new or taken over from an order of the same id.\<close>

lemma open_order_slot:
  assumes ok: "om_ok om" and e: "event_ok e"
  shows "open_order e (omt.slot_for (om_slots om) (om_count om) (order_id e)) = Some (opened_order e)"
proof (cases "om_map om (cstr 8 (order_id e))")
  case None
  then have "omt.slot_for (om_slots om) (om_count om) (order_id e) =
      zero_order\<lparr>o_order_id := pad_name 8 (cstr 8 (order_id e))\<rparr>"
    by (simp add: omt.slot_for_def om_map_def)
  then show ?thesis
    by (simp add: open_order_def strncpy_eq [OF event_okD(5) [OF e]] opened_order_def zero_order_def
        event_oid_def event_symbol_def)
next
  case (Some od)
  then have "order_ok od" "cstr 8 (o_order_id od) = cstr 8 (order_id e)"
    using om_okD(2,6) [OF ok] by auto
  with Some show ?thesis
    by (simp add: omt.slot_for_def om_map_def open_order_def strncpy_eq [OF event_okD(5) [OF e]]
        opened_order_def event_oid_def event_symbol_def order_ok_def)
qed

lemma handle_new_spec:
  assumes ok: "om_ok om" and e: "event_ok e"
  shows "map_option om_map (handle_new e om) =
      Some (if om_map om (event_oid e) \<noteq> None \<or> card (dom (om_map om)) < MAX_ORDERS
            then (om_map om)(event_oid e \<mapsto> opened_order e) else om_map om)"
    and "handle_new e om = Some om' \<Longrightarrow> om_ok om'"
proof -
  let ?k = "order_id e"
  define r where "r = do { (sl1, n1, p) \<leftarrow> om_obtain (om_slots om) (om_count om) ?k;
      case p of None \<Rightarrow> Some (sl1, n1)
      | Some i \<Rightarrow> do { s \<leftarrow> at_index sl1 i; s' \<leftarrow> open_order e s; Some (sl1[i := s'], n1) } }"
  have eq: "handle_new e om = map_option (\<lambda>(sl, n). \<lparr>om_slots = sl, om_count = n\<rparr>) r"
    by (auto simp: handle_new_def om_get_or_create_obtain r_def split: option.splits Option.bind_splits)
  have keep: "\<forall>s s'. open_order e s = Some s' \<longrightarrow> o_order_id s' = o_order_id s"
    by (auto simp: open_order_def Option.bind_eq_Some_conv)
  note mod = omt.obtain_modify [OF om_okD(1) [OF ok] event_okD(6) [OF e] keep r_def]
  note body = open_order_slot [OF ok e]
  show map: "map_option om_map (handle_new e om) =
      Some (if om_map om (event_oid e) \<noteq> None \<or> card (dom (om_map om)) < MAX_ORDERS
            then (om_map om)(event_oid e \<mapsto> opened_order e) else om_map om)"
  proof -
    have "map_option om_map (handle_new e om) =
        map_option (\<lambda>(sl, n). table_map o_order_id sl n) r"
      by (cases r) (auto simp: eq om_map_def)
    also have "\<dots> = Some (if om_map om (event_oid e) \<noteq> None \<or> card (dom (om_map om)) < MAX_ORDERS
            then (om_map om)(event_oid e \<mapsto> opened_order e) else om_map om)"
      unfolding mod(1) body using om_okD(5) [OF ok] by (simp add: om_map_def event_oid_def)
    finally show ?thesis .
  qed
  assume some: "handle_new e om = Some om'"
  then obtain sl n where sl: "r = Some (sl, n)" "om' = \<lparr>om_slots = sl, om_count = n\<rparr>"
    by (auto simp: eq)
  have "\<forall>od \<in> ran ((om_map om)(event_oid e \<mapsto> opened_order e)). order_ok od"
    using ok opened_order_ok [OF e] unfolding om_ok_def by (intro ball_ran_upd) blast+
  then have "\<forall>od \<in> ran (om_map om'). order_ok od"
    using map some ok by (simp add: om_ok_def split: if_splits)
  then show "om_ok om'" using mod(2) [OF sl(1)] sl(2) by (simp add: om_ok_def)
qed

section \<open>Refinement of the map specification\<close>

lemma fill_order_fields:
  assumes "fill_order e od = Some od'"
  shows "o_order_id od' = o_order_id od" "o_symbol od' = o_symbol od" "o_side od' = o_side od"
    "original_qty od' = original_qty od" "limit_price od' = limit_price od" "o_pad od' = o_pad od"
    "opened_seq od' = opened_seq od" "last_seq od' = sequence e"
    "filled_qty od' = filled_qty od + fill_qty e" "int32 (filled_qty od')"
    "int32 (original_qty od - filled_qty od')" "int64 (avg_fill_price od')"
    "avg_fill_price od' = (if filled_qty od' > 0 then
       (avg_fill_price od * filled_qty od + fill_price e * fill_qty e) sdiv filled_qty od' else 0)"
    "o_state od' = (if original_qty od \<le> filled_qty od' then Filled else PartiallyFilled)"
  using assms
  by (auto simp: fill_order_def remaining_qty_def Option.bind_eq_Some_conv Let_def split: if_splits)

lemma fill_order_ok: "order_ok od \<Longrightarrow> fill_order e od = Some od' \<Longrightarrow> order_ok od'"
  using fill_order_fields(1,2,4,5,6,10,12) [of e od od'] unfolding order_ok_def by metis

lemma amend_order_fields [simp]:
  "o_order_id (amend_order e od) = o_order_id od" "o_symbol (amend_order e od) = o_symbol od"
  "o_side (amend_order e od) = o_side od" "o_state (amend_order e od) = o_state od"
  "filled_qty (amend_order e od) = filled_qty od"
  "avg_fill_price (amend_order e od) = avg_fill_price od"
  "original_qty (amend_order e od) = (if qty e > 0 then qty e else original_qty od)"
  "limit_price (amend_order e od) = (if price e > 0 then price e else limit_price od)"
  "o_pad (amend_order e od) = o_pad od" "last_seq (amend_order e od) = sequence e"
  "opened_seq (amend_order e od) = opened_seq od"
  by (simp_all add: amend_order_def Let_def)

lemma handler_specs:
  assumes ok: "om_ok om" and e: "event_ok e"
  shows "map_option om_map (handle_fill e om) = update_existing (om_map om) (event_oid e) (fill_order e)"
    and "map_option om_map (handle_cancel e om) = update_existing (om_map om) (event_oid e)
          (\<lambda>od. Some (od\<lparr>o_state := Cancelled, last_seq := sequence e\<rparr>))"
    and "map_option om_map (handle_reject e om) = update_existing (om_map om) (event_oid e)
          (\<lambda>od. Some (od\<lparr>o_state := Rejected, last_seq := sequence e\<rparr>))"
    and "map_option om_map (handle_amend e om) = update_existing (om_map om) (event_oid e)
          (\<lambda>od. Some (amend_order e od))"
    and "handle_fill e om = Some om' \<Longrightarrow> om_ok om'" "handle_cancel e om = Some om' \<Longrightarrow> om_ok om'"
    "handle_reject e om = Some om' \<Longrightarrow> om_ok om'" "handle_amend e om = Some om' \<Longrightarrow> om_ok om'"
proof -
  have k: "readable 8 (sv_data (order_id_view e))" using event_okD(6) [OF e] by simp
  have fill: "\<forall>od od'. fill_order e od = Some od' \<longrightarrow> o_order_id od' = o_order_id od"
    by (simp add: fill_order_fields)
  have fill_ok: "\<forall>od od'. order_ok od \<longrightarrow> fill_order e od = Some od' \<longrightarrow> order_ok od'"
    using fill_order_ok by blast
  have amend: "\<forall>od od'. order_ok od \<longrightarrow> Some (amend_order e od) = Some od' \<longrightarrow> order_ok od'"
    using e by (auto simp: order_ok_def event_ok_def)
  have state: "\<forall>od od'. order_ok od \<longrightarrow> Some (od\<lparr>o_state := x, last_seq := y\<rparr>) = Some od' \<longrightarrow> order_ok od'"
    for x y by (auto simp: order_ok_def)
  note w = om_with_order_spec [OF ok k]
  show "map_option om_map (handle_fill e om) = update_existing (om_map om) (event_oid e) (fill_order e)"
    "handle_fill e om = Some om' \<Longrightarrow> om_ok om'"
    using w [OF fill fill_ok] by (simp_all add: handle_fill_def event_oid_def)
  show "map_option om_map (handle_cancel e om) = update_existing (om_map om) (event_oid e)
          (\<lambda>od. Some (od\<lparr>o_state := Cancelled, last_seq := sequence e\<rparr>))"
    "handle_cancel e om = Some om' \<Longrightarrow> om_ok om'"
    using w [OF _ state [of "sequence e" Cancelled]] by (simp_all add: handle_cancel_def event_oid_def)
  show "map_option om_map (handle_reject e om) = update_existing (om_map om) (event_oid e)
          (\<lambda>od. Some (od\<lparr>o_state := Rejected, last_seq := sequence e\<rparr>))"
    "handle_reject e om = Some om' \<Longrightarrow> om_ok om'"
    using w [OF _ state [of "sequence e" Rejected]] by (simp_all add: handle_reject_def event_oid_def)
  show "map_option om_map (handle_amend e om) = update_existing (om_map om) (event_oid e)
          (\<lambda>od. Some (amend_order e od))"
    "handle_amend e om = Some om' \<Longrightarrow> om_ok om'"
    using w [OF _ amend] by (simp_all add: handle_amend_def event_oid_def)
qed

lemma om_apply_event_map:
  assumes "om_ok om" "event_ok e"
  shows "map_option om_map (om_apply_event e om) = om_spec e (om_map om)"
  using handler_specs(1-4) [OF assms] handle_new_spec(1) [OF assms]
  by (cases "etype e") (simp_all only: om_apply_event_def om_spec_def event_type.case option.map)

lemma om_apply_event_ok:
  assumes "om_ok om" "event_ok e" "om_apply_event e om = Some om'"
  shows "om_ok om'"
  using assms(3) handler_specs(5-8) [OF assms(1,2), of om'] handle_new_spec(2) [OF assms(1,2), of om'] assms(1)
  by (cases "etype e") (simp_all add: om_apply_event_def)

lemma om_apply_event_Some:
  assumes "om_ok om" "event_ok e" "om_apply_event e om = Some om'"
  shows "om_spec e (om_map om) = Some (om_map om')"
  using om_apply_event_map [OF assms(1,2)] assms(3) by simp

lemma om_get_map:
  "om_ok om \<Longrightarrow> readable 8 (sv_data oid) \<Longrightarrow> om_get om oid = Some (om_map om (cstr 8 (sv_data oid)))"
  unfolding om_get_def om_map_def by (rule omg.scan_lookup [OF om_okD(1)])

lemma om_run_ok:
  assumes "foldm om_apply_event es om = Some om'" "om_ok om" "\<forall>e \<in> set es. event_ok e"
  shows "om_ok om'"
  using assms(1,2) by (rule foldm_invariant) (use assms(3) om_apply_event_ok in blast)

lemma om_replay_foldm:
  "log_ok lg \<Longrightarrow> om_replay_from lg om = foldm om_apply_event (log_events lg) new_order_manager"
  by (cases om) (simp add: om_replay_from_def replay_def new_order_manager_def log_events_def
      replay_loop_foldm log_ok_backed)

end
