(* ===== verification/Order_Lifecycle.thy ===== *)
theory Order_Lifecycle
  imports OrderManager
begin

text \<open>
  What the order projection means: the documented state diagram of \<open>OrderState\<close> and when the
  handlers follow it, the quantity and average price of a run of fills, and the net open exposure
  as a sum over the map of orders.
\<close>

section \<open>The documented state diagram\<close>

text \<open>The diagram of the comment above \<open>OrderState\<close> (\<open>OrderManager.h\<close>).\<close>

inductive lifecycle :: "order_state \<Rightarrow> order_state \<Rightarrow> bool" where
  to_partial: "lifecycle Pending PartiallyFilled"
| to_filled: "lifecycle PartiallyFilled Filled"
| partial_cancelled: "lifecycle PartiallyFilled Cancelled"
| pending_cancelled: "lifecycle Pending Cancelled"
| pending_rejected: "lifecycle Pending Rejected"

inductive_cases lifecycle_fromE: "lifecycle s t"

inductive_simps lifecycle_simps [simp]:
  "lifecycle Pending t" "lifecycle PartiallyFilled t" "lifecycle Filled t"
  "lifecycle Cancelled t" "lifecycle Rejected t"

lemma lifecycle_terminal: "lifecycle\<^sup>*\<^sup>* s t \<Longrightarrow> s \<in> {Filled, Cancelled, Rejected} \<Longrightarrow> t = s"
  by (induction rule: converse_rtranclp_induct) auto

lemma lifecycle_steps:
  "lifecycle\<^sup>*\<^sup>* Pending PartiallyFilled" "lifecycle\<^sup>*\<^sup>* PartiallyFilled Filled"
  "lifecycle\<^sup>*\<^sup>* PartiallyFilled Cancelled" "lifecycle\<^sup>*\<^sup>* Pending Cancelled"
  "lifecycle\<^sup>*\<^sup>* Pending Rejected" "lifecycle\<^sup>*\<^sup>* Pending Filled"
proof -
  have p: "lifecycle\<^sup>*\<^sup>* Pending PartiallyFilled" and f: "lifecycle\<^sup>*\<^sup>* PartiallyFilled Filled"
    by (auto intro: r_into_rtranclp)
  from p f show "lifecycle\<^sup>*\<^sup>* Pending Filled" by (rule rtranclp_trans)
qed (auto intro: r_into_rtranclp)

text \<open>The diagram has no cycle, so its paths order the states: \<open>s \<le> t\<close> says that \<open>t\<close> can be reached from
  \<open>s\<close>. The rank of a state is the length of the longest path to it.\<close>

fun state_rank :: "order_state \<Rightarrow> nat" where
  "state_rank Pending = 0"
| "state_rank PartiallyFilled = 1"
| "state_rank _ = 2"

lemma lifecycle_rank: "lifecycle s t \<Longrightarrow> state_rank s < state_rank t"
  by (erule lifecycle_fromE) simp_all

lemma lifecycle_path_rank: "lifecycle\<^sup>*\<^sup>* s t \<Longrightarrow> s = t \<or> state_rank s < state_rank t"
  by (induction rule: rtranclp_induct) (auto dest: lifecycle_rank)

lemma lifecycle_antisym: "lifecycle\<^sup>*\<^sup>* s t \<Longrightarrow> lifecycle\<^sup>*\<^sup>* t s \<Longrightarrow> s = t"
  using lifecycle_path_rank [of s t] lifecycle_path_rank [of t s] by auto

instantiation order_state :: order
begin

definition less_eq_order_state :: "order_state \<Rightarrow> order_state \<Rightarrow> bool" where
  "s \<le> t \<longleftrightarrow> lifecycle\<^sup>*\<^sup>* s t"

definition less_order_state :: "order_state \<Rightarrow> order_state \<Rightarrow> bool" where
  "s < t \<longleftrightarrow> lifecycle\<^sup>*\<^sup>* s t \<and> s \<noteq> t"

instance
  by standard (auto simp: less_eq_order_state_def less_order_state_def dest: lifecycle_antisym)

end

text \<open>An event the exchange may send in the diagram: no second use of an order id, no fill or
  cancel of an order that is not open, no reject of an order with fills.\<close>

definition admissible :: "order_event \<Rightarrow> (string \<Rightarrow> order option) \<Rightarrow> bool" where
  "admissible e m \<longleftrightarrow>
     (case etype e of
        NewOrder \<Rightarrow> m (event_oid e) = None
      | PartialFill \<Rightarrow> (\<forall>od. m (event_oid e) = Some od \<longrightarrow> is_open od)
      | FullFill \<Rightarrow> (\<forall>od. m (event_oid e) = Some od \<longrightarrow> is_open od)
      | Cancel \<Rightarrow> (\<forall>od. m (event_oid e) = Some od \<longrightarrow> is_open od)
      | Reject \<Rightarrow> (\<forall>od. m (event_oid e) = Some od \<longrightarrow> o_state od = Pending)
      | _ \<Rightarrow> True)"

lemma update_existing_other:
  "update_existing m k body = Some m' \<Longrightarrow> k' \<noteq> k \<Longrightarrow> m' k' = m k'"
  by (auto simp: update_existing_def split: option.splits)

lemma update_existing_same:
  "update_existing m k body = Some m' \<Longrightarrow> m k = Some od \<Longrightarrow> \<exists>od'. body od = Some od' \<and> m' = m(k \<mapsto> od')"
  by (auto simp: update_existing_def)

lemma update_existing_lifecycle:
  assumes "update_existing m k body = Some m'" "m k' = Some od"
    and "\<And>od'. k' = k \<Longrightarrow> body od = Some od' \<Longrightarrow> lifecycle\<^sup>*\<^sup>* (o_state od) (o_state od')"
  shows "\<exists>od'. m' k' = Some od' \<and> lifecycle\<^sup>*\<^sup>* (o_state od) (o_state od')"
proof (cases "k' = k")
  case True
  with assms(1,2) obtain od' where "body od = Some od'" "m' = m(k \<mapsto> od')"
    using update_existing_same [of m k body m' od] by auto
  with True assms(3) show ?thesis by auto
next
  case False
  with assms(1,2) show ?thesis by (auto simp: update_existing_other)
qed

lemma fill_order_lifecycle:
  "is_open od \<Longrightarrow> fill_order e od = Some od' \<Longrightarrow> lifecycle\<^sup>*\<^sup>* (o_state od) (o_state od')"
  using fill_order_fields(14) [of e od od'] by (auto simp: is_open_def intro: lifecycle_steps)

lemma om_spec_lifecycle:
  assumes spec: "om_spec e m = Some m'" and adm: "admissible e m" and od: "m k = Some od"
  shows "\<exists>od'. m' k = Some od' \<and> lifecycle\<^sup>*\<^sup>* (o_state od) (o_state od')"
proof (cases "etype e")
  case NewOrder
  with spec adm od show ?thesis
    by (auto simp: om_spec_def admissible_def split: if_splits)
next
  case PartialFill
  with spec have "update_existing m (event_oid e) (fill_order e) = Some m'" by (simp add: om_spec_def)
  from this od show ?thesis
    by (rule update_existing_lifecycle)
      (use adm PartialFill od fill_order_lifecycle in \<open>auto simp: admissible_def\<close>)
next
  case FullFill
  with spec have "update_existing m (event_oid e) (fill_order e) = Some m'" by (simp add: om_spec_def)
  from this od show ?thesis
    by (rule update_existing_lifecycle)
      (use adm FullFill od fill_order_lifecycle in \<open>auto simp: admissible_def\<close>)
next
  case Cancel
  with spec have "update_existing m (event_oid e)
      (\<lambda>od. Some (od\<lparr>o_state := Cancelled, last_seq := sequence e\<rparr>)) = Some m'"
    by (simp add: om_spec_def)
  from this od show ?thesis
    by (rule update_existing_lifecycle)
      (use adm Cancel od in \<open>auto simp: admissible_def is_open_def intro: lifecycle_steps\<close>)
next
  case Reject
  with spec have "update_existing m (event_oid e)
      (\<lambda>od. Some (od\<lparr>o_state := Rejected, last_seq := sequence e\<rparr>)) = Some m'"
    by (simp add: om_spec_def)
  from this od show ?thesis
    by (rule update_existing_lifecycle)
      (use adm Reject od in \<open>auto simp: admissible_def intro: lifecycle_steps\<close>)
next
  case Amend
  with spec have "update_existing m (event_oid e) (\<lambda>od. Some (amend_order e od)) = Some m'"
    by (simp add: om_spec_def)
  from this od show ?thesis by (rule update_existing_lifecycle) auto
next
  case EventType_other
  with spec od show ?thesis by (simp add: om_spec_def)
qed

text \<open>Along a run of events, each admissible in the table it meets, every order only goes up.\<close>

fun admissible_run :: "order_event list \<Rightarrow> order_manager \<Rightarrow> bool" where
  "admissible_run [] om = True"
| "admissible_run (e # es) om =
     (admissible e (om_map om) \<and>
      (case om_apply_event e om of None \<Rightarrow> True | Some om' \<Rightarrow> admissible_run es om'))"

lemma admissible_run_forward:
  assumes "foldm om_apply_event es om = Some om'" "om_ok om" "\<forall>e \<in> set es. event_ok e"
    and "admissible_run es om" "om_map om k = Some od"
  shows "\<exists>od'. om_map om' k = Some od' \<and> o_state od \<le> o_state od'"
  using assms
proof (induction es arbitrary: om od)
  case (Cons e es)
  from Cons.prems(1) obtain om1 where e: "om_apply_event e om = Some om1" and r: "foldm om_apply_event es om1 = Some om'"
    by (auto simp: Option.bind_eq_Some_conv)
  have ev: "event_ok e" using Cons.prems(3) by simp
  from om_spec_lifecycle [OF om_apply_event_Some [OF Cons.prems(2) ev e]] Cons.prems(4,5)
  obtain od1 where od1: "om_map om1 k = Some od1" "o_state od \<le> o_state od1"
    by (auto simp: less_eq_order_state_def)
  have "\<exists>od'. om_map om' k = Some od' \<and> o_state od1 \<le> o_state od'"
    by (rule Cons.IH [OF r om_apply_event_ok [OF Cons.prems(2) ev e] _ _ od1(1)]) (use Cons.prems(3,4) e in simp_all)
  with od1(2) show ?case by (meson order_trans)
qed simp

section \<open>Runs of fills\<close>

text \<open>The new average of a fill lies between the old average and the fill price: truncating the
  quotient of a weighted mean towards zero does not leave an interval with integer ends.\<close>

lemma sdiv_mean_bounds:
  fixes lo hi c n :: int
  assumes "0 < n" "lo * n \<le> c" "c \<le> hi * n"
  shows "lo \<le> c sdiv n \<and> c sdiv n \<le> hi"
proof -
  let ?q = "c sdiv n"
  have r: "\<bar>c - ?q * n\<bar> < n" by (rule sdiv_remainder_bound [OF assms(1)])
  have "(lo - 1) * n < ?q * n" "?q * n < (hi + 1) * n"
    using r assms by (simp_all add: left_diff_distrib distrib_right)
  then show ?thesis
    using assms(1) by (simp add: mult_less_cancel_right)
qed

lemma fill_order_avg:
  assumes fill: "fill_order e od = Some od'" and pos: "0 < fill_qty e" and filled: "0 \<le> filled_qty od"
    and price: "lo \<le> fill_price e" "fill_price e \<le> hi"
    and avg: "filled_qty od = 0 \<or> lo \<le> avg_fill_price od \<and> avg_fill_price od \<le> hi"
  shows "lo \<le> avg_fill_price od' \<and> avg_fill_price od' \<le> hi"
proof -
  let ?c = "avg_fill_price od * filled_qty od + fill_price e * fill_qty e"
  let ?n = "filled_qty od + fill_qty e"
  have n: "0 < ?n" using pos filled by simp
  have 1: "lo * filled_qty od \<le> avg_fill_price od * filled_qty od"
      "avg_fill_price od * filled_qty od \<le> hi * filled_qty od"
    using avg filled by (auto intro: mult_right_mono)
  have 2: "lo * fill_qty e \<le> fill_price e * fill_qty e" "fill_price e * fill_qty e \<le> hi * fill_qty e"
    using price pos by (auto intro: mult_right_mono)
  have "lo \<le> ?c sdiv ?n \<and> ?c sdiv ?n \<le> hi"
    by (rule sdiv_mean_bounds [OF n]) (use 1 2 in \<open>simp_all add: distrib_left\<close>)
  then show ?thesis
    using n fill_order_fields(9,13) [OF fill] by simp
qed

definition fill_value :: "order_event list \<Rightarrow> int" where
  "fill_value es = sum_list (map (\<lambda>e. fill_price e * fill_qty e) es)"

definition fill_total :: "order_event list \<Rightarrow> int" where
  "fill_total es = sum_list (map fill_qty es)"

lemma fill_value_Cons: "fill_value (e # es) = fill_price e * fill_qty e + fill_value es"
  by (simp add: fill_value_def)

text \<open>A run of fills on one order: the quantities add up, the average stays between the lowest
  and the highest price, and it misses the volume-weighted price by at most one unit of the last
  decimal per fill.\<close>

lemma fill_run:
  assumes "foldm fill_order es od = Some od'" "0 \<le> filled_qty od"
    and "\<forall>e \<in> set es. 0 < fill_qty e \<and> lo \<le> fill_price e \<and> fill_price e \<le> hi"
    and "filled_qty od = 0 \<or> lo \<le> avg_fill_price od \<and> avg_fill_price od \<le> hi"
  shows "filled_qty od' = filled_qty od + fill_total es \<and> 0 \<le> fill_total es \<and>
    (filled_qty od' = 0 \<or> lo \<le> avg_fill_price od' \<and> avg_fill_price od' \<le> hi) \<and>
    \<bar>avg_fill_price od * filled_qty od + fill_value es - avg_fill_price od' * filled_qty od'\<bar>
      \<le> int (length es) * filled_qty od'"
  using assms
proof (induction es arbitrary: od)
  case Nil
  then show ?case by (simp add: fill_total_def fill_value_def)
next
  case (Cons e es)
  from Cons.prems(1) obtain od1 where f: "fill_order e od = Some od1" and r: "foldm fill_order es od1 = Some od'"
    by (auto simp: Option.bind_eq_Some_conv)
  have e: "0 < fill_qty e" "lo \<le> fill_price e" "fill_price e \<le> hi" using Cons.prems(3) by simp_all
  note fields = fill_order_fields(9,13) [OF f]
  have q1: "0 < filled_qty od1" using fields(1) e(1) Cons.prems(2) by simp
  have avg1: "lo \<le> avg_fill_price od1 \<and> avg_fill_price od1 \<le> hi"
    using fill_order_avg [OF f e(1) Cons.prems(2) e(2,3) Cons.prems(4)] .
  have IH: "filled_qty od' = filled_qty od1 + fill_total es \<and> 0 \<le> fill_total es \<and>
    (filled_qty od' = 0 \<or> lo \<le> avg_fill_price od' \<and> avg_fill_price od' \<le> hi) \<and>
    \<bar>avg_fill_price od1 * filled_qty od1 + fill_value es - avg_fill_price od' * filled_qty od'\<bar>
      \<le> int (length es) * filled_qty od'"
    by (rule Cons.IH [OF r]) (use q1 avg1 Cons.prems(3) in simp_all)
  have "\<bar>(avg_fill_price od * filled_qty od + fill_price e * fill_qty e)
      - avg_fill_price od1 * filled_qty od1\<bar> < filled_qty od1"
    using sdiv_remainder_bound [OF q1] fields(2) q1 by simp
  then have "\<bar>avg_fill_price od * filled_qty od + fill_value (e # es) - avg_fill_price od' * filled_qty od'\<bar>
      \<le> filled_qty od1 + int (length es) * filled_qty od'"
    using IH fill_value_Cons [of e es] by linarith
  also have "\<dots> \<le> int (length (e # es)) * filled_qty od'"
    using IH by (simp add: algebra_simps)
  finally have bound: "\<bar>avg_fill_price od * filled_qty od + fill_value (e # es) - avg_fill_price od' * filled_qty od'\<bar>
      \<le> int (length (e # es)) * filled_qty od'" .
  have "fill_total (e # es) = fill_qty e + fill_total es" by (simp add: fill_total_def)
  with bound IH fields(1) e(1) show ?case by (intro conjI) linarith+
qed

text \<open>When the fill cannot overflow: non-negative quantities and prices whose product fits.\<close>

lemma fill_order_defined:
  assumes "0 \<le> filled_qty od" "0 \<le> fill_qty e" "filled_qty od + fill_qty e \<le> 2147483647"
    and "0 \<le> avg_fill_price od" "avg_fill_price od \<le> p" "0 \<le> fill_price e" "fill_price e \<le> p"
    and "p * (filled_qty od + fill_qty e) \<le> 9223372036854775807"
    and "0 \<le> original_qty od" "original_qty od \<le> 2147483647"
  shows "\<exists>od'. fill_order e od = Some od'"
proof -
  let ?a = "avg_fill_price od * filled_qty od" and ?b = "fill_price e * fill_qty e"
  let ?n = "filled_qty od + fill_qty e"
  have a: "0 \<le> ?a" "?a \<le> p * filled_qty od" and b: "0 \<le> ?b" "?b \<le> p * fill_qty e"
    using assms by (simp_all add: mult_right_mono)
  have "?a + ?b \<le> 9223372036854775807"
    using a b assms(8) by (simp add: distrib_left)
  with a b have i: "int64 ?a" "int64 ?b" "int64 (?a + ?b)" by (simp_all add: int64_def)
  have n: "int32 ?n" "int32 (original_qty od - ?n)"
    using assms by (simp_all add: int32_def)
  have q: "0 < ?n \<Longrightarrow> int64 ((?a + ?b) sdiv ?n)" using int64_sdiv [OF i(3)] .
  show ?thesis
    using i n q by (simp add: fill_order_def remaining_qty_def i64_in_range i32_in_range)
qed

section \<open>Open exposure\<close>

definition signed_open :: "string \<Rightarrow> order \<Rightarrow> int" where
  "signed_open s od =
     (if is_open od \<and> cstr 8 (o_symbol od) = s
      then (if o_side od = Buy then original_qty od - filled_qty od
            else - (original_qty od - filled_qty od))
      else 0)"

definition exposure_of :: "(string \<Rightarrow> order option) \<Rightarrow> string \<Rightarrow> int" where
  "exposure_of m s = (\<Sum>k \<in> dom m. signed_open s (the (m k)))"

lemma exposure_of_upd:
  "finite (dom m) \<Longrightarrow> exposure_of (m(k \<mapsto> od)) s =
     exposure_of m s + signed_open s od - (case m k of None \<Rightarrow> 0 | Some u \<Rightarrow> signed_open s u)"
  unfolding exposure_of_def by (rule sum_map_upd)

text \<open>The loop of \<open>open_exposure\<close> over the slots in use.\<close>

definition exposure_step :: "char list \<Rightarrow> order \<Rightarrow> int \<Rightarrow> int option" where
  "exposure_step symb od ex =
     (if \<not> is_open od then Some ex
      else do {
        c \<leftarrow> strncmp (o_symbol od) symb 8;
        if c \<noteq> 0 then Some ex
        else do {
          rem \<leftarrow> remaining_qty od;
          d \<leftarrow> (if o_side od = Buy then Some rem else i32 (- rem));
          i32 (ex + d) } })"

lemma foldm_indices:
  "n \<le> length xs \<Longrightarrow> foldm (\<lambda>i s. do { x \<leftarrow> at_index xs i; f x s }) [0..<n] s = foldm f (take n xs) s"
proof (induction n)
  case 0
  then show ?case by simp
next
  case (Suc n)
  then show ?case by (cases "foldm f (take n xs) s") (simp_all add: take_Suc_conv_app_nth)
qed

lemma open_exposure_foldm:
  "om_ok om \<Longrightarrow> open_exposure om symb =
     foldm (exposure_step (sv_data symb)) (take (om_count om) (om_slots om)) 0"
  unfolding open_exposure_def exposure_step_def [symmetric]
  using foldm_indices [of "om_count om" "om_slots om" "exposure_step (sv_data symb)" 0] om_okD(3,4) [of om]
  by simp

lemma exposure_step_Some:
  assumes "length (o_symbol od) = 8" "readable 8 symb" "exposure_step symb od ex = Some ex'"
  shows "ex' = ex + signed_open (cstr 8 symb) od"
  using assms strncmp_total [of 8 "o_symbol od" symb]
  by (auto simp: exposure_step_def signed_open_def remaining_qty_def readable_full
      Option.bind_eq_Some_conv split: if_splits)

lemma exposure_foldm_Some:
  assumes "foldm (exposure_step symb) ods ex = Some ex'" "readable 8 symb"
    and "\<forall>od \<in> set ods. length (o_symbol od) = 8"
  shows "ex' = ex + sum_list (map (signed_open (cstr 8 symb)) ods)"
  using assms(1,3)
proof (induction ods arbitrary: ex)
  case Nil
  then show ?case by simp
next
  case (Cons od ods)
  then obtain ex1 where "exposure_step symb od ex = Some ex1" "foldm (exposure_step symb) ods ex1 = Some ex'"
    by (auto simp: Option.bind_eq_Some_conv)
  with Cons.prems exposure_step_Some [OF _ assms(2), of od ex ex1] Cons.IH [of ex1] show ?case
    by (simp add: ac_simps)
qed

lemma om_slots_ok: "om_ok om \<Longrightarrow> od \<in> set (take (om_count om) (om_slots om)) \<Longrightarrow> order_ok od"
  by (metis om_okD(1) om_map_def om_ok_def ran_table_map)

lemma open_exposure_eq:
  assumes ok: "om_ok om" and r: "readable 8 (sv_data symb)" and ex: "open_exposure om symb = Some ex"
  shows "ex = exposure_of (om_map om) (cstr 8 (sv_data symb))"
proof -
  have "ex = sum_list (map (signed_open (cstr 8 (sv_data symb))) (take (om_count om) (om_slots om)))"
    using exposure_foldm_Some [OF ex [unfolded open_exposure_foldm [OF ok]] r] om_slots_ok [OF ok]
    unfolding order_ok_def by simp
  also have "\<dots> = exposure_of (om_map om) (cstr 8 (sv_data symb))"
    unfolding exposure_of_def om_map_def by (rule sum_list_slots [OF om_okD(1) [OF ok]])
  finally show ?thesis .
qed

text \<open>It is defined when the absolute open quantities of the symbol stay below \<open>2\<^sup>3\<^sup>1\<close> together.\<close>

lemma exposure_foldm_defined:
  assumes "readable 8 symb" "\<forall>od \<in> set ods. length (o_symbol od) = 8"
    and "\<bar>ex\<bar> + sum_list (map (\<lambda>od. \<bar>signed_open (cstr 8 symb) od\<bar>) ods) \<le> 2147483647"
  shows "\<exists>ex'. foldm (exposure_step symb) ods ex = Some ex'"
  using assms(2,3)
proof (induction ods arbitrary: ex)
  case Nil
  then show ?case by simp
next
  case (Cons od ods)
  let ?d = "signed_open (cstr 8 symb) od"
  have nn: "0 \<le> sum_list (map (\<lambda>od. \<bar>signed_open (cstr 8 symb) od\<bar>) ods)"
    by (rule sum_list_nonneg) auto
  have "exposure_step symb od ex = Some (ex + ?d)"
    using strncmp_total [of 8 "o_symbol od" symb] Cons.prems nn assms(1)
    by (auto simp: exposure_step_def signed_open_def remaining_qty_def readable_full int32_def
        i32_def split: if_splits)
  with Cons.IH [of "ex + ?d"] Cons.prems show ?case by simp
qed

section \<open>Runs of the table\<close>

text \<open>A run of fills of one order through the table is the run of fills on that order.\<close>

lemma om_fills_run:
  assumes "foldm om_apply_event es om = Some om'" "om_ok om" "om_map om k = Some od"
    and "\<forall>e \<in> set es. event_ok e \<and> is_fill e \<and> event_oid e = k"
  shows "\<exists>od'. om_map om' k = Some od' \<and> foldm fill_order es od = Some od'"
  using assms
proof (induction es arbitrary: om od)
  case Nil
  then show ?case by simp
next
  case (Cons e es)
  from Cons.prems(1) obtain om1 where s: "om_apply_event e om = Some om1" and r: "foldm om_apply_event es om1 = Some om'"
    by (auto simp: Option.bind_eq_Some_conv)
  have e: "event_ok e" "is_fill e" "event_oid e = k" using Cons.prems(4) by simp_all
  have "update_existing (om_map om) k (fill_order e) = Some (om_map om1)"
    using om_apply_event_Some [OF Cons.prems(2) e(1) s] e by (auto simp: om_spec_def is_fill_def)
  from update_existing_same [OF this Cons.prems(3)] obtain od1 where
    od1: "fill_order e od = Some od1" "om_map om1 k = Some od1" by auto
  have "\<exists>od'. om_map om' k = Some od' \<and> foldm fill_order es od1 = Some od'"
    by (rule Cons.IH [OF r om_apply_event_ok [OF Cons.prems(2) e(1) s] od1(2)]) (use Cons.prems(4) in simp)
  with od1 show ?case by simp
qed

lemma fill_run_state:
  assumes "foldm fill_order es od = Some od'" "es \<noteq> []"
  shows "o_state od' = (if original_qty od \<le> filled_qty od' then Filled else PartiallyFilled)"
proof -
  obtain fs e where es: "es = fs @ [e]" using assms(2) by (cases es rule: rev_cases) auto
  with assms(1) obtain od1 where od1: "foldm fill_order fs od = Some od1" "fill_order e od1 = Some od'"
    by (auto simp: Option.bind_eq_Some_conv)
  have "original_qty od1 = original_qty od"
    using od1(1) by (rule foldm_invariant) (simp_all add: fill_order_fields(4))
  with fill_order_fields(14) [OF od1(2)] show ?thesis by simp
qed

lemma open_exposure_defined:
  assumes ok: "om_ok om" and r: "readable 8 (sv_data symb)"
    and b: "(\<Sum>k \<in> dom (om_map om). \<bar>signed_open (cstr 8 (sv_data symb)) (the (om_map om k))\<bar>) \<le> 2147483647"
  shows "open_exposure om symb = Some (exposure_of (om_map om) (cstr 8 (sv_data symb)))"
proof -
  let ?ods = "take (om_count om) (om_slots om)" and ?s = "cstr 8 (sv_data symb)"
  have "sum_list (map (\<lambda>od. \<bar>signed_open ?s od\<bar>) ?ods) \<le> 2147483647"
    using sum_list_slots [OF om_okD(1) [OF ok], of "\<lambda>od. \<bar>signed_open ?s od\<bar>"] b by (simp add: om_map_def)
  then have "\<exists>ex. open_exposure om symb = Some ex"
    unfolding open_exposure_foldm [OF ok] using om_slots_ok [OF ok]
    by (intro exposure_foldm_defined [OF r]) (auto simp: order_ok_def)
  then show ?thesis using open_exposure_eq [OF ok r] by auto
qed

lemma open_order_count_slots:
  assumes ok: "om_ok om"
  shows "open_order_count om = Some (length (filter is_open (take (om_count om) (om_slots om))))"
proof -
  have "foldm (\<lambda>od n. Some (if is_open od then Suc n else n)) ods n = Some (n + length (filter is_open ods))" for ods n
    by (induction ods arbitrary: n) auto
  then show ?thesis
    unfolding open_order_count_def
    using foldm_indices [of "om_count om" "om_slots om" "\<lambda>od n. Some (if is_open od then Suc n else n)"] om_okD(3,4) [OF ok]
    by simp
qed

lemma length_open_slots:
  assumes "om_ok om"
  shows "length (filter is_open (take (om_count om) (om_slots om))) = card {k. \<exists>od. om_map om k = Some od \<and> is_open od}"
proof -
  let ?g = "\<lambda>od. if is_open od then 1 else 0 :: nat"
  have fin: "finite (dom (om_map om))" by (simp add: om_map_def)
  have "length (filter is_open (take (om_count om) (om_slots om))) = sum_list (map ?g (take (om_count om) (om_slots om)))"
    by (induction "take (om_count om) (om_slots om)") (simp_all add: sum_list_triv length_filter_conv_card flip: sum_list_map_filter')
  also have "\<dots> = (\<Sum>k \<in> dom (om_map om). ?g (the (om_map om k)))"
    using sum_list_slots [OF om_okD(1) [OF assms], of ?g] by (simp add: om_map_def)
  also have "\<dots> = card {k \<in> dom (om_map om). is_open (the (om_map om k))}"
    using fin by (simp add: sum.If_cases Int_def)
  also have "{k \<in> dom (om_map om). is_open (the (om_map om k))} = {k. \<exists>od. om_map om k = Some od \<and> is_open od}"
    by auto
  finally show ?thesis .
qed

lemma om_apply_event_obtain:
  assumes "om_ok om" "event_ok e" "om_spec e (om_map om) = Some m"
  obtains om' where "om_apply_event e om = Some om'" "om_ok om'" "om_map om' = m"
proof -
  from om_apply_event_map [OF assms(1,2)] assms(3) obtain om' where "om_apply_event e om = Some om'" "om_map om' = m"
    by (auto simp: map_option_case split: option.splits)
  with om_apply_event_ok [OF assms(1,2)] that show thesis by blast
qed

section \<open>Sample tables\<close>

text \<open>The table after one order of 100 shares at 175.\<close>

definition sample_open :: order where
  "sample_open = opened_order (sample_new ''O1'' ''AAPL'' Buy 100 175)"

lemma sample_manager:
  obtains om where "om_apply_event (sample_new ''O1'' ''AAPL'' Buy 100 175) new_order_manager = Some om"
    "om_ok om" "om_map om = [''O1'' \<mapsto> sample_open]"
proof -
  let ?e = "sample_new ''O1'' ''AAPL'' Buy 100 175"
  have e: "event_ok ?e" "etype ?e = NewOrder" "event_oid ?e = ''O1''" by code_simp+
  have "om_spec ?e (om_map new_order_manager) = Some [''O1'' \<mapsto> sample_open]"
    by (simp add: om_spec_def e(2,3) MAX_ORDERS_def sample_open_def)
  with om_apply_event_obtain [OF om_ok_new(1) e(1)] that show thesis by blast
qed

text \<open>The table after that order was filled in part, and after it was cancelled.\<close>

definition sample_partial :: order where
  "sample_partial = sample_open\<lparr>filled_qty := 40, avg_fill_price := 100, o_state := PartiallyFilled\<rparr>"

definition sample_cancelled :: order where
  "sample_cancelled = sample_open\<lparr>o_state := Cancelled\<rparr>"

lemma sample_fill_step:
  assumes "om_ok om" "om_map om = [''O1'' \<mapsto> od]" "fill_order (sample_fill ''O1'' ''AAPL'' Buy 40 100) od = Some od'"
  obtains om' where "om_apply_event (sample_fill ''O1'' ''AAPL'' Buy 40 100) om = Some om'" "om_ok om'"
    "om_map om' = [''O1'' \<mapsto> od']"
proof -
  let ?e = "sample_fill ''O1'' ''AAPL'' Buy 40 100"
  have e: "event_ok ?e" "etype ?e = PartialFill" "event_oid ?e = ''O1''" by code_simp+
  have "om_spec ?e (om_map om) = Some [''O1'' \<mapsto> od']"
    using assms(2,3) by (simp add: om_spec_def e(2,3) update_existing_def)
  with om_apply_event_obtain [OF assms(1) e(1)] that show thesis by blast
qed

lemma sample_cancel_step:
  obtains om where "om_ok om" "om_map om = [''O1'' \<mapsto> sample_cancelled]"
proof -
  obtain om where om: "om_ok om" "om_map om = [''O1'' \<mapsto> sample_open]" by (rule sample_manager)
  let ?e = "sample_event Cancel ''O1'' ''AAPL'' Buy"
  have e: "event_ok ?e" "etype ?e = Cancel" "event_oid ?e = ''O1''" by code_simp+
  have "sample_open\<lparr>o_state := Cancelled, last_seq := sequence ?e\<rparr> = sample_cancelled" by code_simp
  then have "om_spec ?e (om_map om) = Some [''O1'' \<mapsto> sample_cancelled]"
    using om(2) by (simp add: om_spec_def e(2,3) update_existing_def)
  with om_apply_event_obtain [OF om(1) e(1)] that show thesis by blast
qed

text \<open>A table with all 512 slots in use.\<close>

definition full_manager :: order_manager where
  "full_manager = \<lparr>om_slots = map (\<lambda>i. zero_order\<lparr>o_order_id := pad_name 8 (''O'' @ to_dec i)\<rparr>) [0..<MAX_ORDERS],
     om_count = MAX_ORDERS\<rparr>"

lemma full_manager_keys: "slot_keys o_order_id (om_slots full_manager) MAX_ORDERS = map (\<lambda>i. ''O'' @ to_dec i) [0..<MAX_ORDERS]"
proof (rule nth_equalityI)
  fix i assume "i < length (slot_keys o_order_id (om_slots full_manager) MAX_ORDERS)"
  then have i: "i < MAX_ORDERS" by (simp add: slot_keys_def full_manager_def)
  then have "length (to_dec i) \<le> 3" by (intro length_to_dec) (auto simp: MAX_ORDERS_def)
  moreover have "NUL \<notin> set (''O'' @ to_dec i)" using to_dec_no_NUL [of i] by (simp add: NUL_def)
  ultimately have "cstr 8 (pad_name 8 (''O'' @ to_dec i)) = ''O'' @ to_dec i" by (intro cstr_pad_name) auto
  with i show "slot_keys o_order_id (om_slots full_manager) MAX_ORDERS ! i = map (\<lambda>i. ''O'' @ to_dec i) [0..<MAX_ORDERS] ! i"
    by (simp add: nth_slot_keys full_manager_def)
qed (simp add: slot_keys_def full_manager_def)

lemma full_manager_ok: "om_ok full_manager" "order_count full_manager = MAX_ORDERS"
proof -
  have "distinct (slot_keys o_order_id (om_slots full_manager) MAX_ORDERS)"
    unfolding full_manager_keys by (auto simp: distinct_map inj_on_def dest: to_dec_inj)
  moreover have len: "length (to_dec i) \<le> 3" if "i < MAX_ORDERS" for i
    using that by (intro length_to_dec) (auto simp: MAX_ORDERS_def)
  have "length (pad_name 8 (''O'' @ to_dec i)) = 8" if "i < MAX_ORDERS" for i
    using len [OF that] by (intro length_pad_name) simp
  ultimately have t: "table_ok o_order_id MAX_ORDERS (om_slots full_manager) (om_count full_manager)"
    unfolding table_ok_def by (simp add: full_manager_def)
  have "order_ok (zero_order\<lparr>o_order_id := pad_name 8 (''O'' @ to_dec i)\<rparr>)" if "i < MAX_ORDERS" for i
  proof -
    have "cstr 8 (pad_name 8 (''O'' @ to_dec i)) = ''O'' @ to_dec i"
      using to_dec_no_NUL [of i] len [OF that] by (intro cstr_pad_name) (auto simp: NUL_def)
    then show ?thesis by (simp add: order_ok_def zero_order_def)
  qed
  then have "\<forall>od \<in> set (take (om_count full_manager) (om_slots full_manager)). order_ok od"
    by (auto simp: full_manager_def)
  with t show "om_ok full_manager" by (simp add: om_ok_def om_map_def ran_table_map)
  show "order_count full_manager = MAX_ORDERS" by (simp add: order_count_def full_manager_def)
qed

lemma full_manager_unknown: "k \<noteq> [] \<Longrightarrow> hd k \<noteq> CHR ''O'' \<Longrightarrow> om_map full_manager k = None"
  using full_manager_keys by (auto simp: om_map_def table_map_None full_manager_def)

section \<open>Properties\<close>

text \<open>C5. The order table refines the map of orders: on every well-formed table and event, \<open>apply_event\<close>
  does to the array exactly what \<open>om_spec\<close> does to the map from order ids to orders, including when the
  result is undefined because a price or a quantity overflows, and the table stays well formed.\<close>

theorem order_table_refines_map:
  assumes "om_ok om" "event_ok e"
  shows "map_option om_map (om_apply_event e om) = om_spec e (om_map om) \<and>
    (\<forall>om'. om_apply_event e om = Some om' \<longrightarrow> om_ok om')"
  using om_apply_event_map [OF assms] om_apply_event_ok [OF assms] by blast

theorem order_table_refines_map_witness:
  "map_option om_map (om_apply_event (sample_new ''O1'' ''AAPL'' Buy 100 175) new_order_manager) =
     Some [''O1'' \<mapsto> opened_order (sample_new ''O1'' ''AAPL'' Buy 100 175)]"
proof -
  let ?e = "sample_new ''O1'' ''AAPL'' Buy 100 175"
  have e: "event_ok ?e" "etype ?e = NewOrder" "event_oid ?e = ''O1''" by code_simp+
  have "om_spec ?e Map.empty = Some [''O1'' \<mapsto> opened_order ?e]"
    by (simp add: om_spec_def e(2,3) MAX_ORDERS_def)
  then show ?thesis using order_table_refines_map [OF om_ok_new(1) e(1)] by simp
qed

text \<open>A new order under an id that is known or for which there is a slot can be looked up at once:
  \<open>get\<close> returns it pending, unfilled, with the symbol, side, quantity and price of the event, and what
  \<open>get\<close> returns for every other id is unchanged.\<close>

lemma new_order_lookup:
  assumes "om_ok om" "event_ok e" "etype e = NewOrder"
    and "om_map om (event_oid e) \<noteq> None \<or> order_count om < MAX_ORDERS"
  shows "\<exists>om'. om_apply_event e om = Some om' \<and>
    om_get om' (order_id_view e) = Some (Some (opened_order e)) \<and>
    (\<forall>oid. readable 8 (sv_data oid) \<and> cstr 8 (sv_data oid) \<noteq> event_oid e \<longrightarrow> om_get om' oid = om_get om oid)"
proof -
  have "om_spec e (om_map om) = Some ((om_map om)(event_oid e \<mapsto> opened_order e))"
    using assms(3,4) om_okD(5) [OF assms(1)] by (auto simp: om_spec_def order_count_def)
  then obtain om' where om': "om_apply_event e om = Some om'" "om_map om' = (om_map om)(event_oid e \<mapsto> opened_order e)"
    and ok': "om_ok om'"
    using om_apply_event_obtain [OF assms(1,2)] by metis
  have "om_get om' (order_id_view e) = Some (Some (opened_order e))"
    using om_get_map [OF ok', of "order_id_view e"] event_okD(6) [OF assms(2)] om'(2) by (simp add: event_oid_def)
  with om' show ?thesis
    using om_get_map [OF ok'] om_get_map [OF assms(1)] by auto
qed

text \<open>When all 512 slots are in use, a new order under an unknown id is dropped without a trace: the
  table is unchanged, and terminal orders never give their slot back.\<close>

lemma full_table_drops_new_orders:
  assumes "om_ok om" "event_ok e" "etype e = NewOrder" "om_map om (event_oid e) = None" "order_count om = MAX_ORDERS"
  shows "\<exists>om'. om_apply_event e om = Some om' \<and> om_map om' = om_map om"
proof -
  have "om_spec e (om_map om) = Some (om_map om)"
    using assms(3-5) om_okD(5) [OF assms(1)] by (simp add: om_spec_def order_count_def)
  with om_apply_event_obtain [OF assms(1,2)] show ?thesis by metis
qed

text \<open>C23. Along every run of events an exchange may send in the documented diagram (no reuse of an id,
  fills and cancels of open orders only, rejects of pending orders only) every order moves forward
  along the diagram, or stays where it is, and none disappears.\<close>

theorem lifecycle_forward:
  assumes "om_ok om" "\<forall>e \<in> set es. event_ok e" "admissible_run es om" "foldm om_apply_event es om = Some om'"
    and "om_map om k = Some od"
  shows "\<exists>od'. om_map om' k = Some od' \<and> lifecycle\<^sup>*\<^sup>* (o_state od) (o_state od')"
  using admissible_run_forward [OF assms(4,1,2,3,5)] by (simp add: less_eq_order_state_def)

theorem lifecycle_forward_witness:
  "\<exists>om om' od'. om_map om ''O1'' = Some sample_open \<and>
    foldm om_apply_event [sample_fill ''O1'' ''AAPL'' Buy 40 100, sample_fill ''O1'' ''AAPL'' Buy 60 100] om = Some om' \<and>
    om_map om' ''O1'' = Some od' \<and> lifecycle\<^sup>*\<^sup>* Pending (o_state od')"
proof -
  let ?e = "sample_fill ''O1'' ''AAPL'' Buy 40 100" and ?d = "sample_fill ''O1'' ''AAPL'' Buy 60 100"
  obtain om where om: "om_ok om" "om_map om = [''O1'' \<mapsto> sample_open]" by (rule sample_manager)
  have f: "fill_order ?e sample_open = Some sample_partial" by code_simp
  obtain om1 where om1: "om_apply_event ?e om = Some om1" by (rule sample_fill_step [OF om f])
  have e: "event_ok ?e" "etype ?e = PartialFill" "event_oid ?e = ''O1''" "is_open sample_open" "o_state sample_open = Pending"
      "event_ok ?d" "etype ?d = PartialFill" "event_oid ?d = ''O1''" "is_open sample_partial" "fill_order ?d sample_partial \<noteq> None"
    by code_simp+
  have ok1: "om_ok om1" by (rule om_apply_event_ok [OF om(1) e(1) om1])
  have m1: "om_map om1 = [''O1'' \<mapsto> sample_partial]"
    using om_apply_event_Some [OF om(1) e(1) om1] om(2) f by (simp add: om_spec_def e update_existing_def)
  obtain od2 where od2: "fill_order ?d sample_partial = Some od2" using e(10) by blast
  have "om_spec ?d (om_map om1) = Some [''O1'' \<mapsto> od2]" by (simp add: om_spec_def e update_existing_def m1 od2)
  then obtain om' where om': "om_apply_event ?d om1 = Some om'" using om_apply_event_obtain [OF ok1 e(6)] by metis
  have a: "admissible_run [?e, ?d] om" by (simp add: admissible_def e om(2) om1 om' m1)
  have r: "foldm om_apply_event [?e, ?d] om = Some om'" by (simp add: om1 om')
  have m: "om_map om ''O1'' = Some sample_open" by (simp add: om(2))
  from lifecycle_forward [OF om(1) _ a r m] e(1,5,6) m r show ?thesis by auto
qed

text \<open>C33. Nothing in the handlers enforces the diagram: a late fill of a cancelled order that does not
  complete it makes the order open again, a step the documented diagram does not have.\<close>

theorem late_fill_reopens:
  assumes "om_ok om" "event_ok e" "is_fill e" "om_apply_event e om = Some om'"
    and "om_map om (event_oid e) = Some od" "o_state od = Cancelled" "filled_qty od + fill_qty e < original_qty od"
  shows "\<exists>od'. om_map om' (event_oid e) = Some od' \<and> is_open od' \<and> \<not> lifecycle\<^sup>*\<^sup>* (o_state od) (o_state od')"
proof -
  have "update_existing (om_map om) (event_oid e) (fill_order e) = Some (om_map om')"
    using om_apply_event_Some [OF assms(1,2,4)] assms(3) by (auto simp: om_spec_def is_fill_def)
  from update_existing_same [OF this assms(5)] obtain od' where
    f: "fill_order e od = Some od'" "om_map om' (event_oid e) = Some od'" by auto
  have "o_state od' = PartiallyFilled" using fill_order_fields(9,14) [OF f(1)] assms(7) by simp
  with f(2) assms(6) lifecycle_terminal [of Cancelled PartiallyFilled] show ?thesis by (auto simp: is_open_def)
qed

theorem late_fill_reopens_witness:
  "\<exists>om om' od'. om_map om ''O1'' = Some sample_cancelled \<and> om_apply_event (sample_fill ''O1'' ''AAPL'' Buy 40 100) om = Some om' \<and>
    om_map om' ''O1'' = Some od' \<and> is_open od'"
proof -
  let ?e = "sample_fill ''O1'' ''AAPL'' Buy 40 100"
  obtain om where om: "om_ok om" "om_map om = [''O1'' \<mapsto> sample_cancelled]" by (rule sample_cancel_step)
  have f: "fill_order ?e sample_cancelled = Some sample_partial" by code_simp
  obtain om' where om': "om_apply_event ?e om = Some om'" by (rule sample_fill_step [OF om f])
  have e: "event_ok ?e" "is_fill ?e" "event_oid ?e = ''O1''" "o_state sample_cancelled = Cancelled"
      "filled_qty sample_cancelled + fill_qty ?e < original_qty sample_cancelled"
    by code_simp+
  have m: "om_map om ''O1'' = Some sample_cancelled" by (simp add: om(2))
  from late_fill_reopens [OF om(1) e(1,2) om' _ e(4,5)] m om' e(3) show ?thesis by metis
qed

text \<open>C24. A run of fills with positive quantities and prices between \<open>lo\<close> and \<open>hi\<close>, sent to one unfilled
  order through the table, fills it by their total; its average price lies between \<open>lo\<close> and \<open>hi\<close> and
  misses the volume-weighted price by at most one unit of the last decimal per fill; the order is
  filled exactly when the total reaches its quantity.\<close>

theorem fills_add_up:
  assumes "om_ok om" "om_map om k = Some od" "filled_qty od = 0" "es \<noteq> []"
    and "\<forall>e \<in> set es. event_ok e \<and> is_fill e \<and> event_oid e = k \<and>
      0 < fill_qty e \<and> lo \<le> fill_price e \<and> fill_price e \<le> hi"
    and "foldm om_apply_event es om = Some om'"
  shows "\<exists>od'. om_map om' k = Some od' \<and> filled_qty od' = fill_total es \<and>
    lo \<le> avg_fill_price od' \<and> avg_fill_price od' \<le> hi \<and>
    \<bar>fill_value es - avg_fill_price od' * filled_qty od'\<bar> \<le> int (length es) * filled_qty od' \<and>
    o_state od' = (if original_qty od \<le> fill_total es then Filled else PartiallyFilled)"
proof -
  obtain od' where od': "om_map om' k = Some od'" "foldm fill_order es od = Some od'"
    using om_fills_run [OF assms(6,1,2)] assms(5) by blast
  obtain e fs where es: "es = e # fs" using assms(4) by (cases es) auto
  then have "0 \<le> sum_list (map fill_qty fs)" using assms(5) by (intro sum_list_nonneg) auto
  then have "0 < fill_total es" using assms(5) es by (simp add: fill_total_def)
  with fill_run [OF od'(2), of lo hi] fill_run_state [OF od'(2) assms(4)] assms(3,5) od'(1)
  show ?thesis by auto
qed

theorem fills_add_up_witness:
  "\<exists>om om' od'. om_map om ''O1'' = Some sample_open \<and>
    foldm om_apply_event [sample_fill ''O1'' ''AAPL'' Buy 40 100] om = Some om' \<and> om_map om' ''O1'' = Some od' \<and>
    filled_qty od' = 40 \<and> 99 \<le> avg_fill_price od' \<and> avg_fill_price od' \<le> 101 \<and> o_state od' = PartiallyFilled"
proof -
  let ?e = "sample_fill ''O1'' ''AAPL'' Buy 40 100"
  obtain om where om: "om_ok om" "om_map om = [''O1'' \<mapsto> sample_open]" by (rule sample_manager)
  have f: "fill_order ?e sample_open = Some sample_partial" by code_simp
  obtain om' where om': "om_apply_event ?e om = Some om'" by (rule sample_fill_step [OF om f])
  have e: "event_ok ?e" "is_fill ?e" "event_oid ?e = ''O1''" "fill_qty ?e = 40" "fill_price ?e = 100"
      "filled_qty sample_open = 0" "original_qty sample_open = 100" "fill_total [?e] = 40"
    by code_simp+
  have m: "om_map om ''O1'' = Some sample_open" using om(2) by simp
  have r: "foldm om_apply_event [?e] om = Some om'" using om' by simp
  from fills_add_up [OF om(1) m e(6) _ _ r, of 99 101] e m r show ?thesis by auto
qed

text \<open>\<open>open_exposure\<close> is exactly the sum over the open orders of the symbol of the signed remaining
  quantities, and it is defined whenever the absolute remaining quantities of the symbol add up to
  less than \<open>2\<^sup>3\<^sup>1\<close>.\<close>

lemma open_exposure_exact:
  assumes "om_ok om" "readable 8 (sv_data symb)"
    and "(\<Sum>k \<in> dom (om_map om). \<bar>signed_open (cstr 8 (sv_data symb)) (the (om_map om k))\<bar>) \<le> 2147483647"
  shows "open_exposure om symb = Some (\<Sum>k \<in> dom (om_map om). signed_open (cstr 8 (sv_data symb)) (the (om_map om k)))"
  using open_exposure_defined [OF assms] by (simp add: exposure_of_def)

text \<open>\<open>open_order_count\<close> is the number of order ids whose order is open.\<close>

lemma open_order_count_exact:
  assumes "om_ok om"
  shows "open_order_count om = Some (card {k. \<exists>od. om_map om k = Some od \<and> is_open od})"
  using open_order_count_slots [OF assms] length_open_slots [OF assms] by simp

end
