(* ===== verification/PositionTracker.thy ===== *)
theory PositionTracker
  imports Slot_Table EventLog
begin

text \<open>
  \<open>include/PositionTracker.h\<close>: the projection of the fills to per-symbol positions, in a flat array
  of 1024 slots keyed by the 8-byte symbol. \<open>pt_map\<close> reads the array as a finite map from symbols to
  positions, \<open>pt_spec\<close> says what a fill does to it, and \<open>pt_apply_event\<close> refines that.
\<close>

section \<open>Positions\<close>

record position =
  p_symbol :: "char list"
  net_qty :: int
  avg_entry_price :: int
  realized_pnl :: int
  unrealized_pnl :: int
  total_buy_qty :: int
  total_sell_qty :: int
  last_price :: int
  last_updated_seq :: int

definition p_symbol_view :: "position \<Rightarrow> string_view" where
  "p_symbol_view p = \<lparr>sv_data = p_symbol p, sv_size = strnlen (p_symbol p) 8\<rparr>"

definition is_flat :: "position \<Rightarrow> bool" where
  "is_flat p \<longleftrightarrow> net_qty p = 0"

definition net_qty_d :: "position \<Rightarrow> double" where
  "net_qty_d p = d_of_int (net_qty p)"

definition avg_entry_price_d :: "position \<Rightarrow> double" where
  "avg_entry_price_d p = d_div (d_of_int (avg_entry_price p)) (of_int PRICE_SCALE)"

definition realized_pnl_d :: "position \<Rightarrow> double" where
  "realized_pnl_d p = d_div (d_of_int (realized_pnl p)) (of_int PRICE_SCALE)"

definition unrealized_pnl_d :: "position \<Rightarrow> double" where
  "unrealized_pnl_d p = d_div (d_of_int (unrealized_pnl p)) (of_int PRICE_SCALE)"

definition total_pnl_d :: "position \<Rightarrow> double" where
  "total_pnl_d p = d_add (realized_pnl_d p) (unrealized_pnl_d p)"

definition zero_position :: position where
  "zero_position = \<lparr>p_symbol = replicate 8 NUL, net_qty = 0, avg_entry_price = 0, realized_pnl = 0,
     unrealized_pnl = 0, total_buy_qty = 0, total_sell_qty = 0, last_price = 0, last_updated_seq = 0\<rparr>"

definition refresh_unrealized :: "position \<Rightarrow> position option" where
  "refresh_unrealized p = do {
     u \<leftarrow> (if last_price p > 0 \<and> net_qty p \<noteq> 0 then do {
             d \<leftarrow> i64 (last_price p - avg_entry_price p);
             i64 (d * net_qty p) }
           else Some 0);
     Some (p\<lparr>unrealized_pnl := u\<rparr>) }"

definition apply_buy :: "position \<Rightarrow> int \<Rightarrow> int \<Rightarrow> 64 word \<Rightarrow> position option" where
  "apply_buy p0 q px sq = do {
     tb \<leftarrow> i32 (total_buy_qty p0 + q);
     let p = p0\<lparr>total_buy_qty := tb\<rparr>;
     p1 \<leftarrow> (if net_qty p \<ge> 0 then do {
              new_qty \<leftarrow> i64 (net_qty p + q);
              c1 \<leftarrow> i64 (avg_entry_price p * net_qty p);
              c2 \<leftarrow> i64 (px * q);
              new_cost \<leftarrow> i64 (c1 + c2);
              avg \<leftarrow> (if new_qty > 0 then i64 (new_cost sdiv new_qty) else Some 0);
              Some (p\<lparr>avg_entry_price := avg, net_qty := new_qty\<rparr>) }
            else do {
              neg \<leftarrow> i64 (- net_qty p);
              let cover = (if q \<le> neg then q else neg);
              d \<leftarrow> i64 (avg_entry_price p - px);
              g \<leftarrow> i64 (d * cover);
              r \<leftarrow> i64 (realized_pnl p + g);
              n \<leftarrow> i64 (net_qty p + q);
              let p' = p\<lparr>realized_pnl := r, net_qty := n\<rparr>;
              Some (if n > 0 then p'\<lparr>avg_entry_price := px\<rparr>
                    else if n = 0 then p'\<lparr>avg_entry_price := 0\<rparr> else p') });
     p2 \<leftarrow> refresh_unrealized p1;
     Some (p2\<lparr>last_updated_seq := u64_to_i64 sq\<rparr>) }"

definition apply_sell :: "position \<Rightarrow> int \<Rightarrow> int \<Rightarrow> 64 word \<Rightarrow> position option" where
  "apply_sell p0 q px sq = do {
     ts \<leftarrow> i32 (total_sell_qty p0 + q);
     let p = p0\<lparr>total_sell_qty := ts\<rparr>;
     p1 \<leftarrow> (if net_qty p > 0 then do {
              let cl = (if q \<le> net_qty p then q else net_qty p);
              d \<leftarrow> i64 (px - avg_entry_price p);
              g \<leftarrow> i64 (d * cl);
              r \<leftarrow> i64 (realized_pnl p + g);
              n \<leftarrow> i64 (net_qty p - q);
              let p' = p\<lparr>realized_pnl := r, net_qty := n\<rparr>;
              Some (if n < 0 then p'\<lparr>avg_entry_price := px\<rparr>
                    else if n = 0 then p'\<lparr>avg_entry_price := 0\<rparr> else p') }
            else do {
              neg \<leftarrow> i64 (- net_qty p);
              new_qty \<leftarrow> i64 (neg + q);
              c1 \<leftarrow> i64 (avg_entry_price p * neg);
              c2 \<leftarrow> i64 (px * q);
              new_cost \<leftarrow> i64 (c1 + c2);
              avg \<leftarrow> (if new_qty > 0 then i64 (new_cost sdiv new_qty) else Some 0);
              n \<leftarrow> i64 (net_qty p - q);
              Some (p\<lparr>avg_entry_price := avg, net_qty := n\<rparr>) });
     p2 \<leftarrow> refresh_unrealized p1;
     Some (p2\<lparr>last_updated_seq := u64_to_i64 sq\<rparr>) }"

section \<open>The tracker\<close>

definition MAX_SYMBOLS :: nat where
  "MAX_SYMBOLS = 1024"

declare MAX_SYMBOLS_def [hft_consts]

record position_tracker =
  pt_slots :: "position list"
  pt_count :: nat

definition new_position_tracker :: position_tracker where
  "new_position_tracker = \<lparr>pt_slots = replicate MAX_SYMBOLS zero_position, pt_count = 0\<rparr>"

function pt_find_loop :: "position list \<Rightarrow> char list \<Rightarrow> nat \<Rightarrow> nat \<Rightarrow> nat option option" where
  "pt_find_loop sl symb i n =
     (if i < n then do {
        p \<leftarrow> at_index sl i;
        c \<leftarrow> strncmp (p_symbol p) symb 8;
        if c = 0 then Some (Some i) else pt_find_loop sl symb (Suc i) n }
      else Some None)"
  by pat_completeness auto
termination
  by (relation "measure (\<lambda>(sl, symb, i, n). n - i)") auto

declare pt_find_loop.simps [simp del]

definition pt_find :: "position_tracker \<Rightarrow> string_view \<Rightarrow> nat option option" where
  "pt_find pt symb = pt_find_loop (pt_slots pt) (sv_data symb) 0 (pt_count pt)"

function pt_get_loop :: "position list \<Rightarrow> char list \<Rightarrow> nat \<Rightarrow> nat \<Rightarrow> nat option option" where
  "pt_get_loop sl symb i n =
     (if i < n then do {
        p \<leftarrow> at_index sl i;
        c \<leftarrow> strncmp (p_symbol p) symb 8;
        if c = 0 then Some (Some i) else pt_get_loop sl symb (Suc i) n }
      else Some None)"
  by pat_completeness auto
termination
  by (relation "measure (\<lambda>(sl, symb, i, n). n - i)") auto

declare pt_get_loop.simps [simp del]

definition pt_get :: "position_tracker \<Rightarrow> string_view \<Rightarrow> position option option" where
  "pt_get pt symb =
     map_option (map_option ((!) (pt_slots pt))) (pt_get_loop (pt_slots pt) (sv_data symb) 0 (pt_count pt))"

definition pt_get_or_create ::
  "position_tracker \<Rightarrow> string_view \<Rightarrow> (position_tracker \<times> nat option) option" where
  "pt_get_or_create pt symb = do {
     f \<leftarrow> pt_find pt symb;
     case f of
       Some i \<Rightarrow> Some (pt, Some i)
     | None \<Rightarrow>
         if MAX_SYMBOLS \<le> pt_count pt then Some (pt, None)
         else do {
           _ \<leftarrow> at_index (pt_slots pt) (pt_count pt);
           bs \<leftarrow> strncpy (sv_data symb) 8;
           Some (\<lparr>pt_slots = (pt_slots pt)[pt_count pt := zero_position\<lparr>p_symbol := bs\<rparr>],
                  pt_count = Suc (pt_count pt)\<rparr>, Some (pt_count pt)) } }"

definition fill_position :: "order_event \<Rightarrow> position \<Rightarrow> position option" where
  "fill_position e p =
     (if side e = Buy then apply_buy p (fill_qty e) (fill_price e) (sequence e)
      else apply_sell p (fill_qty e) (fill_price e) (sequence e))"

definition pt_apply_event :: "order_event \<Rightarrow> position_tracker \<Rightarrow> position_tracker option" where
  "pt_apply_event e pt =
     (if \<not> is_fill e then Some pt
      else do {
        (pt1, f) \<leftarrow> pt_get_or_create pt (symbol_view e);
        case f of
          None \<Rightarrow> Some pt1
        | Some i \<Rightarrow> do {
            p \<leftarrow> at_index (pt_slots pt1) i;
            p' \<leftarrow> fill_position e p;
            Some (pt1\<lparr>pt_slots := (pt_slots pt1)[i := p']\<rparr>) } })"

definition pt_replay_from :: "event_log \<Rightarrow> position_tracker \<Rightarrow> position_tracker option" where
  "pt_replay_from lg pt =
     replay lg pt_apply_event
       (pt\<lparr>pt_slots := replicate MAX_SYMBOLS zero_position, pt_count := 0\<rparr>)"

definition mark_position :: "int \<Rightarrow> position \<Rightarrow> position option" where
  "mark_position mkt p =
     (if is_flat p then Some p
      else do {
        d \<leftarrow> i64 (mkt - avg_entry_price p);
        u \<leftarrow> i64 (d * net_qty p);
        Some (p\<lparr>last_price := mkt, unrealized_pnl := u\<rparr>) })"

definition mark_to_market :: "position_tracker \<Rightarrow> string_view \<Rightarrow> int \<Rightarrow> position_tracker option" where
  "mark_to_market pt symb mkt = do {
     f \<leftarrow> pt_find pt symb;
     case f of
       None \<Rightarrow> Some pt
     | Some i \<Rightarrow> do {
         p \<leftarrow> at_index (pt_slots pt) i;
         p' \<leftarrow> mark_position mkt p;
         Some (pt\<lparr>pt_slots := (pt_slots pt)[i := p']\<rparr>) } }"

definition pt_for_each :: "(position \<Rightarrow> 's \<Rightarrow> 's option) \<Rightarrow> position_tracker \<Rightarrow> 's \<Rightarrow> 's option" where
  "pt_for_each fn pt s =
     foldm (\<lambda>i s. do { p \<leftarrow> at_index (pt_slots pt) i; fn p s }) [0..<pt_count pt] s"

definition symbol_count :: "position_tracker \<Rightarrow> nat" where
  "symbol_count pt = pt_count pt"

section \<open>The abstract view\<close>

definition pt_map :: "position_tracker \<Rightarrow> string \<Rightarrow> position option" where
  "pt_map pt = table_map p_symbol (pt_slots pt) (pt_count pt)"

text \<open>A position in use: fields in the range of their types, the net quantity is what was bought
  minus what was sold, and a flat position has no entry price and no unrealized result.\<close>

definition position_ok :: "position \<Rightarrow> bool" where
  "position_ok p \<longleftrightarrow> p_symbol p = pad_name 8 (cstr 8 (p_symbol p)) \<and>
     int64 (net_qty p) \<and> int64 (avg_entry_price p) \<and> int64 (realized_pnl p) \<and> int64 (unrealized_pnl p) \<and>
     int32 (total_buy_qty p) \<and> int32 (total_sell_qty p) \<and> int64 (last_price p) \<and>
     int64 (last_updated_seq p) \<and>
     net_qty p = total_buy_qty p - total_sell_qty p \<and>
     (net_qty p = 0 \<longrightarrow> avg_entry_price p = 0 \<and> unrealized_pnl p = 0)"

definition pt_ok :: "position_tracker \<Rightarrow> bool" where
  "pt_ok pt \<longleftrightarrow> table_ok p_symbol MAX_SYMBOLS (pt_slots pt) (pt_count pt) \<and>
     (\<forall>p \<in> ran (pt_map pt). position_ok p)"

definition fresh_position :: "string \<Rightarrow> position" where
  "fresh_position s = zero_position\<lparr>p_symbol := pad_name 8 s\<rparr>"

definition position_or_fresh :: "(string \<Rightarrow> position option) \<Rightarrow> string \<Rightarrow> position" where
  "position_or_fresh m s = (case m s of Some p \<Rightarrow> p | None \<Rightarrow> fresh_position s)"

definition pt_spec :: "order_event \<Rightarrow> (string \<Rightarrow> position option) \<Rightarrow> (string \<Rightarrow> position option) option" where
  "pt_spec e m =
     (if is_fill e \<and> (m (event_symbol e) \<noteq> None \<or> card (dom m) < MAX_SYMBOLS) then
        map_option (\<lambda>p. m(event_symbol e \<mapsto> p)) (fill_position e (position_or_fresh m (event_symbol e)))
      else Some m)"

section \<open>What a fill does to a position\<close>

lemma refresh_unrealized_Some:
  "refresh_unrealized p = Some p' \<longleftrightarrow>
     p' = p\<lparr>unrealized_pnl := (if last_price p > 0 \<and> net_qty p \<noteq> 0
       then (last_price p - avg_entry_price p) * net_qty p else 0)\<rparr> \<and>
     (last_price p > 0 \<and> net_qty p \<noteq> 0 \<longrightarrow> int64 (last_price p - avg_entry_price p)) \<and>
     int64 (unrealized_pnl p')"
  by (auto simp: refresh_unrealized_def Option.bind_eq_Some_conv split: if_splits)

lemma apply_buy_fields:
  assumes "apply_buy p q px sq = Some p'"
  shows "p_symbol p' = p_symbol p" "total_buy_qty p' = total_buy_qty p + q"
    "total_sell_qty p' = total_sell_qty p" "net_qty p' = net_qty p + q" "last_price p' = last_price p"
    "realized_pnl p' = realized_pnl p + (if net_qty p < 0 then (avg_entry_price p - px) * min q (- net_qty p) else 0)"
    "avg_entry_price p' = (if net_qty p \<ge> 0 then
        (if net_qty p + q > 0 then (avg_entry_price p * net_qty p + px * q) sdiv (net_qty p + q) else 0)
      else if net_qty p + q > 0 then px else if net_qty p + q = 0 then 0 else avg_entry_price p)"
    "unrealized_pnl p' = (if last_price p' > 0 \<and> net_qty p' \<noteq> 0
       then (last_price p' - avg_entry_price p') * net_qty p' else 0)"
    "int32 (total_buy_qty p')" "int64 (net_qty p')" "int64 (unrealized_pnl p')"
    "int64 (last_updated_seq p')"
    "int64 px \<Longrightarrow> int64 (avg_entry_price p) \<Longrightarrow> int64 (avg_entry_price p')"
    "int64 (realized_pnl p) \<Longrightarrow> int64 (realized_pnl p')"
  using assms
  by (auto simp: apply_buy_def Option.bind_eq_Some_conv refresh_unrealized_Some Let_def min_def split: if_splits)

lemma apply_sell_fields:
  assumes "apply_sell p q px sq = Some p'"
  shows "p_symbol p' = p_symbol p" "total_sell_qty p' = total_sell_qty p + q"
    "total_buy_qty p' = total_buy_qty p" "net_qty p' = net_qty p - q" "last_price p' = last_price p"
    "realized_pnl p' = realized_pnl p + (if net_qty p > 0 then (px - avg_entry_price p) * min q (net_qty p) else 0)"
    "avg_entry_price p' = (if net_qty p > 0 then
        (if net_qty p - q < 0 then px else if net_qty p - q = 0 then 0 else avg_entry_price p)
      else if q - net_qty p > 0 then (avg_entry_price p * (- net_qty p) + px * q) sdiv (q - net_qty p)
      else 0)"
    "unrealized_pnl p' = (if last_price p' > 0 \<and> net_qty p' \<noteq> 0
       then (last_price p' - avg_entry_price p') * net_qty p' else 0)"
    "int32 (total_sell_qty p')" "int64 (net_qty p')" "int64 (unrealized_pnl p')"
    "int64 (last_updated_seq p')"
    "int64 px \<Longrightarrow> int64 (avg_entry_price p) \<Longrightarrow> int64 (avg_entry_price p')"
    "int64 (realized_pnl p) \<Longrightarrow> int64 (realized_pnl p')"
  using assms
  by (auto simp: apply_sell_def Option.bind_eq_Some_conv refresh_unrealized_Some Let_def min_def split: if_splits)

lemma fill_position_ok:
  assumes "position_ok p" "event_ok e" "fill_position e p = Some p'"
  shows "position_ok p'" "p_symbol p' = p_symbol p"
proof -
  have *: "int64 (fill_price e)" using event_okD [OF assms(2)] by simp
  show "p_symbol p' = p_symbol p"
    using assms(3) by (auto simp: fill_position_def apply_buy_fields(1) apply_sell_fields(1) split: if_splits)
  show "position_ok p'"
  proof (cases "side e = Buy")
    case True
    with assms(3) have f: "apply_buy p (fill_qty e) (fill_price e) (sequence e) = Some p'"
      by (simp add: fill_position_def)
    note b = apply_buy_fields [OF f]
    show ?thesis
      using assms(1) b(13) [OF *] b(14) b(9-12) unfolding position_ok_def b(1-5,8)
      by (auto simp: b(7))
  next
    case False
    with assms(3) have f: "apply_sell p (fill_qty e) (fill_price e) (sequence e) = Some p'"
      by (simp add: fill_position_def)
    note b = apply_sell_fields [OF f]
    show ?thesis
      using assms(1) b(13) [OF *] b(14) b(9-12) unfolding position_ok_def b(1-5,8)
      by (auto simp: b(7))
  qed
qed

section \<open>The search loops and the array\<close>

definition pt_obtain :: "position list \<Rightarrow> nat \<Rightarrow> char list \<Rightarrow> (position list \<times> nat \<times> nat option) option" where
  "pt_obtain sl n k = map_option (\<lambda>(pt, f). (pt_slots pt, pt_count pt, f))
     (pt_get_or_create \<lparr>pt_slots = sl, pt_count = n\<rparr> \<lparr>sv_data = k, sv_size = 0\<rparr>)"

interpretation ptg: scan_loop p_symbol pt_get_loop
  by unfold_locales (rule pt_get_loop.simps)

interpretation ptt: slot_table p_symbol pt_find_loop
  "\<lambda>bs. zero_position\<lparr>p_symbol := bs\<rparr>" MAX_SYMBOLS pt_obtain
proof unfold_locales
  fix sl k i n
  show "pt_find_loop sl k i n =
    (if i < n then do {
       s \<leftarrow> at_index sl i;
       c \<leftarrow> strncmp (p_symbol s) k 8;
       if c = 0 then Some (Some i) else pt_find_loop sl k (Suc i) n }
     else Some None)"
    by (rule pt_find_loop.simps)
next
  fix bs
  show "p_symbol (zero_position\<lparr>p_symbol := bs\<rparr>) = bs" by simp
next
  fix sl n k
  show "pt_obtain sl n k =
      do {
        r \<leftarrow> pt_find_loop sl k 0 n;
        case r of
          Some i \<Rightarrow> Some (sl, n, Some i)
        | None \<Rightarrow>
            if MAX_SYMBOLS \<le> n then Some (sl, n, None)
            else do {
              _ \<leftarrow> at_index sl n;
              bs \<leftarrow> strncpy k 8;
              Some (sl[n := zero_position\<lparr>p_symbol := bs\<rparr>], Suc n, Some n) } }"
    by (auto simp: pt_obtain_def pt_get_or_create_def pt_find_def Option.bind_eq_Some_conv
        split: option.splits Option.bind_splits)
qed

lemma pt_get_or_create_obtain:
  "pt_get_or_create pt symb =
     map_option (\<lambda>(sl, n, f). (\<lparr>pt_slots = sl, pt_count = n\<rparr>, f))
       (pt_obtain (pt_slots pt) (pt_count pt) (sv_data symb))"
  by (cases pt) (auto simp: pt_obtain_def pt_get_or_create_def pt_find_def
      split: option.splits Option.bind_splits)

lemma pt_okD:
  assumes "pt_ok pt"
  shows "table_ok p_symbol MAX_SYMBOLS (pt_slots pt) (pt_count pt)"
    "\<And>k p. pt_map pt k = Some p \<Longrightarrow> position_ok p"
    "pt_count pt \<le> MAX_SYMBOLS" "length (pt_slots pt) = MAX_SYMBOLS"
    "card (dom (pt_map pt)) = pt_count pt"
    "\<And>k p. pt_map pt k = Some p \<Longrightarrow> cstr 8 (p_symbol p) = k"
proof -
  from assms have ok: "table_ok p_symbol MAX_SYMBOLS (pt_slots pt) (pt_count pt)"
    by (simp add: pt_ok_def)
  then show "table_ok p_symbol MAX_SYMBOLS (pt_slots pt) (pt_count pt)" .
  show "\<And>k p. pt_map pt k = Some p \<Longrightarrow> position_ok p"
    using assms by (auto simp: pt_ok_def intro: ranI)
  show "pt_count pt \<le> MAX_SYMBOLS" "length (pt_slots pt) = MAX_SYMBOLS"
    using table_okD [OF ok] by simp_all
  show "card (dom (pt_map pt)) = pt_count pt"
    unfolding pt_map_def by (rule card_table_map [OF ok])
  show "\<And>k p. pt_map pt k = Some p \<Longrightarrow> cstr 8 (p_symbol p) = k"
    using table_okD(1,2) [OF ok] by (metis pt_map_def table_map_SomeE)
qed

lemma pt_ok_new [simp]: "pt_ok new_position_tracker" "pt_map new_position_tracker = Map.empty"
  by (simp_all add: pt_ok_def new_position_tracker_def pt_map_def table_ok_empty)

lemma position_ok_fresh: "length s \<le> 8 \<Longrightarrow> NUL \<notin> set s \<Longrightarrow> position_ok (fresh_position s)"
  by (simp add: position_ok_def fresh_position_def zero_position_def cstr_pad_name)

lemma position_or_fresh_ok: "pt_ok pt \<Longrightarrow> position_ok (position_or_fresh (pt_map pt) (event_symbol e))"
  using pt_okD(2) [of pt]
  by (auto simp: position_or_fresh_def event_symbol_def length_cstr position_ok_fresh split: option.splits)

lemma pt_spec_positions_ok:
  assumes ok: "pt_ok pt" and e: "event_ok e" and spec: "pt_spec e (pt_map pt) = Some m"
  shows "\<forall>p \<in> ran m. position_ok p"
proof -
  have "m = pt_map pt \<or> (\<exists>p. m = (pt_map pt)(event_symbol e \<mapsto> p) \<and>
      fill_position e (position_or_fresh (pt_map pt) (event_symbol e)) = Some p)"
    using spec by (auto simp: pt_spec_def split: if_splits)
  then show ?thesis
  proof (elim disjE exE conjE)
    fix p
    assume m: "m = (pt_map pt)(event_symbol e \<mapsto> p)"
      and "fill_position e (position_or_fresh (pt_map pt) (event_symbol e)) = Some p"
    then have "position_ok p" by (intro fill_position_ok(1) [OF position_or_fresh_ok [OF ok] e])
    with ok show ?thesis unfolding m pt_ok_def by (intro ball_ran_upd) blast+
  qed (use ok in \<open>simp add: pt_ok_def\<close>)
qed

lemma pt_apply_event_spec:
  assumes ok: "pt_ok pt" and e: "event_ok e"
  shows "map_option pt_map (pt_apply_event e pt) = pt_spec e (pt_map pt)"
    and "pt_apply_event e pt = Some pt' \<Longrightarrow> pt_ok pt'"
proof -
  let ?k = "symbol e"
  define r where "r = do { (sl1, n1, f) \<leftarrow> pt_obtain (pt_slots pt) (pt_count pt) ?k;
      case f of None \<Rightarrow> Some (sl1, n1)
      | Some i \<Rightarrow> do { s \<leftarrow> at_index sl1 i; s' \<leftarrow> fill_position e s; Some (sl1[i := s'], n1) } }"
  have eq: "pt_apply_event e pt = map_option (\<lambda>(sl, n). \<lparr>pt_slots = sl, pt_count = n\<rparr>) r" if "is_fill e"
    using that
    by (auto simp: pt_apply_event_def pt_get_or_create_obtain r_def split: option.splits Option.bind_splits)
  have keep: "\<forall>s s'. fill_position e s = Some s' \<longrightarrow> p_symbol s' = p_symbol s"
    by (auto simp: fill_position_def apply_buy_fields(1) apply_sell_fields(1))
  note mod = ptt.obtain_modify [OF pt_okD(1) [OF ok] event_okD(5) [OF e] keep r_def]
  have slot: "ptt.slot_for (pt_slots pt) (pt_count pt) ?k = position_or_fresh (pt_map pt) (event_symbol e)"
    by (simp add: ptt.slot_for_def position_or_fresh_def fresh_position_def pt_map_def event_symbol_def
        split: option.split)
  show map: "map_option pt_map (pt_apply_event e pt) = pt_spec e (pt_map pt)"
  proof (cases "is_fill e")
    case True
    then have "map_option pt_map (pt_apply_event e pt) = map_option (\<lambda>(sl, n). table_map p_symbol sl n) r"
      by (cases r) (auto simp: eq pt_map_def)
    also have "\<dots> = pt_spec e (pt_map pt)"
      unfolding mod(1) slot using True pt_okD(5) [OF ok]
      by (simp add: pt_spec_def pt_map_def event_symbol_def)
    finally show ?thesis .
  qed (simp add: pt_apply_event_def pt_spec_def)
  assume some: "pt_apply_event e pt = Some pt'"
  show "pt_ok pt'"
  proof (cases "is_fill e")
    case True
    then obtain sl n where sl: "r = Some (sl, n)" "pt' = \<lparr>pt_slots = sl, pt_count = n\<rparr>"
      using some by (auto simp: eq)
    have "\<forall>p \<in> ran (pt_map pt'). position_ok p"
      by (rule pt_spec_positions_ok [OF ok e]) (use map some in simp)
    then show ?thesis using mod(2) [OF sl(1)] sl(2) by (simp add: pt_ok_def)
  next
    case False
    with some ok show ?thesis by (simp add: pt_apply_event_def)
  qed
qed

lemma pt_get_map:
  "pt_ok pt \<Longrightarrow> readable 8 (sv_data symb) \<Longrightarrow> pt_get pt symb = Some (pt_map pt (cstr 8 (sv_data symb)))"
  unfolding pt_get_def pt_map_def by (rule ptg.scan_lookup [OF pt_okD(1)])

lemma mark_to_market_spec:
  assumes ok: "pt_ok pt" and k: "readable 8 (sv_data symb)" and mkt: "int64 mkt"
  shows "map_option pt_map (mark_to_market pt symb mkt) =
      (case pt_map pt (cstr 8 (sv_data symb)) of None \<Rightarrow> Some (pt_map pt)
       | Some p \<Rightarrow> map_option (\<lambda>p'. (pt_map pt)(cstr 8 (sv_data symb) \<mapsto> p')) (mark_position mkt p))"
    and "mark_to_market pt symb mkt = Some pt' \<Longrightarrow> pt_ok pt'"
proof -
  define r where "r = do { f \<leftarrow> pt_find_loop (pt_slots pt) (sv_data symb) 0 (pt_count pt);
    case f of None \<Rightarrow> Some (pt_slots pt)
    | Some i \<Rightarrow> do { s \<leftarrow> at_index (pt_slots pt) i; s' \<leftarrow> mark_position mkt s; Some ((pt_slots pt)[i := s']) } }"
  have eq: "mark_to_market pt symb mkt = map_option (\<lambda>sl. pt\<lparr>pt_slots := sl\<rparr>) r"
    by (auto simp: mark_to_market_def pt_find_def r_def split: option.splits Option.bind_splits)
  have keep: "\<forall>p p'. mark_position mkt p = Some p' \<longrightarrow> p_symbol p' = p_symbol p"
    by (auto simp: mark_position_def Option.bind_eq_Some_conv split: if_splits)
  have good: "\<forall>p p'. position_ok p \<longrightarrow> mark_position mkt p = Some p' \<longrightarrow> position_ok p'"
    using mkt by (auto simp: mark_position_def is_flat_def position_ok_def Option.bind_eq_Some_conv
        split: if_splits)
  note mod = ptt.scan_modify [OF pt_okD(1) [OF ok] k keep r_def]
  show map: "map_option pt_map (mark_to_market pt symb mkt) =
      (case pt_map pt (cstr 8 (sv_data symb)) of None \<Rightarrow> Some (pt_map pt)
       | Some p \<Rightarrow> map_option (\<lambda>p'. (pt_map pt)(cstr 8 (sv_data symb) \<mapsto> p')) (mark_position mkt p))"
  proof -
    have "map_option pt_map (mark_to_market pt symb mkt) =
        map_option (\<lambda>sl'. table_map p_symbol sl' (pt_count pt)) r"
      by (cases r) (simp_all add: eq pt_map_def)
    then show ?thesis unfolding mod(1) pt_map_def .
  qed
  assume some: "mark_to_market pt symb mkt = Some pt'"
  then obtain sl where sl: "r = Some sl" "pt' = pt\<lparr>pt_slots := sl\<rparr>" by (auto simp: eq)
  have "pt_map pt' = pt_map pt \<or> (\<exists>p p'. pt_map pt (cstr 8 (sv_data symb)) = Some p \<and>
      mark_position mkt p = Some p' \<and> pt_map pt' = (pt_map pt)(cstr 8 (sv_data symb) \<mapsto> p'))"
    using map some by (auto simp: map_option_case split: option.splits)
  then have "\<forall>p \<in> ran (pt_map pt'). position_ok p"
  proof (elim disjE exE conjE)
    fix p p'
    assume "pt_map pt (cstr 8 (sv_data symb)) = Some p" "mark_position mkt p = Some p'"
      and m: "pt_map pt' = (pt_map pt)(cstr 8 (sv_data symb) \<mapsto> p')"
    with good pt_okD(2) [OF ok] have "position_ok p'" by blast
    with ok show ?thesis unfolding m pt_ok_def by (intro ball_ran_upd) blast+
  qed (use ok in \<open>simp add: pt_ok_def\<close>)
  then show "pt_ok pt'" using mod(2) [OF sl(1)] sl(2) by (simp add: pt_ok_def)
qed

lemma pt_run_ok:
  assumes "foldm pt_apply_event es pt = Some pt'" "pt_ok pt" "\<forall>e \<in> set es. event_ok e"
  shows "pt_ok pt'"
  using assms(1,2) by (rule foldm_invariant) (use assms(3) pt_apply_event_spec(2) in blast)

lemma pt_replay_foldm:
  "log_ok lg \<Longrightarrow> pt_replay_from lg pt = foldm pt_apply_event (log_events lg) new_position_tracker"
  by (cases pt) (simp add: pt_replay_from_def replay_def new_position_tracker_def log_events_def
      replay_loop_foldm log_ok_backed)

end
