(* ===== verification/Position_Accounting.thy ===== *)
theory Position_Accounting
  imports PositionTracker
begin

text \<open>
  The accounting of a position: a run of fills against the cash it moved. \<open>cash_flow\<close> is what a fill
  pays or receives and \<open>book_value\<close> is what the position claims to have earned, its realized result
  minus the cost of what is still held. The two differ only by the truncation of the average entry
  price, at most one unit of the last decimal per share held after each fill.
\<close>

definition signed_fill :: "order_event \<Rightarrow> int" where
  "signed_fill e = (if side e = Buy then fill_qty e else - fill_qty e)"

definition cash_flow :: "order_event \<Rightarrow> int" where
  "cash_flow e = (if side e = Buy then - (fill_price e * fill_qty e) else fill_price e * fill_qty e)"

definition book_value :: "position \<Rightarrow> int" where
  "book_value p = realized_pnl p - avg_entry_price p * net_qty p"

text \<open>The shares held after each fill, added up along a run that starts with \<open>n\<close>.\<close>

fun holding_path :: "int \<Rightarrow> order_event list \<Rightarrow> int" where
  "holding_path n [] = 0"
| "holding_path n (e # es) = \<bar>n + signed_fill e\<bar> + holding_path (n + signed_fill e) es"

text \<open>A fill increases a position when it is on the side of the position or the position is flat.\<close>

definition increases :: "order_event \<Rightarrow> position \<Rightarrow> bool" where
  "increases e p \<longleftrightarrow> (if side e = Buy then net_qty p \<ge> 0 else net_qty p \<le> 0)"

lemma buy_book_value:
  assumes "apply_buy p q px sq = Some p'" "0 \<le> q"
  shows "if net_qty p \<ge> 0 then \<bar>book_value p' - (book_value p - px * q)\<bar> \<le> \<bar>net_qty p + q\<bar>
    else book_value p' = book_value p - px * q"
proof (cases "net_qty p \<ge> 0")
  case True
  note f = apply_buy_fields(4,6,7) [OF assms(1)]
  show ?thesis
  proof (cases "net_qty p + q > 0")
    case pos: True
    have "\<bar>(avg_entry_price p * net_qty p + px * q) - avg_entry_price p' * (net_qty p + q)\<bar> < net_qty p + q"
      using sdiv_remainder_bound [OF pos] True pos f(3) by simp
    then show ?thesis using True pos f(1,2) by (simp add: book_value_def)
  next
    case False
    with True assms(2) have "net_qty p = 0" "q = 0" by simp_all
    then show ?thesis using f by (simp add: book_value_def)
  qed
next
  case False
  note f = apply_buy_fields(4,6,7) [OF assms(1)]
  have "book_value p' = book_value p - px * q"
  proof (cases "net_qty p + q" "0 :: int" rule: linorder_cases)
    case equal
    then have "q = - net_qty p" by simp
    with False show ?thesis unfolding book_value_def f by (simp add: algebra_simps)
  qed (use False in \<open>simp_all add: book_value_def f min_def algebra_simps\<close>)
  with False show ?thesis by simp
qed

lemma sell_book_value:
  assumes "apply_sell p q px sq = Some p'" "0 \<le> q"
  shows "if net_qty p \<le> 0 then \<bar>book_value p' - (book_value p + px * q)\<bar> \<le> \<bar>net_qty p - q\<bar>
    else book_value p' = book_value p + px * q"
proof (cases "net_qty p \<le> 0")
  case True
  note f = apply_sell_fields(4,6,7) [OF assms(1)]
  show ?thesis
  proof (cases "q - net_qty p > 0")
    case pos: True
    have "\<bar>(avg_entry_price p * (- net_qty p) + px * q) - avg_entry_price p' * (q - net_qty p)\<bar> < q - net_qty p"
      using sdiv_remainder_bound [OF pos] True pos f(3) by simp
    then show ?thesis
      using True pos f(1,2) by (simp add: book_value_def right_diff_distrib)
  next
    case False
    with True assms(2) have "net_qty p = 0" "q = 0" by simp_all
    then show ?thesis using f by (simp add: book_value_def)
  qed
next
  case False
  note f = apply_sell_fields(4,6,7) [OF assms(1)]
  have "book_value p' = book_value p + px * q"
  proof (cases "net_qty p - q" "0 :: int" rule: linorder_cases)
    case equal
    then have "q = net_qty p" by simp
    with False show ?thesis unfolding book_value_def f by (simp add: algebra_simps)
  qed (use False in \<open>simp_all add: book_value_def f min_def algebra_simps\<close>)
  with False show ?thesis by simp
qed

lemma fill_net_qty: "fill_position e p = Some p' \<Longrightarrow> net_qty p' = net_qty p + signed_fill e"
  by (auto simp: fill_position_def signed_fill_def apply_buy_fields(4) apply_sell_fields(4) split: if_splits)

lemma fill_last_price: "fill_position e p = Some p' \<Longrightarrow> last_price p' = last_price p"
  by (auto simp: fill_position_def apply_buy_fields(5) apply_sell_fields(5) split: if_splits)

lemma fill_unrealized:
  "fill_position e p = Some p' \<Longrightarrow> unrealized_pnl p' = (if last_price p' > 0 \<and> net_qty p' \<noteq> 0
     then (last_price p' - avg_entry_price p') * net_qty p' else 0)"
  using apply_buy_fields(8) [of p "fill_qty e" "fill_price e" "sequence e" p']
    apply_sell_fields(8) [of p "fill_qty e" "fill_price e" "sequence e" p']
  by (simp add: fill_position_def split: if_split_asm)

text \<open>One fill: exact when it reduces, closes or crosses the position, off by less than the shares
  held when it adds to it.\<close>

lemma fill_book_value:
  assumes f: "fill_position e p = Some p'" and q: "0 \<le> fill_qty e"
  shows "if increases e p then \<bar>book_value p' - (book_value p + cash_flow e)\<bar> \<le> \<bar>net_qty p'\<bar>
    else book_value p' = book_value p + cash_flow e"
proof (cases "side e = Buy")
  case True
  with f have "apply_buy p (fill_qty e) (fill_price e) (sequence e) = Some p'" by (simp add: fill_position_def)
  from buy_book_value [OF this q] show ?thesis
    using True by (simp add: increases_def cash_flow_def fill_net_qty [OF f] signed_fill_def
        split: if_split_asm)
next
  case False
  with f have "apply_sell p (fill_qty e) (fill_price e) (sequence e) = Some p'" by (simp add: fill_position_def)
  from sell_book_value [OF this q] show ?thesis
    using False by (simp add: increases_def cash_flow_def fill_net_qty [OF f] signed_fill_def
        split: if_split_asm)
qed

lemma fill_run_book_value:
  assumes "foldm fill_position es p = Some p'" "\<forall>e \<in> set es. 0 \<le> fill_qty e"
  shows "net_qty p' = net_qty p + sum_list (map signed_fill es) \<and> last_price p' = last_price p \<and>
    \<bar>book_value p' - (book_value p + sum_list (map cash_flow es))\<bar> \<le> holding_path (net_qty p) es"
  using assms
proof (induction es arbitrary: p)
  case Nil
  then show ?case by simp
next
  case (Cons e es)
  from Cons.prems(1) obtain p1 where f: "fill_position e p = Some p1" and r: "foldm fill_position es p1 = Some p'"
    by (auto simp: Option.bind_eq_Some_conv)
  have q: "0 \<le> fill_qty e" using Cons.prems(2) by simp
  have step: "\<bar>book_value p1 - (book_value p + cash_flow e)\<bar> \<le> \<bar>net_qty p1\<bar>"
    using fill_book_value [OF f q] by (auto split: if_splits)
  have IH: "net_qty p' = net_qty p1 + sum_list (map signed_fill es) \<and> last_price p' = last_price p1 \<and>
    \<bar>book_value p' - (book_value p1 + sum_list (map cash_flow es))\<bar> \<le> holding_path (net_qty p1) es"
    by (rule Cons.IH [OF r]) (use Cons.prems(2) in simp)
  have n1: "net_qty p1 = net_qty p + signed_fill e" by (rule fill_net_qty [OF f])
  have "sum_list (map cash_flow (e # es)) = cash_flow e + sum_list (map cash_flow es)"
    "sum_list (map signed_fill (e # es)) = signed_fill e + sum_list (map signed_fill es)"
    "holding_path (net_qty p) (e # es) = \<bar>net_qty p1\<bar> + holding_path (net_qty p1) es"
    by (simp_all add: n1)
  with step IH n1 fill_last_price [OF f] show ?case by (intro conjI) linarith+
qed

section \<open>When a fill is defined\<close>

lemma abs_mult_le: "\<bar>a * b\<bar> \<le> A * B" if "\<bar>a\<bar> \<le> A" "\<bar>b\<bar> \<le> B" for a b A B :: int
  using that by (simp add: abs_mult mult_mono')

text \<open>Bounds on prices, quantities and the result so far under which no operation of a fill
  overflows.\<close>

definition fill_bounds :: "int \<Rightarrow> int \<Rightarrow> order_event \<Rightarrow> position \<Rightarrow> bool" where
  "fill_bounds px n e p \<longleftrightarrow>
     0 \<le> fill_qty e \<and> 0 \<le> fill_price e \<and> fill_price e \<le> px \<and>
     0 \<le> avg_entry_price p \<and> avg_entry_price p \<le> px \<and> 0 \<le> last_price p \<and> last_price p \<le> px \<and>
     \<bar>net_qty p\<bar> + fill_qty e \<le> n \<and> px * n \<le> 4611686018427387904 \<and> n \<le> 4611686018427387904 \<and>
     px \<le> 4611686018427387904 \<and>
     \<bar>realized_pnl p\<bar> \<le> 4611686018427387903 \<and>
     0 \<le> total_buy_qty p \<and> total_buy_qty p + fill_qty e \<le> 2147483647 \<and>
     0 \<le> total_sell_qty p \<and> total_sell_qty p + fill_qty e \<le> 2147483647"

lemma refresh_defined:
  assumes "0 \<le> last_price p" "last_price p \<le> px" "0 \<le> avg_entry_price p" "avg_entry_price p \<le> px"
    "\<bar>net_qty p\<bar> \<le> n" "px * n \<le> 4611686018427387904" "px \<le> 4611686018427387904"
  shows "\<exists>p'. refresh_unrealized p = Some p'"
proof -
  have "\<bar>(last_price p - avg_entry_price p) * net_qty p\<bar> \<le> px * n"
    by (rule abs_mult_le) (use assms in auto)
  then show ?thesis
    using assms by (auto simp: refresh_unrealized_def i64_def int64_def)
qed

lemma mean_bounds:
  fixes a b x y px :: int
  assumes "0 \<le> a" "0 \<le> b" "0 < a + b" "0 \<le> x" "x \<le> px" "0 \<le> y" "y \<le> px"
  shows "0 \<le> (x * a + y * b) sdiv (a + b) \<and> (x * a + y * b) sdiv (a + b) \<le> px"
    "0 \<le> x * a + y * b" "x * a + y * b \<le> px * (a + b)"
proof -
  have 1: "x * a \<le> px * a" "y * b \<le> px * b" "0 \<le> x * a" "0 \<le> y * b"
    using assms by (simp_all add: mult_right_mono)
  then show 2: "0 \<le> x * a + y * b" "x * a + y * b \<le> px * (a + b)" by (simp_all add: distrib_left)
  have "0 \<le> (x * a + y * b) sdiv (a + b)"
    using assms(3) 2(1) by (simp add: signed_divide_int_def sgn_if pos_imp_zdiv_nonneg_iff)
  moreover have "(x * a + y * b) sdiv (a + b) \<le> px"
  proof -
    have "(x * a + y * b) sdiv (a + b) * (a + b) \<le> px * (a + b)"
      using sdiv_nonneg_bounds [OF assms(3) 2(1)] 2(2) by linarith
    then show ?thesis using assms(3) by (simp add: mult_le_cancel_right)
  qed
  ultimately show "0 \<le> (x * a + y * b) sdiv (a + b) \<and> (x * a + y * b) sdiv (a + b) \<le> px" by simp
qed

lemma fill_bounds_products:
  assumes "fill_bounds px n e p"
  shows "\<bar>avg_entry_price p * net_qty p\<bar> \<le> 4611686018427387904"
    "\<bar>fill_price e * fill_qty e\<bar> \<le> 4611686018427387904"
    "\<bar>avg_entry_price p - fill_price e\<bar> \<le> px" "0 \<le> px" "0 \<le> n"
    "\<bar>k\<bar> \<le> n \<Longrightarrow> \<bar>(avg_entry_price p - fill_price e) * k\<bar> \<le> 4611686018427387904"
    "0 \<le> k \<Longrightarrow> k + fill_qty e \<le> n \<Longrightarrow>
       \<bar>avg_entry_price p * k + fill_price e * fill_qty e\<bar> \<le> 4611686018427387904"
proof -
  have b: "0 \<le> px" "0 \<le> n" "\<bar>avg_entry_price p\<bar> \<le> px" "\<bar>net_qty p\<bar> \<le> n" "\<bar>fill_price e\<bar> \<le> px"
      "\<bar>fill_qty e\<bar> \<le> n" "px * n \<le> 4611686018427387904"
    and d: "\<bar>avg_entry_price p - fill_price e\<bar> \<le> px"
    using assms by (auto simp: fill_bounds_def)
  show "0 \<le> px" "0 \<le> n" "\<bar>avg_entry_price p - fill_price e\<bar> \<le> px" by fact+
  show "\<bar>avg_entry_price p * net_qty p\<bar> \<le> 4611686018427387904"
    "\<bar>fill_price e * fill_qty e\<bar> \<le> 4611686018427387904"
    using abs_mult_le [OF b(3,4)] abs_mult_le [OF b(5,6)] b(7) by linarith+
  show "\<bar>(avg_entry_price p - fill_price e) * k\<bar> \<le> 4611686018427387904" if "\<bar>k\<bar> \<le> n"
    using abs_mult_le [OF d that] b(7) by linarith
  show "\<bar>avg_entry_price p * k + fill_price e * fill_qty e\<bar> \<le> 4611686018427387904"
    if k: "0 \<le> k" "k + fill_qty e \<le> n"
  proof (cases "0 < k + fill_qty e")
    case True
    have "0 \<le> avg_entry_price p * k + fill_price e * fill_qty e \<and>
        avg_entry_price p * k + fill_price e * fill_qty e \<le> px * (k + fill_qty e)"
      using assms k(1) True by (intro conjI mean_bounds(2,3)) (auto simp: fill_bounds_def)
    moreover have "px * (k + fill_qty e) \<le> px * n" using k(2) b(1) by (rule mult_left_mono)
    ultimately show ?thesis using b(7) by linarith
  next
    case False
    with k assms have "k = 0" "fill_qty e = 0" by (auto simp: fill_bounds_def)
    then show ?thesis by simp
  qed
qed

lemma buy_defined:
  assumes b: "fill_bounds px n e p"
  shows "\<exists>p'. apply_buy p (fill_qty e) (fill_price e) sq = Some p'"
proof -
  let ?q = "fill_qty e" and ?x = "fill_price e" and ?a = "avg_entry_price p" and ?k = "net_qty p"
  note P = fill_bounds_products [OF b]
  have rng: "0 \<le> ?q" "0 \<le> ?x" "?x \<le> px" "0 \<le> ?a" "?a \<le> px" "0 \<le> last_price p" "last_price p \<le> px"
      "\<bar>?k\<bar> + ?q \<le> n" "px * n \<le> 4611686018427387904" "n \<le> 4611686018427387904" "px \<le> 4611686018427387904"
      "\<bar>realized_pnl p\<bar> \<le> 4611686018427387903" "int32 (total_buy_qty p + ?q)"
    using b by (simp_all add: fill_bounds_def int32_def)
  have nq: "int64 (?k + ?q)" "int64 (- ?k)" using rng(1,8,10) by (auto simp: int64_def abs_if split: if_splits)
  have refresh: "\<exists>p'. refresh_unrealized (p\<lparr>total_buy_qty := total_buy_qty p + ?q, realized_pnl := r,
      net_qty := ?k + ?q, avg_entry_price := av\<rparr>) = Some p'" if "0 \<le> av" "av \<le> px" for av r
    by (rule refresh_defined [of _ px n]) (use that rng in simp_all)
  show ?thesis
  proof (cases "?k \<ge> 0")
    case True
    define av where "av = (if ?k + ?q > 0 then (?a * ?k + ?x * ?q) sdiv (?k + ?q) else 0)"
    have c: "int64 (?a * ?k)" "int64 (?x * ?q)" "int64 (?a * ?k + ?x * ?q)"
      using P(1,2) P(7) [of ?k] True rng(8) by (intro int64_abs; simp; linarith)+
    have av: "0 \<le> av" "av \<le> px" "?k + ?q > 0 \<Longrightarrow> int64 ((?a * ?k + ?x * ?q) sdiv (?k + ?q))"
      using mean_bounds(1) [OF True rng(1) _ rng(4,5,2,3)] P(4) int64_sdiv [OF c(3)] by (auto simp: av_def)
    have "\<exists>p'. refresh_unrealized (p\<lparr>total_buy_qty := total_buy_qty p + ?q, avg_entry_price := av,
        net_qty := ?k + ?q\<rparr>) = Some p'"
      by (rule refresh_defined [of _ px n]) (use av(1,2) rng in simp_all)
    then show ?thesis
      using True rng(13) nq c av(3) by (auto simp: apply_buy_def av_def i64_in_range i32_in_range)
  next
    case False
    define cover where "cover = (if ?q \<le> - ?k then ?q else - ?k)"
    define av where "av = (if ?k + ?q > 0 then ?x else if ?k + ?q = 0 then 0 else ?a)"
    have cov: "\<bar>cover\<bar> \<le> n" using False rng(1,8) by (simp add: cover_def)
    have d: "int64 (?a - ?x)" "int64 ((?a - ?x) * cover)" "int64 (realized_pnl p + (?a - ?x) * cover)"
      using P(3) P(6) [OF cov] rng(11,12) by (intro int64_abs; linarith)+
    have av: "0 \<le> av" "av \<le> px" using rng(2-5) P(4) by (auto simp: av_def)
    from refresh [OF av, of "realized_pnl p + (?a - ?x) * cover"] show ?thesis
      using False rng(13) nq d unfolding apply_buy_def cover_def av_def
      by (auto simp: i64_in_range i32_in_range Let_def)
  qed
qed

lemma sell_defined:
  assumes b: "fill_bounds px n e p"
  shows "\<exists>p'. apply_sell p (fill_qty e) (fill_price e) sq = Some p'"
proof -
  let ?q = "fill_qty e" and ?x = "fill_price e" and ?a = "avg_entry_price p" and ?k = "net_qty p"
  note P = fill_bounds_products [OF b]
  have rng: "0 \<le> ?q" "0 \<le> ?x" "?x \<le> px" "0 \<le> ?a" "?a \<le> px" "0 \<le> last_price p" "last_price p \<le> px"
      "\<bar>?k\<bar> + ?q \<le> n" "px * n \<le> 4611686018427387904" "n \<le> 4611686018427387904" "px \<le> 4611686018427387904"
      "\<bar>realized_pnl p\<bar> \<le> 4611686018427387903" "int32 (total_sell_qty p + ?q)"
    using b by (simp_all add: fill_bounds_def int32_def)
  have nq: "int64 (?k - ?q)" "int64 (- ?k)" "?k \<le> 0 \<Longrightarrow> int64 (- ?k + ?q)"
    using rng(1,8,10) by (auto simp: int64_def abs_if split: if_splits)
  have refresh: "\<exists>p'. refresh_unrealized (p\<lparr>total_sell_qty := total_sell_qty p + ?q, realized_pnl := r,
      net_qty := ?k - ?q, avg_entry_price := av\<rparr>) = Some p'" if "0 \<le> av" "av \<le> px" for av r
    by (rule refresh_defined [of _ px n]) (use that rng in simp_all)
  show ?thesis
  proof (cases "?k > 0")
    case True
    define cl where "cl = (if ?q \<le> ?k then ?q else ?k)"
    define av where "av = (if ?k - ?q < 0 then ?x else if ?k - ?q = 0 then 0 else ?a)"
    have cov: "\<bar>cl\<bar> \<le> n" using True rng(1,8) by (simp add: cl_def)
    have neg: "(?x - ?a) * cl = - ((?a - ?x) * cl)" by (simp add: algebra_simps)
    have d: "int64 (?x - ?a)" "int64 ((?x - ?a) * cl)" "int64 (realized_pnl p + (?x - ?a) * cl)"
      using P(3) P(6) [OF cov] rng(11,12) unfolding neg by (intro int64_abs; linarith)+
    have av: "0 \<le> av" "av \<le> px" using rng(2-5) P(4) by (auto simp: av_def)
    from refresh [OF av, of "realized_pnl p + (?x - ?a) * cl"] show ?thesis
      using True rng(13) nq(1) d unfolding apply_sell_def cl_def av_def
      by (auto simp: i64_in_range i32_in_range Let_def)
  next
    case False
    then have k: "0 \<le> - ?k" by simp
    define av where "av = (if - ?k + ?q > 0 then (?a * (- ?k) + ?x * ?q) sdiv (- ?k + ?q) else 0)"
    have "\<bar>?a * (- ?k)\<bar> \<le> 4611686018427387904" using P(1) by simp
    then have c: "int64 (?a * (- ?k))" "int64 (?x * ?q)" "int64 (?a * (- ?k) + ?x * ?q)"
      using P(2) P(7) [of "- ?k"] k rng(8) by (intro int64_abs; linarith)+
    have av: "0 \<le> av" "av \<le> px" "- ?k + ?q > 0 \<Longrightarrow> int64 ((?a * (- ?k) + ?x * ?q) sdiv (- ?k + ?q))"
      using mean_bounds(1) [OF k rng(1) _ rng(4,5,2,3)] P(4) int64_sdiv [OF c(3)] by (auto simp: av_def)
    have "\<exists>p'. refresh_unrealized (p\<lparr>total_sell_qty := total_sell_qty p + ?q, avg_entry_price := av,
        net_qty := ?k - ?q\<rparr>) = Some p'"
      by (rule refresh_defined [of _ px n]) (use av(1,2) rng in simp_all)
    then show ?thesis
      using False rng(13) nq c av(3) unfolding apply_sell_def av_def
      by (auto simp del: mult_minus_right simp: i64_in_range i32_in_range)
  qed
qed

lemma fill_defined: "fill_bounds px n e p \<Longrightarrow> \<exists>p'. fill_position e p = Some p'"
  by (simp add: fill_position_def buy_defined sell_defined)

section \<open>Runs of the table\<close>

lemma pt_apply_event_obtain:
  assumes "pt_ok pt" "event_ok e" "pt_spec e (pt_map pt) = Some m"
  obtains pt' where "pt_apply_event e pt = Some pt'" "pt_ok pt'" "pt_map pt' = m"
proof -
  from pt_apply_event_spec(1) [OF assms(1,2)] assms(3) obtain pt' where "pt_apply_event e pt = Some pt'" "pt_map pt' = m"
    by (auto simp: map_option_case split: option.splits)
  with pt_apply_event_spec(2) [OF assms(1,2)] that show thesis by blast
qed

text \<open>A run of fills of one symbol through the tracker is the run of fills on its position.\<close>

lemma pt_fills_run:
  assumes "foldm pt_apply_event es pt = Some pt'" "pt_ok pt" "es \<noteq> []"
    and "pt_map pt s \<noteq> None \<or> symbol_count pt < MAX_SYMBOLS"
    and "\<forall>e \<in> set es. event_ok e \<and> is_fill e \<and> event_symbol e = s"
  shows "\<exists>p. pt_map pt' s = Some p \<and> foldm fill_position es (position_or_fresh (pt_map pt) s) = Some p"
  using assms
proof (induction es arbitrary: pt)
  case Nil
  then show ?case by simp
next
  case (Cons e es)
  from Cons.prems(1) obtain pt1 where a: "pt_apply_event e pt = Some pt1" and r: "foldm pt_apply_event es pt1 = Some pt'"
    by (auto simp: Option.bind_eq_Some_conv)
  have e: "event_ok e" "is_fill e" "event_symbol e = s" using Cons.prems(5) by simp_all
  have "pt_spec e (pt_map pt) = Some (pt_map pt1)" using pt_apply_event_spec(1) [OF Cons.prems(2) e(1)] a by simp
  then obtain p where p: "fill_position e (position_or_fresh (pt_map pt) s) = Some p" "pt_map pt1 = (pt_map pt)(s \<mapsto> p)"
    using e Cons.prems(4) pt_okD(5) [OF Cons.prems(2)] by (auto simp: pt_spec_def symbol_count_def)
  show ?case
  proof (cases "es = []")
    case True
    with r p show ?thesis by simp
  next
    case False
    have "\<exists>p'. pt_map pt' s = Some p' \<and> foldm fill_position es (position_or_fresh (pt_map pt1) s) = Some p'"
      by (rule Cons.IH [OF r pt_apply_event_spec(2) [OF Cons.prems(2) e(1) a] False]) (use p(2) Cons.prems(5) in simp_all)
    with p show ?thesis by (simp add: position_or_fresh_def)
  qed
qed

section \<open>Sample fills\<close>

text \<open>One share bought at 1, one at 2, both sold at 2, in the smallest price unit.\<close>

definition sample_trades :: "order_event list" where
  "sample_trades = [sample_fill ''O1'' ''AAPL'' Buy 1 1, sample_fill ''O2'' ''AAPL'' Buy 1 2,
     sample_fill ''O3'' ''AAPL'' Sell 2 2]"

lemma sample_trades_ok: "\<forall>e \<in> set sample_trades. event_ok e \<and> is_fill e \<and> event_symbol e = ''AAPL'' \<and> 0 \<le> fill_qty e"
  by code_simp

lemma sample_trades_run:
  obtains pt where "foldm pt_apply_event sample_trades new_position_tracker = Some pt"
proof -
  have "foldm pt_apply_event sample_trades new_position_tracker \<noteq> None" by code_simp
  with that show thesis by auto
qed

lemma symbol_count_new [simp]: "symbol_count new_position_tracker < MAX_SYMBOLS"
  by (simp add: symbol_count_def new_position_tracker_def MAX_SYMBOLS_def)

lemma fresh_of_empty [simp]: "position_or_fresh Map.empty s = fresh_position s"
  by (simp add: position_or_fresh_def)

section \<open>Properties\<close>

text \<open>C6. The position table refines the map of positions: on every well-formed table and event,
  \<open>apply_event\<close> does to the array what \<open>pt_spec\<close> does to the map from symbols to positions, undefined
  behaviour by overflow included, and the table stays well formed. Well-formed means in particular
  that the net quantity is the quantity bought minus the quantity sold and that a flat position has
  neither an entry price nor an unrealized result.\<close>

theorem position_table_refines_map:
  assumes "pt_ok pt" "event_ok e"
  shows "map_option pt_map (pt_apply_event e pt) = pt_spec e (pt_map pt) \<and>
    (\<forall>pt'. pt_apply_event e pt = Some pt' \<longrightarrow> pt_ok pt')"
  using pt_apply_event_spec [OF assms] by blast

theorem position_table_refines_map_witness:
  "map_option pt_map (pt_apply_event (sample_fill ''O1'' ''AAPL'' Buy 1 1) new_position_tracker) =
     pt_spec (sample_fill ''O1'' ''AAPL'' Buy 1 1) Map.empty"
proof -
  have e: "event_ok (sample_fill ''O1'' ''AAPL'' Buy 1 1)" by code_simp
  show ?thesis using position_table_refines_map [OF pt_ok_new(1) e] by simp
qed

text \<open>In the positions rebuilt from any sequence of events, the net quantity is what was bought
  minus what was sold, and a flat position carries no entry price and no unrealized result.\<close>

lemma positions_balance:
  assumes "foldm pt_apply_event es new_position_tracker = Some pt" "\<forall>e \<in> set es. event_ok e"
    and "pt_get pt symb = Some (Some p)" "readable 8 (sv_data symb)"
  shows "net_qty p = total_buy_qty p - total_sell_qty p \<and>
    (is_flat p \<longrightarrow> avg_entry_price p = 0 \<and> unrealized_pnl p = 0) \<and>
    cstr 8 (p_symbol p) = cstr 8 (sv_data symb)"
proof -
  have ok: "pt_ok pt" by (rule pt_run_ok [OF assms(1) _ assms(2)]) simp
  have m: "pt_map pt (cstr 8 (sv_data symb)) = Some p" using pt_get_map [OF ok assms(4)] assms(3) by simp
  show ?thesis using pt_okD(2,6) [OF ok m] by (auto simp: position_ok_def is_flat_def)
qed

text \<open>C7. The books reconcile with the cash: after any run of fills of one symbol with non-negative
  quantities, starting from no position, the net quantity is the sum of the signed fills, and the
  realized result minus the cost of what is held differs from the cash paid and received by at most
  one price unit per share held after each fill.\<close>

theorem fills_reconcile_with_cash:
  assumes "foldm pt_apply_event es new_position_tracker = Some pt" "es \<noteq> []"
    and "\<forall>e \<in> set es. event_ok e \<and> is_fill e \<and> event_symbol e = s \<and> 0 \<le> fill_qty e"
  shows "\<exists>p. pt_map pt s = Some p \<and> net_qty p = sum_list (map signed_fill es) \<and>
    \<bar>realized_pnl p - avg_entry_price p * net_qty p - sum_list (map cash_flow es)\<bar> \<le> holding_path 0 es"
proof -
  obtain p where p: "pt_map pt s = Some p" "foldm fill_position es (fresh_position s) = Some p"
    using pt_fills_run [OF assms(1) _ assms(2), of s] assms(3) by auto
  have z: "net_qty (fresh_position s) = 0" "realized_pnl (fresh_position s) = 0"
    by (simp_all add: fresh_position_def zero_position_def)
  from fill_run_book_value [OF p(2)] assms(3) p(1) show ?thesis
    by (auto simp: z book_value_def)
qed

theorem fills_reconcile_with_cash_witness:
  "\<exists>pt p. foldm pt_apply_event sample_trades new_position_tracker = Some pt \<and> pt_map pt ''AAPL'' = Some p \<and>
    net_qty p = 0 \<and> \<bar>realized_pnl p - 1\<bar> \<le> 3"
proof -
  obtain pt where r: "foldm pt_apply_event sample_trades new_position_tracker = Some pt" by (rule sample_trades_run)
  have s: "sum_list (map signed_fill sample_trades) = 0" "sum_list (map cash_flow sample_trades) = 1"
      "holding_path 0 sample_trades = 3" "sample_trades \<noteq> []" by code_simp+
  from fills_reconcile_with_cash [OF r s(4), of "''AAPL''"] sample_trades_ok r s(1-3) show ?thesis by auto
qed

text \<open>The reconciliation is not exact, as the documentation of the fixed-point prices suggests: one
  share bought at 1 unit, one at 2 and both sold at 2 leave a flat position with a realized result of
  2 units, while the cash account gained 1. The truncated average entry price lost half a unit per
  share.\<close>

lemma truncated_average_misstates_pnl:
  "map_option (\<lambda>p. (is_flat p, realized_pnl p)) (foldm fill_position sample_trades (fresh_position ''AAPL'')) = Some (True, 2) \<and>
   sum_list (map cash_flow sample_trades) = 1"
  by code_simp

text \<open>A fill that reduces, closes or crosses a position is booked exactly: the change of the realized
  result minus the cost of the holding is the cash of the fill. Only a fill that adds to a position
  can lose to truncation, by at most one unit per share held afterwards.\<close>

lemma reducing_fill_is_exact:
  assumes "fill_position e p = Some p'" "0 \<le> fill_qty e"
  shows "if increases e p then \<bar>book_value p' - (book_value p + cash_flow e)\<bar> \<le> \<bar>net_qty p'\<bar>
    else book_value p' = book_value p + cash_flow e"
  using fill_book_value [OF assms] .

text \<open>C35. A fill is defined, with no overflow anywhere in it, when prices are non-negative and at most
  \<open>px\<close>, the position and the fill together hold at most \<open>n\<close> shares with \<open>px * n \<le> 2\<^sup>6\<^sup>2\<close>, the realized
  result is below \<open>2\<^sup>6\<^sup>2\<close> in absolute value, and the traded totals stay below \<open>2\<^sup>3\<^sup>1\<close>.\<close>

theorem fill_defined_within_bounds:
  assumes "fill_bounds px n e p"
  shows "\<exists>p'. fill_position e p = Some p'"
  using fill_defined [OF assms] .

theorem fill_defined_within_bounds_witness:
  "\<exists>p'. fill_position (sample_fill ''O1'' ''AAPL'' Buy 1000000 175000000) (fresh_position ''AAPL'') = Some p'"
proof -
  have "fill_bounds 1000000000 4000000000 (sample_fill ''O1'' ''AAPL'' Buy 1000000 175000000) (fresh_position ''AAPL'')"
    by code_simp
  from fill_defined_within_bounds [OF this] show ?thesis .
qed

text \<open>\<open>mark_to_market\<close> touches nothing but the marked price and the unrealized result of a position
  that is held, which becomes the market price minus the entry price times the net quantity; a symbol
  without a position, or with a flat one, is left alone.\<close>

lemma mark_to_market_effect:
  assumes "pt_ok pt" "readable 8 (sv_data symb)" "int64 mkt" "mark_to_market pt symb mkt = Some pt'"
  shows "pt_ok pt' \<and> pt_map pt' = (case pt_map pt (cstr 8 (sv_data symb)) of
      None \<Rightarrow> pt_map pt
    | Some p \<Rightarrow> if is_flat p then pt_map pt
        else (pt_map pt)(cstr 8 (sv_data symb) \<mapsto>
          p\<lparr>last_price := mkt, unrealized_pnl := (mkt - avg_entry_price p) * net_qty p\<rparr>))"
proof -
  have "(case pt_map pt (cstr 8 (sv_data symb)) of None \<Rightarrow> Some (pt_map pt)
      | Some p \<Rightarrow> map_option (\<lambda>p'. (pt_map pt)(cstr 8 (sv_data symb) \<mapsto> p')) (mark_position mkt p)) = Some (pt_map pt')"
    using mark_to_market_spec(1) [OF assms(1-3)] assms(4) by simp
  then show ?thesis
    using mark_to_market_spec(2) [OF assms]
    by (auto simp: mark_position_def Option.bind_eq_Some_conv fun_upd_idem split: option.splits if_splits)
qed

end
