(* ===== verification/RiskChecker.thy ===== *)
theory RiskChecker
  imports Order_Lifecycle Position_Accounting
begin

text \<open>
  \<open>include/RiskChecker.h\<close>: the pre-trade checks. \<open>check\<close> has three overloads: against the tracker and
  the order manager (\<open>check_full\<close>), against a position that may be absent (\<open>check_position\<close>), and
  against the tracker alone (\<open>check_tracker\<close>). \<open>verdict\<close> is the decision they take once the filled
  and the pending quantities are known.
\<close>

datatype risk_result =
  Pass | FailMaxQty | FailMaxNotional | FailPositionLimit | FailMaxLoss | FailPositionCross
  | RiskResult_other "8 word"

fun risk_result_to_string :: "risk_result \<Rightarrow> string" where
  "risk_result_to_string Pass = ''PASS''"
| "risk_result_to_string FailMaxQty = ''FAIL_MAX_QTY''"
| "risk_result_to_string FailMaxNotional = ''FAIL_MAX_NOTIONAL''"
| "risk_result_to_string FailPositionLimit = ''FAIL_POSITION_LIMIT''"
| "risk_result_to_string FailMaxLoss = ''FAIL_MAX_LOSS''"
| "risk_result_to_string FailPositionCross = ''FAIL_POSITION_CROSS''"
| "risk_result_to_string (RiskResult_other _) = ''UNKNOWN''"

record risk_limits =
  max_order_qty :: int
  max_order_notional :: int
  max_net_position :: int
  max_loss_fp :: int
  allow_position_cross :: bool

definition default_limits :: risk_limits where
  "default_limits = \<lparr>max_order_qty = 10000, max_order_notional = 5000000 * PRICE_SCALE,
     max_net_position = 50000, max_loss_fp = 100000 * PRICE_SCALE, allow_position_cross = False\<rparr>"

record risk_checker =
  limits :: risk_limits

definition new_risk_checker :: "risk_limits \<Rightarrow> risk_checker" where
  "new_risk_checker l = \<lparr>limits = l\<rparr>"

definition set_limits :: "risk_limits \<Rightarrow> risk_checker \<Rightarrow> risk_checker" where
  "set_limits l rc = rc\<lparr>limits := l\<rparr>"

text \<open>Three expressions the overloads share: the signed quantity of the order, the comparison with
  the position limit on both sides, and the loss limit.\<close>

definition order_delta :: "side \<Rightarrow> int \<Rightarrow> int option" where
  "order_delta sd q = (if sd = Buy then Some q else i32 (- q))"

definition outside_limit :: "risk_limits \<Rightarrow> int \<Rightarrow> bool option" where
  "outside_limit lms projected =
     (if projected > max_net_position lms then Some True
      else do { lo \<leftarrow> i64 (- max_net_position lms); Some (projected < lo) })"

definition loss_check :: "risk_limits \<Rightarrow> position \<Rightarrow> risk_result option" where
  "loss_check lms p = do {
     floor_fp \<leftarrow> i64 (- max_loss_fp lms);
     Some (if realized_pnl p < floor_fp then FailMaxLoss else Pass) }"

definition check_full ::
  "risk_checker \<Rightarrow> string_view \<Rightarrow> side \<Rightarrow> int \<Rightarrow> int \<Rightarrow> position_tracker \<Rightarrow> order_manager \<Rightarrow> risk_result option" where
  "check_full rc symb sd q price_fp tracker orders =
     (let lms = limits rc in
      if q > max_order_qty lms then Some FailMaxQty
      else do {
        notional \<leftarrow> i64 (q * price_fp);
        if notional > max_order_notional lms then Some FailMaxNotional
        else do {
          pos \<leftarrow> pt_get tracker symb;
          let filled = (case pos of Some p \<Rightarrow> net_qty p | None \<Rightarrow> 0);
          pending \<leftarrow> open_exposure orders symb;
          true_qty \<leftarrow> i64 (filled + pending);
          d \<leftarrow> order_delta sd q;
          projected \<leftarrow> i64 (true_qty + d);
          beyond \<leftarrow> outside_limit lms projected;
          if beyond then Some FailPositionLimit
          else if \<not> allow_position_cross lms \<and>
              (true_qty > 0 \<and> projected < 0 \<or> true_qty < 0 \<and> projected > 0)
            then Some FailPositionCross
          else (case pos of
              None \<Rightarrow> Some Pass
            | Some p \<Rightarrow> loss_check lms p) } })"

definition check_position ::
  "risk_checker \<Rightarrow> string_view \<Rightarrow> side \<Rightarrow> int \<Rightarrow> int \<Rightarrow> position option \<Rightarrow> risk_result option" where
  "check_position rc symb sd q price_fp pos =
     (let lms = limits rc in
      if q > max_order_qty lms then Some FailMaxQty
      else do {
        notional \<leftarrow> i64 (q * price_fp);
        if notional > max_order_notional lms then Some FailMaxNotional
        else (case pos of
            None \<Rightarrow> Some Pass
          | Some p \<Rightarrow> do {
              d \<leftarrow> order_delta sd q;
              projected \<leftarrow> i64 (net_qty p + d);
              beyond \<leftarrow> outside_limit lms projected;
              if beyond then Some FailPositionLimit
              else if \<not> allow_position_cross lms \<and>
                  (net_qty p > 0 \<and> projected < 0 \<or> net_qty p < 0 \<and> projected > 0)
                then Some FailPositionCross
              else loss_check lms p }) })"

definition check_tracker ::
  "risk_checker \<Rightarrow> string_view \<Rightarrow> side \<Rightarrow> int \<Rightarrow> int \<Rightarrow> position_tracker \<Rightarrow> risk_result option" where
  "check_tracker rc symb sd q price_fp tracker = do {
     pos \<leftarrow> pt_get tracker symb;
     check_position rc symb sd q price_fp pos }"

section \<open>The decision\<close>

definition signed_qty :: "side \<Rightarrow> int \<Rightarrow> int" where
  "signed_qty sd q = (if sd = Buy then q else - q)"

definition crosses :: "int \<Rightarrow> int \<Rightarrow> bool" where
  "crosses now next_qty \<longleftrightarrow> now > 0 \<and> next_qty < 0 \<or> now < 0 \<and> next_qty > 0"

text \<open>The decision on exact integers: the quantity already committed, filled and pending, and the
  realized result of the position if there is one.\<close>

definition verdict :: "risk_limits \<Rightarrow> side \<Rightarrow> int \<Rightarrow> int \<Rightarrow> int \<Rightarrow> int option \<Rightarrow> risk_result" where
  "verdict lms sd q px committed pnl =
     (if q > max_order_qty lms then FailMaxQty
      else if q * px > max_order_notional lms then FailMaxNotional
      else if \<bar>committed + signed_qty sd q\<bar> > max_net_position lms then FailPositionLimit
      else if \<not> allow_position_cross lms \<and> crosses committed (committed + signed_qty sd q)
        then FailPositionCross
      else if (case pnl of None \<Rightarrow> False | Some r \<Rightarrow> r < - max_loss_fp lms) then FailMaxLoss
      else Pass)"

text \<open>The quantity committed to a symbol: the net position and the open orders.\<close>

definition net_of :: "position_tracker \<Rightarrow> string \<Rightarrow> int" where
  "net_of pt s = (case pt_map pt s of Some p \<Rightarrow> net_qty p | None \<Rightarrow> 0)"

definition committed :: "position_tracker \<Rightarrow> order_manager \<Rightarrow> string \<Rightarrow> int" where
  "committed pt om s = net_of pt s + exposure_of (om_map om) s"

lemma order_delta_Some: "order_delta sd q = Some d \<longleftrightarrow> d = signed_qty sd q \<and> (sd \<noteq> Buy \<longrightarrow> int32 (- q))"
  by (auto simp: order_delta_def signed_qty_def)

lemma outside_limit_Some:
  "outside_limit lms x = Some b \<longleftrightarrow> (b \<longleftrightarrow> max_net_position lms < \<bar>x\<bar>) \<and>
     (max_net_position lms < x \<or> int64 (- max_net_position lms))"
  by (auto simp: outside_limit_def Option.bind_eq_Some_conv)

lemma loss_check_Some:
  "loss_check lms p = Some r \<longleftrightarrow> r = (if realized_pnl p < - max_loss_fp lms then FailMaxLoss else Pass) \<and>
     int64 (- max_loss_fp lms)"
  by (auto simp: loss_check_def Option.bind_eq_Some_conv)

lemmas check_parts = order_delta_Some outside_limit_Some loss_check_Some

text \<open>Both overloads end in the same decision on the quantity they take as committed.\<close>

lemma decision_verdict:
  assumes "\<not> q > max_order_qty lms" "\<not> q * px > max_order_notional lms" "y = x + signed_qty sd q"
    and "(if max_net_position lms < \<bar>y\<bar> then Some FailPositionLimit
      else if \<not> allow_position_cross lms \<and> (x > 0 \<and> y < 0 \<or> x < 0 \<and> y > 0) then Some FailPositionCross
      else (case pos of None \<Rightarrow> Some Pass | Some p \<Rightarrow> loss_check lms p)) = Some res"
  shows "res = verdict lms sd q px x (map_option realized_pnl pos)"
  using assms(4) unfolding verdict_def crosses_def assms(3)
  by (cases pos) (simp_all add: assms(1,2) loss_check_Some split: if_split_asm)

lemma check_full_verdict:
  assumes ok: "pt_ok pt" "om_ok om" and r: "readable 8 (sv_data symb)"
    and chk: "check_full rc symb sd q px pt om = Some res"
  shows "res = verdict (limits rc) sd q px (committed pt om (cstr 8 (sv_data symb)))
    (map_option realized_pnl (pt_map pt (cstr 8 (sv_data symb))))"
proof (cases "q > max_order_qty (limits rc) \<or> q * px > max_order_notional (limits rc)")
  case True
  with chk show ?thesis
    unfolding check_full_def Let_def
    by (cases "q > max_order_qty (limits rc)") (simp_all add: verdict_def Option.bind_eq_Some_conv)
next
  case False
  let ?lms = "limits rc" and ?pos = "pt_map pt (cstr 8 (sv_data symb))"
  from False chk obtain ex b where ex: "open_exposure om symb = Some ex"
    and d: "outside_limit ?lms (committed pt om (cstr 8 (sv_data symb)) + signed_qty sd q) = Some b"
    and rest: "(if b then Some FailPositionLimit
      else if \<not> allow_position_cross ?lms \<and>
          (committed pt om (cstr 8 (sv_data symb)) > 0 \<and> committed pt om (cstr 8 (sv_data symb)) + signed_qty sd q < 0 \<or>
           committed pt om (cstr 8 (sv_data symb)) < 0 \<and> committed pt om (cstr 8 (sv_data symb)) + signed_qty sd q > 0)
        then Some FailPositionCross
      else (case ?pos of None \<Rightarrow> Some Pass | Some p \<Rightarrow> loss_check ?lms p)) = Some res"
    unfolding check_full_def Let_def pt_get_map [OF ok(1) r] committed_def net_of_def
    using open_exposure_eq [OF ok(2) r]
    by (simp add: Option.bind_eq_Some_conv order_delta_Some) metis
  show ?thesis
    by (rule decision_verdict [OF _ _ refl])
      (use False rest d in \<open>simp_all add: outside_limit_Some\<close>)
qed

lemma check_position_verdict:
  "check_position rc symb sd q px (Some p) = Some res \<Longrightarrow>
     res = verdict (limits rc) sd q px (net_qty p) (Some (realized_pnl p))"
proof (cases "q > max_order_qty (limits rc) \<or> q * px > max_order_notional (limits rc)")
  case True
  assume "check_position rc symb sd q px (Some p) = Some res"
  with True show ?thesis
    unfolding check_position_def Let_def
    by (cases "q > max_order_qty (limits rc)") (simp_all add: verdict_def Option.bind_eq_Some_conv)
next
  case False
  assume "check_position rc symb sd q px (Some p) = Some res"
  with False have "(if max_net_position (limits rc) < \<bar>net_qty p + signed_qty sd q\<bar> then Some FailPositionLimit
      else if \<not> allow_position_cross (limits rc) \<and>
          (net_qty p > 0 \<and> net_qty p + signed_qty sd q < 0 \<or> net_qty p < 0 \<and> net_qty p + signed_qty sd q > 0)
        then Some FailPositionCross
      else loss_check (limits rc) p) = Some res"
    by (simp add: check_position_def Let_def Option.bind_eq_Some_conv order_delta_Some outside_limit_Some
        split del: if_split)
  from decision_verdict [where pos = "Some p", unfolded option.case, OF _ _ refl this] False show ?thesis by simp
qed

text \<open>What passing means, limit by limit.\<close>

lemma verdict_Pass:
  "verdict lms sd q px c pnl = Pass \<longleftrightarrow>
     q \<le> max_order_qty lms \<and> q * px \<le> max_order_notional lms \<and>
     \<bar>c + signed_qty sd q\<bar> \<le> max_net_position lms \<and>
     (allow_position_cross lms \<or> \<not> crosses c (c + signed_qty sd q)) \<and>
     (\<forall>v. pnl = Some v \<longrightarrow> - max_loss_fp lms \<le> v)"
  by (auto simp: verdict_def split: option.splits)

section \<open>When a check is defined\<close>

definition limits_ok :: "risk_limits \<Rightarrow> bool" where
  "limits_ok lms \<longleftrightarrow> int32 (max_order_qty lms) \<and> int64 (max_order_notional lms) \<and>
     int64 (max_net_position lms) \<and> 0 \<le> max_net_position lms \<and>
     int64 (max_loss_fp lms) \<and> 0 \<le> max_loss_fp lms"

text \<open>The check returns a verdict when the notional fits, the quantity is not the smallest 32-bit
  value, the open exposure can be summed and the committed quantity leaves room for the order.\<close>

lemma check_full_defined:
  assumes ok: "pt_ok pt" "om_ok om" "limits_ok (limits rc)" and r: "readable 8 (sv_data symb)"
    and q: "\<bar>q\<bar> \<le> 2147483647" and n: "int64 (q * px)" and ex: "open_exposure om symb = Some ex"
    and c: "\<bar>committed pt om (cstr 8 (sv_data symb))\<bar> \<le> 9223372034707292160"
  shows "\<exists>res. check_full rc symb sd q px pt om = Some res"
proof -
  define net where "net = net_of pt (cstr 8 (sv_data symb))"
  have e: "ex = exposure_of (om_map om) (cstr 8 (sv_data symb))"
    by (rule open_exposure_eq [OF ok(2) r ex])
  have d: "order_delta sd q = Some (signed_qty sd q)" "\<bar>signed_qty sd q\<bar> = \<bar>q\<bar>"
    using q by (auto simp: order_delta_Some signed_qty_def int32_def)
  have i: "int64 (net + ex)" "int64 (net + ex + signed_qty sd q)"
    using c q d(2) unfolding committed_def net_def e int64_def by linarith+
  have out: "outside_limit (limits rc) x = Some (max_net_position (limits rc) < \<bar>x\<bar>)" for x
    using ok(3) by (auto simp: outside_limit_Some limits_ok_def int64_def)
  have loss: "\<exists>res. loss_check (limits rc) p = Some res" for p
    using ok(3) by (auto simp: loss_check_Some limits_ok_def int64_def)
  show ?thesis
    using n ex d(1) i out loss unfolding check_full_def Let_def pt_get_map [OF ok(1) r] net_def net_of_def
    by (cases "pt_map pt (cstr 8 (sv_data symb))") (simp_all add: i64_in_range)
qed

section \<open>Properties\<close>

text \<open>C8. The check against positions and open orders takes exactly the documented decision: whenever it
  returns, its verdict is the one of \<open>verdict\<close>, on exact integers, for the quantity committed to the
  symbol, that is the net position plus the signed open quantities of all its orders.\<close>

theorem check_takes_verdict:
  assumes "pt_ok pt" "om_ok om" "readable 8 (sv_data symb)" "check_full rc symb sd q px pt om = Some res"
  shows "res = verdict (limits rc) sd q px (committed pt om (cstr 8 (sv_data symb)))
    (map_option realized_pnl (pt_map pt (cstr 8 (sv_data symb))))"
  using check_full_verdict [OF assms] .

theorem check_takes_verdict_witness:
  "check_full (new_risk_checker default_limits) (sv_of ''AAPL'') Buy 20000 1 new_position_tracker new_order_manager
     = Some FailMaxQty \<and>
   verdict default_limits Buy 20000 1 (committed new_position_tracker new_order_manager ''AAPL'') None = FailMaxQty"
proof -
  have c: "check_full (new_risk_checker default_limits) (sv_of ''AAPL'') Buy 20000 1 new_position_tracker new_order_manager
      = Some FailMaxQty" by code_simp
  moreover have "cstr 8 (c_str ''AAPL'') = ''AAPL''" by code_simp
  ultimately show ?thesis
    using check_takes_verdict [OF pt_ok_new(1) om_ok_new(1) _ c] by (simp add: new_risk_checker_def)
qed

text \<open>C9. The check returns a verdict, with no overflow, when the limits are non-negative, the notional
  fits 64 bits, the quantity is not the smallest 32-bit number, the open exposure can be summed and
  the committed quantity leaves room for one more order. It passes exactly the orders that respect the
  order size, the notional, the position limit on both sides, the ban on crossing zero and the loss
  limit.\<close>

theorem check_passes_exactly_within_limits:
  assumes "pt_ok pt" "om_ok om" "limits_ok (limits rc)" "readable 8 (sv_data symb)"
    and "\<bar>q\<bar> \<le> 2147483647" "int64 (q * px)" "open_exposure om symb = Some ex"
    and "\<bar>committed pt om (cstr 8 (sv_data symb))\<bar> \<le> 9223372034707292160"
  shows "\<exists>res. check_full rc symb sd q px pt om = Some res \<and>
    (res = Pass \<longleftrightarrow>
       q \<le> max_order_qty (limits rc) \<and> q * px \<le> max_order_notional (limits rc) \<and>
       \<bar>committed pt om (cstr 8 (sv_data symb)) + signed_qty sd q\<bar> \<le> max_net_position (limits rc) \<and>
       (allow_position_cross (limits rc) \<or>
         \<not> crosses (committed pt om (cstr 8 (sv_data symb))) (committed pt om (cstr 8 (sv_data symb)) + signed_qty sd q)) \<and>
       (\<forall>p. pt_map pt (cstr 8 (sv_data symb)) = Some p \<longrightarrow> - max_loss_fp (limits rc) \<le> realized_pnl p))"
proof -
  obtain res where r: "check_full rc symb sd q px pt om = Some res"
    using check_full_defined [OF assms] by blast
  have "res = Pass \<longleftrightarrow> verdict (limits rc) sd q px (committed pt om (cstr 8 (sv_data symb)))
      (map_option realized_pnl (pt_map pt (cstr 8 (sv_data symb)))) = Pass"
    using check_full_verdict [OF assms(1,2,4) r] by simp
  then show ?thesis unfolding verdict_Pass using r by auto
qed

theorem check_passes_exactly_within_limits_witness:
  "check_full (new_risk_checker default_limits) (sv_of ''AAPL'') Buy 100 175000000 new_position_tracker new_order_manager
     = Some Pass"
proof -
  let ?rc = "new_risk_checker default_limits" and ?s = "sv_of ''AAPL''"
  have l: "limits_ok (limits ?rc)" "\<bar>100 :: int\<bar> \<le> 2147483647" "int64 (100 * 175000000)"
      "open_exposure new_order_manager ?s = Some 0" by code_simp+
  have c: "committed new_position_tracker new_order_manager k = 0" for k
    by (simp add: committed_def net_of_def exposure_of_def)
  have v: "max_order_qty (limits ?rc) = 10000" "max_order_notional (limits ?rc) = 5000000000000"
      "max_net_position (limits ?rc) = 50000" by code_simp+
  show ?thesis
    using check_passes_exactly_within_limits [OF pt_ok_new(1) om_ok_new(1) l(1) _ l(2-4), of Buy] c v
    by (auto simp: crosses_def signed_qty_def)
qed

text \<open>With no open order of the symbol, the check against a known position decides as the full check
  does.\<close>

lemma position_check_agrees:
  assumes "pt_ok pt" "om_ok om" "readable 8 (sv_data symb)" "pt_map pt (cstr 8 (sv_data symb)) = Some p"
    and "exposure_of (om_map om) (cstr 8 (sv_data symb)) = 0"
    and "check_full rc symb sd q px pt om = Some r1" "check_tracker rc symb sd q px pt = Some r2"
  shows "r1 = r2"
proof -
  have "check_position rc symb sd q px (Some p) = Some r2"
    using assms(7) pt_get_map [OF assms(1,3)] assms(4) by (simp add: check_tracker_def)
  from check_position_verdict [OF this] check_full_verdict [OF assms(1-3,6)] assms(4,5) show ?thesis
    by (simp add: committed_def net_of_def)
qed

text \<open>The two overloads that take only positions skip the position limit for a symbol with no
  position yet: with nothing filled and nothing open, an order larger than the net position limit
  passes there, while the full check refuses it.\<close>

lemma first_order_skips_position_limit:
  assumes "pt_ok pt" "om_ok om" "limits_ok (limits rc)" "readable 8 (sv_data symb)"
    and "pt_map pt (cstr 8 (sv_data symb)) = None" "open_exposure om symb = Some 0"
    and "max_net_position (limits rc) < q" "q \<le> max_order_qty (limits rc)" "q \<le> 2147483647"
    and "int64 (q * px)" "q * px \<le> max_order_notional (limits rc)"
  shows "check_tracker rc symb Buy q px pt = Some Pass \<and> check_full rc symb Buy q px pt om = Some FailPositionLimit"
proof -
  have q: "\<bar>q\<bar> \<le> 2147483647" using assms(3,7,9) by (simp add: limits_ok_def)
  have c: "committed pt om (cstr 8 (sv_data symb)) = 0"
    using open_exposure_eq [OF assms(2,4,6)] assms(5) by (simp add: committed_def net_of_def)
  obtain res where r: "check_full rc symb Buy q px pt om = Some res"
    using check_full_defined [OF assms(1-4) q assms(10,6)] c by auto
  have "res = FailPositionLimit"
    unfolding check_full_verdict [OF assms(1,2,4) r] using c assms(3,7,8,11)
    by (simp add: verdict_def signed_qty_def limits_ok_def)
  moreover have "check_tracker rc symb Buy q px pt = Some Pass"
    using assms(5,8,10,11) by (simp add: check_tracker_def pt_get_map [OF assms(1,4)] check_position_def i64_in_range)
  ultimately show ?thesis using r by simp
qed

text \<open>Only the upper side of the order size is checked: for a negative quantity the size and the
  notional limits never fail at a non-negative price, however large the quantity is, and a negative
  buy counts as a sell.\<close>

lemma negative_quantity_passes_size_limits:
  assumes "limits_ok (limits rc)" "0 \<le> max_order_qty (limits rc)" "0 \<le> max_order_notional (limits rc)" "q < 0" "0 \<le> px"
  shows "verdict (limits rc) sd q px c pnl \<notin> {FailMaxQty, FailMaxNotional} \<and> signed_qty Buy q = - \<bar>q\<bar>"
proof -
  have "q * px \<le> 0" using assms(4,5) by (simp add: mult_nonpos_nonneg)
  with assms(2-4) show ?thesis by (auto simp: verdict_def signed_qty_def split: option.splits)
qed

end
