(* ===== verification/MessageTranslator.thy ===== *)
theory MessageTranslator
  imports OrderEvent
begin

text \<open>
  \<open>gateway/MessageTranslator.h\<close>: the translation between FIX messages and events, and the
  conversion between fixed-point prices and doubles.

  QuickFIX is not part of the repository. An inbound report is a value of a type \<open>'r\<close> together with
  the accessors the translator calls on it, which return the field or throw; the accessors are a
  parameter. An outbound message is what the translator put into it, a map from tags to values.
\<close>

section \<open>Inbound reports\<close>

record 'r report_api =
  get_ExecType :: "'r \<Rightarrow> cpp_exn + char"
  get_Symbol :: "'r \<Rightarrow> cpp_exn + string"
  get_ClOrdID :: "'r \<Rightarrow> cpp_exn + string"
  get_Side :: "'r \<Rightarrow> cpp_exn + char"
  isSet_LastShares :: "'r \<Rightarrow> bool"
  isSet_LastPx :: "'r \<Rightarrow> bool"
  get_LastShares :: "'r \<Rightarrow> cpp_exn + double"
  get_LastPx :: "'r \<Rightarrow> cpp_exn + double"

definition to_fixed :: "double \<Rightarrow> int option" where
  "to_fixed p = d_to_i64 (d_mul p (of_int PRICE_SCALE))"

definition from_fixed :: "int \<Rightarrow> double" where
  "from_fixed price_fp = d_div (d_of_int price_fp) (of_int PRICE_SCALE)"

text \<open>Sequencing of calls that may throw inside code that may be undefined.\<close>

definition try_bind :: "(cpp_exn + 'a) \<Rightarrow> ('a \<Rightarrow> (cpp_exn + 'b) option) \<Rightarrow> (cpp_exn + 'b) option" where
  "try_bind x k = (case x of Inl ex \<Rightarrow> Some (Inl ex) | Inr v \<Rightarrow> k v)"

text \<open>The \<open>switch\<close> on \<open>ExecType\<close>, with the values of FIX 4.2: \<open>'1'\<close> partial fill, \<open>'2'\<close> fill,
  \<open>'4'\<close> canceled, \<open>'8'\<close> rejected, \<open>'0'\<close> new.\<close>

definition event_type_of_exec :: "char \<Rightarrow> event_type option" where
  "event_type_of_exec c =
     (if c = CHR ''1'' then Some PartialFill
      else if c = CHR ''2'' then Some FullFill
      else if c = CHR ''4'' then Some Cancel
      else if c = CHR ''8'' then Some Reject
      else if c = CHR ''0'' then None
      else None)"

definition fill_fields :: "'r report_api \<Rightarrow> 'r \<Rightarrow> order_event \<Rightarrow> (cpp_exn + order_event option) option" where
  "fill_fields api r evt =
     (if etype evt = PartialFill \<or> etype evt = FullFill then
        if isSet_LastShares api r \<and> isSet_LastPx api r then
          try_bind (get_LastShares api r) (\<lambda>last_qty.
          try_bind (get_LastPx api r) (\<lambda>last_px. do {
            fq \<leftarrow> d_to_i32 last_qty;
            fp \<leftarrow> to_fixed last_px;
            Some (Inr (Some (evt\<lparr>fill_qty := fq, fill_price := fp\<rparr>))) }))
        else Some (Inr (Some evt))
      else Some (Inr (Some evt)))"

definition from_execution_report :: "'r report_api \<Rightarrow> 'r \<Rightarrow> (cpp_exn + order_event option) option" where
  "from_execution_report api r =
     try_bind (get_ExecType api r) (\<lambda>exec_type.
       case event_type_of_exec exec_type of
         None \<Rightarrow> Some (Inr None)
       | Some et \<Rightarrow>
           let evt = zero_event\<lparr>etype := et\<rparr> in
           try_bind (get_Symbol api r) (\<lambda>symb. do {
             s \<leftarrow> strncpy (c_str symb) 8;
             let evt1 = evt\<lparr>symbol := s\<rparr>;
             try_bind (get_ClOrdID api r) (\<lambda>oid. do {
               i \<leftarrow> strncpy (c_str oid) 8;
               let evt2 = evt1\<lparr>order_id := i\<rparr>;
               try_bind (get_Side api r) (\<lambda>sd.
                 let evt3 = evt2\<lparr>side := (if sd = CHR ''1'' then Buy else Sell)\<rparr>
                 in fill_fields api r evt3) }) }))"

section \<open>Outbound messages\<close>

datatype fix_value = F_String string | F_Char char | F_Double double | F_TransactTime

record fix_message =
  msg_type :: string
  msg_fields :: "nat \<Rightarrow> fix_value option"

text \<open>The tags of the fields the program sets: ClOrdID 11, HandlInst 21, OrderQty 38, OrdType 40,
  OrigClOrdID 41, Price 44, Side 54, Symbol 55, TimeInForce 59, TransactTime 60.\<close>

definition set_field :: "nat \<Rightarrow> fix_value \<Rightarrow> fix_message \<Rightarrow> fix_message" where
  "set_field tag v m = m\<lparr>msg_fields := (msg_fields m)(tag \<mapsto> v)\<rparr>"

definition remove_field :: "nat \<Rightarrow> fix_message \<Rightarrow> fix_message" where
  "remove_field tag m = m\<lparr>msg_fields := (msg_fields m)(tag := None)\<rparr>"

definition fix_side :: "side \<Rightarrow> char" where
  "fix_side sd = (if sd = Buy then CHR ''1'' else CHR ''2'')"

definition to_new_order_single :: "order_event \<Rightarrow> fix_message" where
  "to_new_order_single evt =
     (let m = \<lparr>msg_type = ''D'', msg_fields = [
          11 \<mapsto> F_String (take (strnlen (order_id evt) 8) (order_id evt)),
          21 \<mapsto> F_Char CHR ''1'',
          55 \<mapsto> F_String (take (strnlen (symbol evt) 8) (symbol evt)),
          54 \<mapsto> F_Char (fix_side (side evt)),
          60 \<mapsto> F_TransactTime,
          40 \<mapsto> F_Char CHR ''2'']\<rparr>;
          m1 = set_field 38 (F_Double (d_of_int (qty evt))) m;
          m2 = set_field 44 (F_Double (from_fixed (price evt))) m1
      in set_field 59 (F_Char CHR ''0'') m2)"

definition to_cancel_request :: "order_event \<Rightarrow> string \<Rightarrow> fix_message" where
  "to_cancel_request original new_cl_ord_id =
     \<lparr>msg_type = ''F'', msg_fields = [
        41 \<mapsto> F_String (take (strnlen (order_id original) 8) (order_id original)),
        11 \<mapsto> F_String new_cl_ord_id,
        55 \<mapsto> F_String (take (strnlen (symbol original) 8) (symbol original)),
        54 \<mapsto> F_Char (fix_side (side original)),
        60 \<mapsto> F_TransactTime]\<rparr>"

section \<open>Fixed point and doubles\<close>

text \<open>A price below \<open>2\<^sup>5\<^sup>1\<close> units (about two billion dollars) survives the way to a double and back
  up to one unit: the result is the price itself or one unit closer to zero.\<close>

lemma rnd_small: "\<bar>x\<bar> \<le> 2 ^ 60 \<Longrightarrow> 2 powi (- 1022) \<le> \<bar>x\<bar> \<Longrightarrow> round64 x = Finite (rnd x)"
proof (rule round64_rnd)
  assume x: "\<bar>x\<bar> \<le> 2 ^ 60" "2 powi (- 1022) \<le> \<bar>x\<bar>"
  have "\<bar>rnd x\<bar> \<le> \<bar>x\<bar> + \<bar>x\<bar> / 2 ^ 53" using rnd_error [OF x(2)] by linarith
  also have "\<dots> \<le> 2 ^ 61" using x(1) by simp
  also have "\<dots> < (2::rat) ^ 1024" by (rule power_strict_increasing) auto
  finally show "\<bar>rnd x\<bar> < 2 ^ 1024" .
qed

lemma normal_range: "2 powi (- 100) \<le> \<bar>x\<bar> \<Longrightarrow> 2 powi (- 1022) \<le> \<bar>x :: rat\<bar>"
proof (rule order_trans)
  show "(2::rat) powi (- 1022) \<le> 2 powi (- 100)" by (intro power_int_increasing) auto
qed

lemma from_fixed_Finite:
  assumes "p \<noteq> 0" "\<bar>p\<bar> \<le> 2 ^ 51"
  shows "from_fixed p = Finite (rnd (of_int p / 1000000))"
    "\<bar>rnd (of_int p / 1000000) - of_int p / 1000000\<bar> \<le> \<bar>of_int p / 1000000\<bar> / 2 ^ 53"
proof -
  have p: "1 \<le> \<bar>of_int p :: rat\<bar>" "\<bar>of_int p :: rat\<bar> \<le> 2 ^ 51"
    using assms by (simp_all add: of_int_abs [symmetric] del: of_int_abs)
  have "d_of_int p = Finite (of_int p)"
    using rnd_small [of "of_int p"] normal_range [of "of_int p"] rnd_of_int [of p] p assms
    by (simp add: d_of_int_def)
  moreover have n: "2 powi (- 1022) \<le> \<bar>of_int p / 1000000 :: rat\<bar>"
    by (rule normal_range) (use p(1) in \<open>simp add: abs_divide field_simps\<close>)
  moreover have "round64 (of_int p / 1000000) = Finite (rnd (of_int p / 1000000))"
    by (rule rnd_small [OF _ n]) (use p(2) in \<open>simp add: abs_divide\<close>)
  ultimately show "from_fixed p = Finite (rnd (of_int p / 1000000))"
    by (simp add: from_fixed_def d_div_def PRICE_SCALE_def)
  show "\<bar>rnd (of_int p / 1000000) - of_int p / 1000000\<bar> \<le> \<bar>of_int p / 1000000\<bar> / 2 ^ 53"
    by (rule rnd_error [OF n])
qed

lemma trunc_near:
  fixes y :: rat
  assumes "\<bar>y - of_int p\<bar> < 1" "p \<noteq> 0"
  shows "trunc y = p \<or> trunc y = p - sgn p"
proof (cases "0 < p")
  case True
  then have "1 \<le> (of_int p :: rat)" by simp
  with assms have y: "0 \<le> y" by linarith
  have "of_int (p - 1) < (of_int (trunc y + 1) :: rat)" "of_int (trunc y) < (of_int (p + 1) :: rat)"
    unfolding of_int_add of_int_diff of_int_1 using trunc_bounds(1) [OF y] assms(1) by linarith+
  then have "p - 1 < trunc y + 1" "trunc y < p + 1" by (simp_all only: of_int_less_iff)
  with True show ?thesis by auto
next
  case False
  with assms(2) have "p < 0" by simp
  then have "(of_int p :: rat) \<le> of_int (- 1)" by (simp only: of_int_le_iff)
  with assms(1) have y: "y \<le> 0" by simp
  have "of_int (p - 1) < (of_int (trunc y) :: rat)" "of_int (trunc y - 1) < (of_int (p + 1) :: rat)"
    unfolding of_int_add of_int_diff of_int_1 using trunc_bounds(2) [OF y] assms(1) by linarith+
  then have "p - 1 < trunc y" "trunc y - 1 < p + 1" by (simp_all only: of_int_less_iff)
  with \<open>p < 0\<close> show ?thesis by auto
qed

lemma fixed_round_trip:
  assumes "p \<noteq> 0" "\<bar>p\<bar> \<le> 2 ^ 51"
  shows "to_fixed (from_fixed p) = Some p \<or> to_fixed (from_fixed p) = Some (p - sgn p)"
proof -
  define x where "x = rnd (of_int p / 1000000)"
  define y where "y = rnd (x * 1000000)"
  note f = from_fixed_Finite [OF assms, folded x_def]
  have p: "1 \<le> \<bar>of_int p :: rat\<bar>" "\<bar>of_int p :: rat\<bar> \<le> 2 ^ 51"
    using assms by (simp_all add: of_int_abs [symmetric] del: of_int_abs)
  have "\<bar>x * 1000000 - of_int p\<bar> \<le> \<bar>of_int p\<bar> / 2 ^ 53"
  proof -
    have "\<bar>x * 1000000 - of_int p\<bar> = \<bar>x - of_int p / 1000000\<bar> * 1000000"
      by (simp add: abs_mult_pos left_diff_distrib)
    also have "\<dots> \<le> \<bar>of_int p / 1000000\<bar> / 2 ^ 53 * 1000000" using f(2) by (intro mult_right_mono) auto
    finally show ?thesis by (simp add: abs_divide)
  qed
  moreover have "\<bar>of_int p\<bar> / 2 ^ 53 \<le> (1 / 4 :: rat)" using p(2) by simp
  ultimately have x: "\<bar>x * 1000000 - of_int p\<bar> \<le> 1 / 4" by (rule order_trans)
  then have x2: "\<bar>x * 1000000\<bar> \<le> 2 ^ 51 + 1" using p(2) by linarith
  have "1 / 2 \<le> \<bar>x * 1000000\<bar>" using x p(1) by linarith
  then have n: "2 powi (- 1022) \<le> \<bar>x * 1000000\<bar>"
    by (intro normal_range) (auto intro: order_trans [rotated])
  have "\<bar>y - x * 1000000\<bar> \<le> \<bar>x * 1000000\<bar> / 2 ^ 53"
    unfolding y_def by (rule rnd_error [OF n])
  moreover have "\<bar>x * 1000000\<bar> / 2 ^ 53 \<le> 1 / 2" using x2 by simp
  ultimately have y: "\<bar>y - x * 1000000\<bar> \<le> 1 / 2" by (rule order_trans)
  have near: "\<bar>y - of_int p\<bar> < 1" using x y by linarith
  have "round64 (x * 1000000) = Finite y"
    unfolding y_def by (rule rnd_small [OF _ n]) (use x2 in \<open>rule order_trans, simp\<close>)
  then have t: "to_fixed (from_fixed p) = i64 (trunc y)"
    by (simp add: f(1) to_fixed_def d_mul_def d_to_i64_def PRICE_SCALE_def)
  have "int64 p" "int64 (p - sgn p)" using assms(2) by (auto simp: int64_def sgn_if)
  with trunc_near [OF near assms(1)] t show ?thesis by auto
qed

section \<open>Translated reports\<close>

lemma event_symbol_c_str: "strncpy (c_str s) 8 = Some (pad_name 8 (cstr 8 (c_str s)))"
  by (rule strncpy_eq) simp

lemma cpp_exn_bind_simps [simp]:
  "try_bind (Inl ex) k = Some (Inl ex)" "try_bind (Inr v) k = k v"
  by (simp_all add: try_bind_def)

section \<open>Sample reports\<close>

text \<open>Reports given by their fields, as the accessors of QuickFIX see them: a field that is not there
  makes \<open>get\<close> throw \<open>FieldNotFound\<close>.\<close>

record sample_report =
  sr_exec :: "char option"
  sr_symbol :: "string option"
  sr_oid :: "string option"
  sr_side :: "char option"
  sr_shares :: "double option"
  sr_px :: "double option"

definition get_or_throw :: "'a option \<Rightarrow> cpp_exn + 'a" where
  "get_or_throw x = (case x of None \<Rightarrow> Inl FieldNotFound | Some v \<Rightarrow> Inr v)"

definition sample_api :: "sample_report report_api" where
  "sample_api = \<lparr>get_ExecType = (\<lambda>r. get_or_throw (sr_exec r)), get_Symbol = (\<lambda>r. get_or_throw (sr_symbol r)),
     get_ClOrdID = (\<lambda>r. get_or_throw (sr_oid r)), get_Side = (\<lambda>r. get_or_throw (sr_side r)),
     isSet_LastShares = (\<lambda>r. sr_shares r \<noteq> None), isSet_LastPx = (\<lambda>r. sr_px r \<noteq> None),
     get_LastShares = (\<lambda>r. get_or_throw (sr_shares r)), get_LastPx = (\<lambda>r. get_or_throw (sr_px r))\<rparr>"

definition fill_report :: sample_report where
  "fill_report = \<lparr>sr_exec = Some CHR ''1'', sr_symbol = Some ''AAPL'', sr_oid = Some ''ORD0'', sr_side = Some CHR ''1'',
     sr_shares = Some (Finite 40), sr_px = Some (Finite 2)\<rparr>"

lemma to_fixed_2: "to_fixed (Finite 2) = Some 2000000"
proof -
  have "round64 2000000 = Finite 2000000"
    using round64_eqI [of "- 32" 2000000 8589934592000000] by simp
  then show ?thesis by (simp add: to_fixed_def d_mul_def PRICE_SCALE_def d_to_i64_def trunc_def int64_def i64_def)
qed

section \<open>Properties\<close>

text \<open>C30. A report whose \<open>ExecType\<close> is partial fill, fill, canceled or rejected and whose symbol, order id
  and side are present becomes the event of that type, with the two names cut to eight bytes and the
  side buy exactly for \<open>'1'\<close>. A fill report with both fill fields carries the shares truncated to 32
  bits and the price in fixed point; on every other report the fill fields are zero. All other report
  types are acknowledgements and give no event.\<close>

theorem report_translation:
  assumes "get_ExecType api r = Inr c" "get_Symbol api r = Inr s" "get_ClOrdID api r = Inr i" "get_Side api r = Inr d"
    and "isSet_LastShares api r \<Longrightarrow> isSet_LastPx api r \<Longrightarrow> get_LastShares api r = Inr sh \<and> get_LastPx api r = Inr px \<and>
      d_to_i32 sh = Some fq \<and> to_fixed px = Some fp"
  shows "from_execution_report api r = Some (Inr (case event_type_of_exec c of
      None \<Rightarrow> None
    | Some et \<Rightarrow> Some (zero_event\<lparr>etype := et, symbol := pad_name 8 (cstr 8 (c_str s)),
        order_id := pad_name 8 (cstr 8 (c_str i)), side := (if d = CHR ''1'' then Buy else Sell),
        fill_qty := (if et \<in> {PartialFill, FullFill} \<and> isSet_LastShares api r \<and> isSet_LastPx api r then fq else 0),
        fill_price := (if et \<in> {PartialFill, FullFill} \<and> isSet_LastShares api r \<and> isSet_LastPx api r then fp else 0)\<rparr>)))"
proof (cases "event_type_of_exec c")
  case None
  then show ?thesis using assms(1) by (simp add: from_execution_report_def)
next
  case (Some et)
  have z: "fill_qty zero_event = 0" "fill_price zero_event = 0" by (simp_all add: zero_event_def)
  show ?thesis
    using assms Some
    by (auto simp: from_execution_report_def event_symbol_c_str fill_fields_def Let_def zero_event_def)
qed

theorem report_translation_witness:
  "from_execution_report sample_api fill_report = Some (Inr (Some (zero_event\<lparr>etype := PartialFill,
     symbol := pad_name 8 ''AAPL'', order_id := pad_name 8 ''ORD0'', side := Buy, fill_qty := 40, fill_price := 2000000\<rparr>)))"
proof -
  have c: "cstr 8 (c_str ''AAPL'') = ''AAPL''" "cstr 8 (c_str ''ORD0'') = ''ORD0''" by code_simp+
  have f: "d_to_i32 (Finite 40) = Some 40" by (simp add: d_to_i32_def trunc_def int32_def i32_def)
  show ?thesis
    using report_translation [of sample_api fill_report "CHR ''1''" "''AAPL''" "''ORD0''" "CHR ''1''" "Finite 40" "Finite 2" 40 2000000] c f to_fixed_2
    by (simp add: sample_api_def fill_report_def get_or_throw_def event_type_of_exec_def)
qed

text \<open>A report without an \<open>ExecType\<close>, or a booking report without a symbol, is not translated: the
  exception of the missing field leaves \<open>from_execution_report\<close>.\<close>

lemma missing_field_throws:
  assumes "get_ExecType api r = Inl ex \<or>
    (\<exists>c et. get_ExecType api r = Inr c \<and> event_type_of_exec c = Some et \<and> get_Symbol api r = Inl ex)"
  shows "from_execution_report api r = Some (Inl ex)"
  using assms by (auto simp: from_execution_report_def)

text \<open>C31. A fixed-point price of up to \<open>2\<^sup>5\<^sup>1\<close> units in absolute value survives the conversion to a double
  and back up to one unit: the result is the price itself or the price one unit closer to zero, and
  zero survives exactly.\<close>

theorem fixed_round_trip_within_one:
  assumes "\<bar>p\<bar> \<le> 2 ^ 51"
  shows "to_fixed (from_fixed p) = Some p \<or> to_fixed (from_fixed p) = Some (p - sgn p)"
proof (cases "p = 0")
  case True
  have "round64 0 = Finite 0" by (simp add: round64_def round_half_even_def)
  then show ?thesis
    using True by (simp add: to_fixed_def from_fixed_def d_of_int_def d_div_def d_mul_def d_to_i64_def trunc_def)
qed (use fixed_round_trip assms in blast)

theorem fixed_round_trip_within_one_witness:
  "to_fixed (from_fixed 175500000) = Some 175500000 \<or> to_fixed (from_fixed 175500000) = Some 175499999"
  using fixed_round_trip_within_one [of 175500000] by simp

text \<open>The conversion truncates instead of rounding, so ordinary prices do lose a unit: 8.20 dollars,
  as the double nearest to it, becomes 8.199999 in fixed point.\<close>

lemma price_8_20_loses_a_unit:
  "to_fixed (from_fixed 8200000) = Some 8199999"
proof -
  have "round64 8200000 = Finite 8200000"
    using round64_eqI [of "- 30" 8200000 8804682956800000] by simp
  moreover have "round64 (8200000 / 1000000) = Finite (of_int 4616189618054758 * 2 powi (- 49))"
    by (rule round64_eqI) simp_all
  moreover have "round64 (of_int 4616189618054758 * 2 powi (- 49) * 1000000) = Finite (of_int 8804682956799999 * 2 powi (- 30))"
    by (rule round64_eqI) simp_all
  moreover have "trunc (of_int 8804682956799999 * 2 powi (- 30)) = 8199999"
    by (simp add: trunc_def floor_eq_iff)
  ultimately show ?thesis
    by (simp only: to_fixed_def from_fixed_def d_of_int_def d_div_def d_mul_def d_to_i64_def PRICE_SCALE_def
        double.case of_int_numeral) (simp add: int64_def i64_def)
qed

text \<open>A new order single carries the order faithfully: message type \<open>D\<close>, the order id and the symbol
  as the views of the event show them, the side, a limit order for the day, and quantity and price as
  doubles; nothing else but the handling instruction and the time is set.\<close>

lemma new_order_single_fields:
  "msg_type (to_new_order_single e) = ''D'' \<and>
   msg_fields (to_new_order_single e) = [
     11 \<mapsto> F_String (event_oid e), 21 \<mapsto> F_Char CHR ''1'', 55 \<mapsto> F_String (event_symbol e),
     54 \<mapsto> F_Char (if side e = Buy then CHR ''1'' else CHR ''2''), 60 \<mapsto> F_TransactTime, 40 \<mapsto> F_Char CHR ''2'',
     38 \<mapsto> F_Double (d_of_int (qty e)), 44 \<mapsto> F_Double (from_fixed (price e)), 59 \<mapsto> F_Char CHR ''0'']"
  by (simp add: to_new_order_single_def set_field_def take_strnlen event_oid_def event_symbol_def fix_side_def Let_def)

end
