(* ===== verification/Killswitch.thy ===== *)
theory Killswitch
  imports MessageTranslator Order_Lifecycle Position_Accounting
begin

text \<open>
  \<open>gateway/Killswitch.h\<close>: the emergency path. \<open>FIX::Session::sendToTarget\<close> is a parameter: for a
  session and a message it returns a flag or throws \<open>SessionNotFound\<close>. A run is recorded as the
  messages handed to it, in order, the counter and the ids for which a warning is printed.
\<close>

section \<open>The killswitch\<close>

datatype send_outcome = Send_Returned bool | Send_SessionNotFound

type_synonym session_send = "string \<Rightarrow> fix_message \<Rightarrow> send_outcome"

record ks_run =
  ks_count :: "32 word"
  ks_sent :: "fix_message list"
  ks_warned :: "string list"

record killswitch =
  ks_session :: string
  armed :: bool

definition new_killswitch :: "string \<Rightarrow> killswitch" where
  "new_killswitch sid = \<lparr>ks_session = sid, armed = False\<rparr>"

definition arm :: "killswitch \<Rightarrow> killswitch" where
  "arm ks = ks\<lparr>armed := True\<rparr>"

definition is_armed :: "killswitch \<Rightarrow> bool" where
  "is_armed ks = armed ks"

definition ks_start :: ks_run where
  "ks_start = \<lparr>ks_count = 0, ks_sent = [], ks_warned = []\<rparr>"

definition ks_send :: "session_send \<Rightarrow> string \<Rightarrow> fix_message \<Rightarrow> string \<Rightarrow> ks_run \<Rightarrow> ks_run" where
  "ks_send send sid m i r =
     (case send sid m of
        Send_Returned _ \<Rightarrow> r\<lparr>ks_sent := ks_sent r @ [m]\<rparr>
      | Send_SessionNotFound \<Rightarrow> r\<lparr>ks_sent := ks_sent r @ [m], ks_warned := ks_warned r @ [i]\<rparr>)"

definition cancel_ref :: "order \<Rightarrow> order_event" where
  "cancel_ref od = zero_event\<lparr>order_id := o_order_id od, symbol := o_symbol od, side := o_side od\<rparr>"

definition cancel_one :: "session_send \<Rightarrow> string \<Rightarrow> string \<Rightarrow> order \<Rightarrow> ks_run \<Rightarrow> ks_run option" where
  "cancel_one send sid id_prefix od r =
     (let r1 = r\<lparr>ks_count := ks_count r + 1\<rparr>;
          cancel_id = id_prefix @ to_dec (unat (ks_count r1));
          cancel = to_cancel_request (cancel_ref od) cancel_id
      in Some (ks_send send sid cancel cancel_id r1))"

definition cancel_all :: "session_send \<Rightarrow> killswitch \<Rightarrow> string \<Rightarrow> order_manager \<Rightarrow> ks_run option" where
  "cancel_all send ks id_prefix om =
     om_for_each_open (cancel_one send (ks_session ks) id_prefix) om ks_start"

definition flat_event :: "position \<Rightarrow> side \<Rightarrow> int \<Rightarrow> string \<Rightarrow> order_event option" where
  "flat_event p close_side close_qty flat_id = do {
     i \<leftarrow> strncpy (c_str flat_id) 8;
     Some (zero_event\<lparr>etype := NewOrder, side := close_side, qty := close_qty, price := 0,
       symbol := p_symbol p, order_id := i\<rparr>) }"

definition flatten_one :: "session_send \<Rightarrow> string \<Rightarrow> string \<Rightarrow> position \<Rightarrow> ks_run \<Rightarrow> ks_run option" where
  "flatten_one send sid id_prefix p r =
     (if is_flat p then Some r
      else do {
        let close_side = (if net_qty p > 0 then Sell else Buy);
        n \<leftarrow> (if net_qty p > 0 then Some (net_qty p) else i64 (- net_qty p));
        let close_qty = narrow_i32 n;
        let r1 = r\<lparr>ks_count := ks_count r + 1\<rparr>;
        let flat_id = id_prefix @ to_dec (unat (ks_count r1));
        flat_evt \<leftarrow> flat_event p close_side close_qty flat_id;
        let mkt_order = remove_field 44 (set_field 40 (F_Char CHR ''1'') (to_new_order_single flat_evt));
        Some (ks_send send sid mkt_order flat_id r1) })"

definition flatten :: "session_send \<Rightarrow> killswitch \<Rightarrow> string \<Rightarrow> position_tracker \<Rightarrow> ks_run option" where
  "flatten send ks id_prefix pt = pt_for_each (flatten_one send (ks_session ks) id_prefix) pt ks_start"

text \<open>\<open>execute\<close> between two readings of the steady clock, in nanoseconds: the elapsed milliseconds,
  whether the over-budget warning is printed, and the run of \<open>cancel_all\<close>.\<close>

definition execute ::
  "session_send \<Rightarrow> killswitch \<Rightarrow> string \<Rightarrow> int \<Rightarrow> int \<Rightarrow> int \<Rightarrow> order_manager \<Rightarrow> (int \<times> bool \<times> ks_run) option" where
  "execute send ks cancel_id_prefix budget_ms t0 t1 om = do {
     r \<leftarrow> cancel_all send ks cancel_id_prefix om;
     d \<leftarrow> i64 (t1 - t0);
     let elapsed = d sdiv 1000000;
     Some (elapsed, elapsed > budget_ms, r) }"

section \<open>What is sent\<close>

definition open_orders :: "order_manager \<Rightarrow> order list" where
  "open_orders om = filter is_open (take (om_count om) (om_slots om))"

definition held_positions :: "position_tracker \<Rightarrow> position list" where
  "held_positions pt = filter (\<lambda>p. \<not> is_flat p) (take (pt_count pt) (pt_slots pt))"

lemma foldm_filter: "foldm (\<lambda>x s. if P x then f x s else Some s) xs s = foldm f (filter P xs) s"
  by (induction xs arbitrary: s) (simp_all cong: Option.bind_cong)

definition cancel_request :: "string \<Rightarrow> nat \<Rightarrow> order \<Rightarrow> fix_message" where
  "cancel_request pre i od = to_cancel_request (cancel_ref od) (pre @ to_dec (Suc i))"

lemma ks_send_fields [simp]:
  "ks_count (ks_send send sid m i r) = ks_count r" "ks_sent (ks_send send sid m i r) = ks_sent r @ [m]"
  by (simp_all add: ks_send_def split: send_outcome.split)

lemma ks_count_next:
  assumes "ks_count r = word_of_nat n" "n < 4294967295"
  shows "unat (ks_count r + 1) = Suc n"
proof -
  have "ks_count r + 1 = word_of_nat (Suc n)" using assms(1) by simp
  then show ?thesis using assms(2) by (simp only: unat_of_nat) (simp add: take_bit_nat_eq_self_iff flip: take_bit_eq_mod)
qed

text \<open>A loop that counts and sends one message per element.\<close>

lemma counting_loop:
  assumes step: "\<forall>i x r. x \<in> set xs \<longrightarrow> i < 4294967295 \<longrightarrow> ks_count r = word_of_nat i \<longrightarrow>
      (\<exists>r'. f x r = Some r' \<and> ks_count r' = word_of_nat (Suc i) \<and> ks_sent r' = ks_sent r @ [msg i x])"
    and "ks_count r = word_of_nat n" "n + length xs \<le> 4294967295"
  shows "\<exists>r'. foldm f xs r = Some r' \<and> ks_count r' = word_of_nat (n + length xs) \<and>
    ks_sent r' = ks_sent r @ map (\<lambda>(i, x). msg i x) (enumerate n xs)"
  using assms
proof (induction xs arbitrary: n r)
  case Nil
  then show ?case by simp
next
  case (Cons x xs)
  from Cons.prems have "n < 4294967295" by simp
  with Cons.prems(1,2) obtain r1 where r1: "f x r = Some r1" "ks_count r1 = word_of_nat (Suc n)"
      "ks_sent r1 = ks_sent r @ [msg n x]"
    by (metis list.set_intros(1))
  have "\<exists>r'. foldm f xs r1 = Some r' \<and> ks_count r' = word_of_nat (Suc n + length xs) \<and>
    ks_sent r' = ks_sent r1 @ map (\<lambda>(i, x). msg i x) (enumerate (Suc n) xs)"
    by (rule Cons.IH [OF _ r1(2)]) (use Cons.prems in auto)
  with r1 show ?case by auto
qed

lemma cancel_all_sends:
  assumes "om_ok om"
  shows "\<exists>r. cancel_all send ks pre om = Some r \<and> unat (ks_count r) = length (open_orders om) \<and>
    ks_sent r = map (\<lambda>(i, od). cancel_request pre i od) (enumerate 0 (open_orders om))"
proof -
  let ?f = "cancel_one send (ks_session ks) pre"
  have len: "length (open_orders om) \<le> 512"
    using om_okD(3) [OF assms] length_filter_le [of is_open "take (om_count om) (om_slots om)"]
    by (simp add: open_orders_def MAX_ORDERS_def)
  have "cancel_all send ks pre om = foldm ?f (open_orders om) ks_start"
    unfolding cancel_all_def om_for_each_open_def open_orders_def foldm_filter [symmetric]
    using foldm_indices [of "om_count om" "om_slots om" "\<lambda>od s. if is_open od then ?f od s else Some s"]
      om_okD(3,4) [OF assms] by simp
  moreover have "\<exists>r. foldm ?f (open_orders om) ks_start = Some r \<and>
      ks_count r = word_of_nat (0 + length (open_orders om)) \<and>
      ks_sent r = ks_sent ks_start @ map (\<lambda>(i, od). cancel_request pre i od) (enumerate 0 (open_orders om))"
  proof (rule counting_loop)
    show "\<forall>i od r. od \<in> set (open_orders om) \<longrightarrow> i < 4294967295 \<longrightarrow> ks_count r = word_of_nat i \<longrightarrow>
        (\<exists>r'. ?f od r = Some r' \<and> ks_count r' = word_of_nat (Suc i) \<and>
          ks_sent r' = ks_sent r @ [cancel_request pre i od])"
    proof (intro allI impI)
      fix i od and r :: ks_run
      assume "i < 4294967295" "ks_count r = word_of_nat i"
      with ks_count_next [OF this(2,1)] show "\<exists>r'. ?f od r = Some r' \<and> ks_count r' = word_of_nat (Suc i) \<and>
          ks_sent r' = ks_sent r @ [cancel_request pre i od]"
        by (simp add: cancel_one_def Let_def cancel_request_def)
    qed
  qed (use len in \<open>simp_all add: ks_start_def\<close>)
  moreover have "unat (word_of_nat (length (open_orders om)) :: 32 word) = length (open_orders om)"
    using len by (simp add: unat_of_nat)
  ultimately show ?thesis by (auto simp: ks_start_def)
qed

definition flatten_message :: "string \<Rightarrow> nat \<Rightarrow> position \<Rightarrow> fix_message" where
  "flatten_message pre i p = remove_field 44 (set_field 40 (F_Char CHR ''1'') (to_new_order_single
     (zero_event\<lparr>etype := NewOrder, side := (if net_qty p > 0 then Sell else Buy), qty := \<bar>net_qty p\<bar>,
        symbol := p_symbol p, order_id := pad_name 8 (cstr 8 (c_str (pre @ to_dec (Suc i))))\<rparr>)))"

lemma flatten_one_sends:
  assumes "\<not> is_flat p" "\<bar>net_qty p\<bar> \<le> 2147483647" "ks_count r = word_of_nat i" "i < 4294967295"
  shows "\<exists>r'. flatten_one send sid pre p r = Some r' \<and> ks_count r' = word_of_nat (Suc i) \<and>
    ks_sent r' = ks_sent r @ [flatten_message pre i p]"
proof -
  have n: "(if net_qty p > 0 then Some (net_qty p) else i64 (- net_qty p)) = Some \<bar>net_qty p\<bar>"
    using assms(2) by (auto simp: int64_def)
  have q: "narrow_i32 \<bar>net_qty p\<bar> = \<bar>net_qty p\<bar>" using assms(2) by (intro narrow_i32_id) (simp add: int32_def)
  have z: "price zero_event = 0" by (simp add: zero_event_def)
  have e: "flat_event p sd k s = Some (zero_event\<lparr>etype := NewOrder, side := sd, qty := k,
      symbol := p_symbol p, order_id := pad_name 8 (cstr 8 (c_str s))\<rparr>)" for sd k s
    using z by (simp add: flat_event_def strncpy_eq zero_event_def)
  show ?thesis
    using assms(1) ks_count_next [OF assms(3,4)] assms(3)
    by (simp add: flatten_one_def n q e flatten_message_def Let_def)
qed

lemma flatten_sends:
  assumes ok: "pt_ok pt" and b: "\<forall>p \<in> set (held_positions pt). \<bar>net_qty p\<bar> \<le> 2147483647"
  shows "\<exists>r. flatten send ks pre pt = Some r \<and> unat (ks_count r) = length (held_positions pt) \<and>
    ks_sent r = map (\<lambda>(i, p). flatten_message pre i p) (enumerate 0 (held_positions pt))"
proof -
  let ?f = "flatten_one send (ks_session ks) pre"
  have len: "length (held_positions pt) \<le> 1024"
    using pt_okD(3) [OF ok] length_filter_le [of "\<lambda>p. \<not> is_flat p" "take (pt_count pt) (pt_slots pt)"]
    by (simp add: held_positions_def MAX_SYMBOLS_def)
  have skip: "?f = (\<lambda>p s. if \<not> is_flat p then ?f p s else Some s)"
    by (auto simp: flatten_one_def fun_eq_iff)
  have "flatten send ks pre pt = foldm ?f (take (pt_count pt) (pt_slots pt)) ks_start"
    unfolding flatten_def pt_for_each_def
    using foldm_indices [of "pt_count pt" "pt_slots pt" ?f] pt_okD(3,4) [OF ok] by simp
  also have "\<dots> = foldm ?f (held_positions pt) ks_start"
    unfolding held_positions_def foldm_filter [symmetric] using skip by simp
  finally have "flatten send ks pre pt = foldm ?f (held_positions pt) ks_start" .
  moreover have "\<exists>r. foldm ?f (held_positions pt) ks_start = Some r \<and>
      ks_count r = word_of_nat (0 + length (held_positions pt)) \<and>
      ks_sent r = ks_sent ks_start @ map (\<lambda>(i, p). flatten_message pre i p) (enumerate 0 (held_positions pt))"
  proof (rule counting_loop)
    show "\<forall>i p r. p \<in> set (held_positions pt) \<longrightarrow> i < 4294967295 \<longrightarrow> ks_count r = word_of_nat i \<longrightarrow>
        (\<exists>r'. ?f p r = Some r' \<and> ks_count r' = word_of_nat (Suc i) \<and>
          ks_sent r' = ks_sent r @ [flatten_message pre i p])"
      using b flatten_one_sends by (simp add: held_positions_def)
  qed (use len in \<open>simp_all add: ks_start_def\<close>)
  moreover have "unat (word_of_nat (length (held_positions pt)) :: 32 word) = length (held_positions pt)"
    using len by (simp add: unat_of_nat)
  ultimately show ?thesis by (auto simp: ks_start_def)
qed

section \<open>Properties\<close>

lemma in_enumerate: "x \<in> set xs \<Longrightarrow> \<exists>i < length xs. (i, x) \<in> set (enumerate 0 xs)"
proof -
  assume "x \<in> set xs"
  then obtain i where "i < length xs" "xs ! i = x" by (auto simp: in_set_conv_nth)
  then have "(i, x) \<in> set (enumerate 0 xs)" by (simp add: in_set_enumerate_eq)
  with \<open>i < length xs\<close> show ?thesis by blast
qed

lemma distinct_enumerate_map:
  assumes "\<And>i j. i < length xs \<Longrightarrow> j < length xs \<Longrightarrow> f i = f j \<Longrightarrow> i = j"
  shows "distinct (map (\<lambda>(i, x). f i) (enumerate 0 xs))"
proof -
  have "map (\<lambda>(i, x). f i) (enumerate 0 xs) = map f [0..<length xs]"
    by (rule nth_equalityI) (simp_all add: nth_enumerate_eq)
  then show ?thesis using assms by (simp add: distinct_map inj_on_def)
qed

lemma cancel_request_fields:
  "msg_type (cancel_request pre i od) = ''F''"
  "msg_fields (cancel_request pre i od) 41 = Some (F_String (cstr 8 (o_order_id od)))"
  "msg_fields (cancel_request pre i od) 55 = Some (F_String (cstr 8 (o_symbol od)))"
  "msg_fields (cancel_request pre i od) 54 = Some (F_Char (fix_side (o_side od)))"
  "msg_fields (cancel_request pre i od) 11 = Some (F_String (pre @ to_dec (Suc i)))"
  by (simp_all add: cancel_request_def to_cancel_request_def cancel_ref_def take_strnlen)

lemma flatten_message_fields:
  "msg_type (flatten_message pre i p) = ''D''"
  "msg_fields (flatten_message pre i p) 55 = Some (F_String (cstr 8 (p_symbol p)))"
  "msg_fields (flatten_message pre i p) 54 = Some (F_Char (if net_qty p > 0 then CHR ''2'' else CHR ''1''))"
  "msg_fields (flatten_message pre i p) 38 = Some (F_Double (d_of_int \<bar>net_qty p\<bar>))"
  "msg_fields (flatten_message pre i p) 40 = Some (F_Char CHR ''1'')"
  "msg_fields (flatten_message pre i p) 44 = None"
  "msg_fields (flatten_message pre i p) 11 = Some (F_String (cstr 8 (c_str (pre @ to_dec (Suc i)))))"
  by (simp_all add: flatten_message_def to_new_order_single_def set_field_def remove_field_def take_strnlen
      fix_side_def Let_def cstr_pad_name length_cstr)

lemma open_orders_map: "om_ok om \<Longrightarrow> om_map om k = Some od \<Longrightarrow> is_open od \<Longrightarrow> od \<in> set (open_orders om)"
  using ran_table_map [OF om_okD(1)] by (auto simp: open_orders_def om_map_def [symmetric] dest: ranI)

lemma held_positions_map:
  assumes "pt_ok pt"
  shows "p \<in> set (held_positions pt) \<longleftrightarrow> (\<exists>k. pt_map pt k = Some p) \<and> \<not> is_flat p"
  using ran_table_map [OF pt_okD(1) [OF assms]] by (auto simp: held_positions_def pt_map_def ran_def)

text \<open>C26. Whatever becomes of the single sends, \<open>cancel_all\<close> hands QuickFIX exactly one cancel request per
  open order: it carries the order's id, symbol and side, the requests have pairwise different ids,
  and there are as many as open orders. A session that is missing for one of them does not stop the
  others.\<close>

theorem cancel_all_covers_open_orders:
  assumes "om_ok om"
  shows "\<exists>r. cancel_all send ks pre om = Some r \<and>
    length (ks_sent r) = card {k. \<exists>od. om_map om k = Some od \<and> is_open od} \<and>
    unat (ks_count r) = length (ks_sent r) \<and>
    (\<forall>k od. om_map om k = Some od \<and> is_open od \<longrightarrow>
      (\<exists>m \<in> set (ks_sent r). msg_type m = ''F'' \<and> msg_fields m 41 = Some (F_String k) \<and>
        msg_fields m 55 = Some (F_String (cstr 8 (o_symbol od))) \<and>
        msg_fields m 54 = Some (F_Char (fix_side (o_side od))))) \<and>
    distinct (map (\<lambda>m. msg_fields m 11) (ks_sent r))"
proof -
  obtain r where r: "cancel_all send ks pre om = Some r" "unat (ks_count r) = length (open_orders om)"
    "ks_sent r = map (\<lambda>(i, od). cancel_request pre i od) (enumerate 0 (open_orders om))"
    using cancel_all_sends [OF assms, of send ks pre] by blast
  have "\<exists>m \<in> set (ks_sent r). msg_type m = ''F'' \<and> msg_fields m 41 = Some (F_String k) \<and>
        msg_fields m 55 = Some (F_String (cstr 8 (o_symbol od))) \<and>
        msg_fields m 54 = Some (F_Char (fix_side (o_side od)))"
    if od: "om_map om k = Some od" "is_open od" for k od
  proof -
    obtain i where "(i, od) \<in> set (enumerate 0 (open_orders om))"
      using in_enumerate [OF open_orders_map [OF assms od]] by blast
    then have "cancel_request pre i od \<in> set (ks_sent r)" unfolding r(3) by force
    then show ?thesis
      by (intro bexI [of _ "cancel_request pre i od"])
        (simp_all add: cancel_request_fields om_okD(6) [OF assms od(1)])
  qed
  moreover have "distinct (map (\<lambda>m. msg_fields m 11) (ks_sent r))"
  proof -
    have "map (\<lambda>m. msg_fields m 11) (ks_sent r) =
        map (\<lambda>(i, od). Some (F_String (pre @ to_dec (Suc i)))) (enumerate 0 (open_orders om))"
      by (simp add: r(3) case_prod_unfold cancel_request_fields)
    then show ?thesis by (simp only:) (rule distinct_enumerate_map, auto dest: to_dec_inj)
  qed
  ultimately show ?thesis
    using r length_open_slots [OF assms] by (auto simp: open_orders_def)
qed

theorem cancel_all_covers_open_orders_witness:
  "\<exists>om r. om_map om = [''O1'' \<mapsto> sample_open] \<and>
    cancel_all (\<lambda>s m. Send_SessionNotFound) (new_killswitch ''S'') ''KS'' om = Some r \<and>
    (\<exists>m \<in> set (ks_sent r). msg_fields m 41 = Some (F_String ''O1''))"
proof -
  obtain om where om: "om_ok om" "om_map om = [''O1'' \<mapsto> sample_open]" by (rule sample_manager)
  have o: "is_open sample_open" by code_simp
  have m: "om_map om ''O1'' = Some sample_open" by (simp add: om(2))
  from cancel_all_covers_open_orders [OF om(1), of "\<lambda>s m. Send_SessionNotFound" "new_killswitch ''S''" "''KS''"] m o om(2)
  show ?thesis by blast
qed

text \<open>C27. When no fill had a negative quantity, so that the traded totals are not negative, \<open>flatten\<close>
  hands QuickFIX exactly one market order per position that is not flat: on the opposite side, for
  the whole net quantity, without a price, and under pairwise different ids. The narrowing of the net
  quantity to 32 bits then loses nothing.\<close>

theorem flatten_closes_positions:
  assumes "pt_ok pt" "\<forall>k p. pt_map pt k = Some p \<longrightarrow> 0 \<le> total_buy_qty p \<and> 0 \<le> total_sell_qty p"
  shows "\<exists>r. flatten send ks ''FL'' pt = Some r \<and>
    length (ks_sent r) = length (held_positions pt) \<and> unat (ks_count r) = length (ks_sent r) \<and>
    (\<forall>k p. pt_map pt k = Some p \<and> \<not> is_flat p \<longrightarrow>
      (\<exists>m \<in> set (ks_sent r). msg_type m = ''D'' \<and> msg_fields m 55 = Some (F_String k) \<and>
        msg_fields m 54 = Some (F_Char (if net_qty p > 0 then CHR ''2'' else CHR ''1'')) \<and>
        msg_fields m 38 = Some (F_Double (d_of_int \<bar>net_qty p\<bar>)) \<and>
        msg_fields m 40 = Some (F_Char CHR ''1'') \<and> msg_fields m 44 = None)) \<and>
    distinct (map (\<lambda>m. msg_fields m 11) (ks_sent r))"
proof -
  have b: "\<forall>p \<in> set (held_positions pt). \<bar>net_qty p\<bar> \<le> 2147483647"
  proof
    fix p assume "p \<in> set (held_positions pt)"
    then obtain k where k: "pt_map pt k = Some p" using held_positions_map [OF assms(1)] by auto
    from assms(2) k have "0 \<le> total_buy_qty p" "0 \<le> total_sell_qty p" by simp_all
    moreover have "net_qty p = total_buy_qty p - total_sell_qty p" "total_buy_qty p \<le> 2147483647"
        "total_sell_qty p \<le> 2147483647"
      using pt_okD(2) [OF assms(1) k] by (simp_all add: position_ok_def int32_def)
    ultimately show "\<bar>net_qty p\<bar> \<le> 2147483647" by linarith
  qed
  obtain r where r: "flatten send ks ''FL'' pt = Some r" "unat (ks_count r) = length (held_positions pt)"
    "ks_sent r = map (\<lambda>(i, p). flatten_message ''FL'' i p) (enumerate 0 (held_positions pt))"
    using flatten_sends [OF assms(1) b, of send ks "''FL''"] by blast
  have "\<exists>m \<in> set (ks_sent r). msg_type m = ''D'' \<and> msg_fields m 55 = Some (F_String k) \<and>
        msg_fields m 54 = Some (F_Char (if net_qty p > 0 then CHR ''2'' else CHR ''1'')) \<and>
        msg_fields m 38 = Some (F_Double (d_of_int \<bar>net_qty p\<bar>)) \<and>
        msg_fields m 40 = Some (F_Char CHR ''1'') \<and> msg_fields m 44 = None"
    if p: "pt_map pt k = Some p" "\<not> is_flat p" for k p
  proof -
    have "p \<in> set (held_positions pt)" using held_positions_map [OF assms(1)] p by blast
    from in_enumerate [OF this] obtain i where "(i, p) \<in> set (enumerate 0 (held_positions pt))" by auto
    then have "flatten_message ''FL'' i p \<in> set (ks_sent r)" unfolding r(3) by force
    then show ?thesis
      by (intro bexI [of _ "flatten_message ''FL'' i p"])
        (simp_all add: flatten_message_fields pt_okD(6) [OF assms(1) p(1)])
  qed
  moreover have "distinct (map (\<lambda>m. msg_fields m 11) (ks_sent r))"
  proof -
    have len: "length (held_positions pt) \<le> 1024"
      using pt_okD(3) [OF assms(1)] length_filter_le [of "\<lambda>p. \<not> is_flat p" "take (pt_count pt) (pt_slots pt)"]
      by (simp add: held_positions_def MAX_SYMBOLS_def)
    have full: "cstr 8 (c_str (''FL'' @ to_dec (Suc i))) = ''FL'' @ to_dec (Suc i)" if "i < length (held_positions pt)" for i
    proof -
      have "length (to_dec (Suc i)) \<le> 5" using that len by (intro length_to_dec) auto
      then show ?thesis using to_dec_no_NUL [of "Suc i"] by (subst cstr_c_str) (auto simp: NUL_def)
    qed
    have "map (\<lambda>m. msg_fields m 11) (ks_sent r) =
        map (\<lambda>(i, p). Some (F_String (cstr 8 (c_str (''FL'' @ to_dec (Suc i)))))) (enumerate 0 (held_positions pt))"
      by (simp add: r(3) case_prod_unfold flatten_message_fields)
    then show ?thesis
      by (simp only:) (rule distinct_enumerate_map, use full to_dec_inj in \<open>fastforce simp del: append.simps\<close>)
  qed
  ultimately show ?thesis using r by auto
qed

text \<open>A tracker with a long and a short position.\<close>

lemma sample_positions:
  obtains pt p q where "pt_ok pt" "pt_map pt = [''AAPL'' \<mapsto> p, ''MSFT'' \<mapsto> q]"
    "net_qty p = 40" "total_buy_qty p = 40" "total_sell_qty p = 0"
    "net_qty q = -20" "total_buy_qty q = 0" "total_sell_qty q = 20"
proof -
  let ?a = "sample_fill ''O1'' ''AAPL'' Buy 40 175" and ?b = "sample_fill ''O2'' ''MSFT'' Sell 20 300"
    and ?v = "map_option (\<lambda>p. (net_qty p, total_buy_qty p, total_sell_qty p))"
  have a: "event_ok ?a" "is_fill ?a" "event_symbol ?a = ''AAPL''"
      "?v (fill_position ?a (position_or_fresh Map.empty ''AAPL'')) = Some (40, 40, 0)"
    and b: "event_ok ?b" "is_fill ?b" "event_symbol ?b = ''MSFT''"
      "?v (fill_position ?b (position_or_fresh Map.empty ''MSFT'')) = Some (-20, 0, 20)" by code_simp+
  obtain p where p: "fill_position ?a (position_or_fresh Map.empty ''AAPL'') = Some p" "net_qty p = 40" "total_buy_qty p = 40" "total_sell_qty p = 0"
    using a(4) by auto
  obtain q where q: "fill_position ?b (position_or_fresh Map.empty ''MSFT'') = Some q" "net_qty q = -20" "total_buy_qty q = 0" "total_sell_qty q = 20"
    using b(4) by auto
  have "pt_spec ?a (pt_map new_position_tracker) = Some [''AAPL'' \<mapsto> p]"
    using p(1) by (simp add: pt_spec_def a(2,3) MAX_SYMBOLS_def position_or_fresh_def)
  then obtain pt where pt: "pt_ok pt" "pt_map pt = [''AAPL'' \<mapsto> p]"
    using pt_apply_event_obtain [OF pt_ok_new(1) a(1)] by metis
  have "pt_spec ?b (pt_map pt) = Some [''AAPL'' \<mapsto> p, ''MSFT'' \<mapsto> q]"
    using q(1) by (simp add: pt_spec_def b(2,3) pt(2) MAX_SYMBOLS_def position_or_fresh_def)
  then obtain pt' where "pt_ok pt'" "pt_map pt' = [''AAPL'' \<mapsto> p, ''MSFT'' \<mapsto> q]"
    using pt_apply_event_obtain [OF pt(1) b(1)] by metis
  with p q that show thesis by blast
qed

theorem flatten_closes_positions_witness:
  "\<exists>pt r m n. pt_ok pt \<and> flatten (\<lambda>s m. Send_Returned True) (new_killswitch ''S'') ''FL'' pt = Some r \<and>
    m \<in> set (ks_sent r) \<and> msg_fields m 55 = Some (F_String ''AAPL'') \<and> msg_fields m 54 = Some (F_Char CHR ''2'') \<and>
    msg_fields m 38 = Some (F_Double (d_of_int 40)) \<and>
    n \<in> set (ks_sent r) \<and> msg_fields n 55 = Some (F_String ''MSFT'') \<and> msg_fields n 54 = Some (F_Char CHR ''1'') \<and>
    msg_fields n 38 = Some (F_Double (d_of_int 20))"
proof -
  obtain pt p q where pt: "pt_ok pt" "pt_map pt = [''AAPL'' \<mapsto> p, ''MSFT'' \<mapsto> q]"
    and p: "net_qty p = 40" "total_buy_qty p = 40" "total_sell_qty p = 0"
    and q: "net_qty q = -20" "total_buy_qty q = 0" "total_sell_qty q = 20" by (rule sample_positions)
  have t: "\<forall>k p. pt_map pt k = Some p \<longrightarrow> 0 \<le> total_buy_qty p \<and> 0 \<le> total_sell_qty p" using p q by (simp add: pt(2))
  obtain r where r: "flatten (\<lambda>s m. Send_Returned True) (new_killswitch ''S'') ''FL'' pt = Some r"
    "\<And>k p. pt_map pt k = Some p \<Longrightarrow> \<not> is_flat p \<Longrightarrow>
      \<exists>m \<in> set (ks_sent r). msg_type m = ''D'' \<and> msg_fields m 55 = Some (F_String k) \<and>
        msg_fields m 54 = Some (F_Char (if net_qty p > 0 then CHR ''2'' else CHR ''1'')) \<and>
        msg_fields m 38 = Some (F_Double (d_of_int \<bar>net_qty p\<bar>)) \<and>
        msg_fields m 40 = Some (F_Char CHR ''1'') \<and> msg_fields m 44 = None"
    using flatten_closes_positions [OF pt(1) t, of "\<lambda>s m. Send_Returned True" "new_killswitch ''S''"] by blast
  from r(2) [of "''AAPL''" p] r(2) [of "''MSFT''" q] r(1) pt p q show ?thesis
    by (fastforce simp: is_flat_def)
qed

text \<open>\<open>execute\<close> sends the cancel requests of \<open>cancel_all\<close> and nothing else, in particular no order that
  flattens a position; it reports the elapsed whole milliseconds and warns exactly when they exceed
  the budget.\<close>

lemma execute_only_cancels:
  assumes "om_ok om" "0 \<le> t0" "t0 \<le> t1" "t1 \<le> 9223372036854775807"
  shows "\<exists>r. execute send ks pre budget t0 t1 om = Some ((t1 - t0) div 1000000, budget < (t1 - t0) div 1000000, r) \<and>
    cancel_all send ks pre om = Some r \<and> (\<forall>m \<in> set (ks_sent r). msg_type m = ''F'')"
proof -
  obtain r where r: "cancel_all send ks pre om = Some r"
    "ks_sent r = map (\<lambda>(i, od). cancel_request pre i od) (enumerate 0 (open_orders om))"
    using cancel_all_sends [OF assms(1), of send ks pre] by blast
  have "int64 (t1 - t0)" using assms by (simp add: int64_def)
  moreover have "(t1 - t0) sdiv 1000000 = (t1 - t0) div 1000000"
    using assms(3) by (cases "t1 = t0") (simp_all add: signed_divide_int_def)
  ultimately show ?thesis
    using r by (auto simp: execute_def cancel_request_fields i64_in_range Let_def)
qed

end
