(* ===== verification/Struct_Layout.thy ===== *)
theory Struct_Layout
  imports OrderManager PositionTracker
begin

text \<open>
  The bytes of the structs. \<open>OrderEvent\<close> and \<open>LogHeader\<close> are stored in the log file as they are in
  memory, and the headers of the components assert the size of every struct (\<open>static_assert\<close>). A
  struct is laid out by the rules of the platform ABI: each member at the next multiple of its
  alignment, the whole rounded up to the largest alignment. Integers are little-endian.

  \<open>pack\<close> and \<open>unpack\<close> are the layout of a list of typed members. The locale \<open>struct_codec\<close> is what a
  struct promises: the list of its members, and a way back from the bytes of the members to the struct.
  It is interpreted on the four structs of the program.
\<close>

type_synonym byte = "8 word"

section \<open>Bytes of integers and characters\<close>

primrec le_bytes :: "nat \<Rightarrow> int \<Rightarrow> byte list" where
  "le_bytes 0 x = []"
| "le_bytes (Suc n) x = word_of_int x # le_bytes n (x div 256)"

primrec le_uint :: "byte list \<Rightarrow> int" where
  "le_uint [] = 0"
| "le_uint (b # bs) = uint b + 256 * le_uint bs"

definition le_sint :: "byte list \<Rightarrow> int" where
  "le_sint bs = signed_take_bit (8 * length bs - 1) (le_uint bs)"

definition byte_of_char :: "char \<Rightarrow> byte" where
  "byte_of_char c = word_of_nat (of_char c)"

definition char_of_byte :: "byte \<Rightarrow> char" where
  "char_of_byte b = char_of (unat b)"

lemma length_le_bytes [simp]: "length (le_bytes n x) = n"
  by (induction n arbitrary: x) simp_all

lemma le_uint_le_bytes: "le_uint (le_bytes n x) = x mod 256 ^ n"
proof (induction n arbitrary: x)
  case 0
  then show ?case by simp
next
  case (Suc n)
  have "uint (word_of_int x :: byte) = x mod 256" by (simp add: unsigned_of_int take_bit_eq_mod)
  with Suc zmod_zmult2_eq [of "256 ^ n" x 256] show ?case by simp
qed

lemma le_sint_le_bytes:
  assumes "0 < n"
  shows "le_sint (le_bytes n x) = signed_take_bit (8 * n - 1) x"
proof -
  have "(256 :: int) ^ n = 2 ^ (8 * n)" by (simp add: power_mult)
  then have "le_uint (le_bytes n x) = take_bit (8 * n) x" by (simp add: le_uint_le_bytes take_bit_eq_mod)
  then show ?thesis using assms
    by (auto simp: le_sint_def signed_take_bit_take_bit)
qed

lemma le_int64 [simp]: "int64 x \<Longrightarrow> le_sint (le_bytes 8 x) = x"
  by (simp add: le_sint_le_bytes int64_def signed_take_bit_int_eq_self_iff)

lemma le_int32 [simp]: "int32 x \<Longrightarrow> le_sint (le_bytes 4 x) = x"
  by (simp add: le_sint_le_bytes int32_def signed_take_bit_int_eq_self_iff)

lemma le_word64 [simp]: "word_of_int (le_uint (le_bytes 8 (uint w))) = (w :: 64 word)"
proof -
  have "uint w mod 256 ^ 8 = uint w" using uint_lt2p [of w] by (intro mod_pos_pos_trivial) simp_all
  then show ?thesis by (simp add: le_uint_le_bytes)
qed

lemma char_of_byte_of_char [simp]: "char_of_byte (byte_of_char c) = c"
proof -
  have "of_char c < (256 :: nat)" by simp
  then have "unat (word_of_nat (of_char c) :: byte) = of_char c" by (simp add: unat_of_nat)
  then show ?thesis by (simp add: char_of_byte_def byte_of_char_def)
qed

lemma map_char_bytes [simp]: "map char_of_byte (map byte_of_char cs) = cs"
  by (induction cs) simp_all

section \<open>The layout of a struct\<close>

datatype ctype = C_int32 | C_int64 | C_uint64 | C_enum8 | C_char_array nat | C_byte_array nat | C_uint64_array nat

fun ct_size :: "ctype \<Rightarrow> nat" where
  "ct_size C_int32 = 4"
| "ct_size C_int64 = 8"
| "ct_size C_uint64 = 8"
| "ct_size C_enum8 = 1"
| "ct_size (C_char_array n) = n"
| "ct_size (C_byte_array n) = n"
| "ct_size (C_uint64_array n) = 8 * n"

fun ct_align :: "ctype \<Rightarrow> nat" where
  "ct_align C_int32 = 4"
| "ct_align C_int64 = 8"
| "ct_align C_uint64 = 8"
| "ct_align C_enum8 = 1"
| "ct_align (C_char_array n) = 1"
| "ct_align (C_byte_array n) = 1"
| "ct_align (C_uint64_array n) = 8"

definition padding :: "nat \<Rightarrow> nat \<Rightarrow> nat" where
  "padding a n = (a - n mod a) mod a"

text \<open>The members are placed from offset \<open>n\<close> on.\<close>

fun offsets :: "nat \<Rightarrow> ctype list \<Rightarrow> nat list" where
  "offsets n [] = []"
| "offsets n (t # ts) = (n + padding (ct_align t) n) # offsets (n + padding (ct_align t) n + ct_size t) ts"

fun end_offset :: "nat \<Rightarrow> ctype list \<Rightarrow> nat" where
  "end_offset n [] = n"
| "end_offset n (t # ts) = end_offset (n + padding (ct_align t) n + ct_size t) ts"

definition struct_align :: "ctype list \<Rightarrow> nat" where
  "struct_align ts = fold max (map ct_align ts) 1"

definition struct_size :: "ctype list \<Rightarrow> nat" where
  "struct_size ts = end_offset 0 ts + padding (struct_align ts) (end_offset 0 ts)"

fun pack :: "nat \<Rightarrow> (ctype \<times> byte list) list \<Rightarrow> byte list" where
  "pack n [] = []"
| "pack n ((t, bs) # fs) =
     replicate (padding (ct_align t) n) 0 @ bs @ pack (n + padding (ct_align t) n + ct_size t) fs"

fun unpack :: "nat \<Rightarrow> ctype list \<Rightarrow> byte list \<Rightarrow> byte list list" where
  "unpack n [] bs = []"
| "unpack n (t # ts) bs =
     take (ct_size t) (drop (padding (ct_align t) n) bs) #
     unpack (n + padding (ct_align t) n + ct_size t) ts (drop (padding (ct_align t) n + ct_size t) bs)"

definition pack_struct :: "(ctype \<times> byte list) list \<Rightarrow> byte list" where
  "pack_struct fs = pack 0 fs @ replicate (padding (struct_align (map fst fs)) (end_offset 0 (map fst fs))) 0"

definition well_sized :: "(ctype \<times> byte list) list \<Rightarrow> bool" where
  "well_sized fs \<longleftrightarrow> (\<forall>(t, bs) \<in> set fs. length bs = ct_size t)"

lemma well_sized_simps [simp]:
  "well_sized []" "well_sized ((t, bs) # fs) \<longleftrightarrow> length bs = ct_size t \<and> well_sized fs"
  by (auto simp: well_sized_def)

lemma length_pack: "well_sized fs \<Longrightarrow> n + length (pack n fs) = end_offset n (map fst fs)"
  by (induction n fs rule: pack.induct) (auto simp: ac_simps)

lemma length_pack_struct: "well_sized fs \<Longrightarrow> length (pack_struct fs) = struct_size (map fst fs)"
  using length_pack [of fs 0] by (simp add: pack_struct_def struct_size_def)

lemma unpack_pack: "well_sized fs \<Longrightarrow> unpack n (map fst fs) (pack n fs @ rest) = map snd fs"
  by (induction n fs arbitrary: rest rule: pack.induct) auto

lemma unpack_pack_struct: "well_sized fs \<Longrightarrow> unpack 0 (map fst fs) (pack_struct fs @ rest) = map snd fs"
  unfolding pack_struct_def append_assoc by (rule unpack_pack)

text \<open>Every member is found at the offset the layout gives it.\<close>

lemma unpack_offsets:
  "unpack n ts bs = map (\<lambda>(off, t). take (ct_size t) (drop (off - n) bs)) (zip (offsets n ts) ts)"
proof (induction n ts bs rule: unpack.induct)
  case (2 n t ts bs)
  let ?m = "n + padding (ct_align t) n + ct_size t"
  have ge: "\<And>m. off \<in> set (offsets m ts) \<Longrightarrow> m \<le> off" for off
    by (induction ts) (auto, meson add_leD1 dual_order.trans)
  have "off - ?m + (padding (ct_align t) n + ct_size t) = off - n" if "off \<in> set (offsets ?m ts)" for off
    using ge [OF that] by simp
  then show ?case
    using 2 by (auto simp: add.commute dest!: set_zip_leftD)
qed simp

section \<open>Structs and their bytes\<close>

locale struct_codec =
  fixes types :: "ctype list" and members :: "'a \<Rightarrow> (ctype \<times> byte list) list"
    and build :: "byte list list \<Rightarrow> 'a" and ok :: "'a \<Rightarrow> bool"
  assumes types: "map fst (members x) = types"
    and sized: "ok x \<Longrightarrow> well_sized (members x)"
    and build_members: "ok x \<Longrightarrow> build (map snd (members x)) = x"
begin

lemma length_to_bytes: "ok x \<Longrightarrow> length (pack_struct (members x)) = struct_size types"
  using length_pack_struct [OF sized] by (simp add: types)

lemma of_to_bytes: "ok x \<Longrightarrow> build (unpack 0 types (pack_struct (members x) @ rest)) = x"
  using unpack_pack_struct [OF sized] build_members by (simp add: types)

lemma to_bytes_inj: "ok x \<Longrightarrow> ok y \<Longrightarrow> pack_struct (members x) = pack_struct (members y) \<Longrightarrow> x = y"
  using of_to_bytes [of x "[]"] of_to_bytes [of y "[]"] by simp

text \<open>Element \<open>i\<close> of an array of structs starts at \<open>i\<close> times the size.\<close>

lemma array_element:
  assumes "\<forall>x \<in> set xs. ok x" "i < length xs"
  shows "build (unpack 0 types (drop (i * struct_size types) (concat (map (\<lambda>x. pack_struct (members x)) xs)))) = xs ! i"
  using assms
proof (induction xs arbitrary: i)
  case (Cons x xs)
  then show ?case
    by (cases i) (simp_all add: of_to_bytes length_to_bytes)
qed simp

lemma member_at_offset:
  assumes "ok x"
  shows "map (\<lambda>(off, t). take (ct_size t) (drop off (pack_struct (members x)))) (zip (offsets 0 types) types) = map snd (members x)"
  using unpack_pack_struct [OF sized [OF assms], of "[]"] unpack_offsets [of 0 types "pack_struct (members x)"]
  by (simp add: types)

end

section \<open>Enumerators\<close>

fun event_type_code :: "event_type \<Rightarrow> byte" where
  "event_type_code NewOrder = 1"
| "event_type_code PartialFill = 2"
| "event_type_code FullFill = 3"
| "event_type_code Cancel = 4"
| "event_type_code Reject = 5"
| "event_type_code Amend = 6"
| "event_type_code (EventType_other b) = b"

definition event_type_of_code :: "byte \<Rightarrow> event_type" where
  "event_type_of_code b = (if b = 1 then NewOrder else if b = 2 then PartialFill else if b = 3 then FullFill
     else if b = 4 then Cancel else if b = 5 then Reject else if b = 6 then Amend else EventType_other b)"

fun side_code :: "side \<Rightarrow> byte" where
  "side_code Buy = 1"
| "side_code Sell = 2"
| "side_code (Side_other b) = b"

definition side_of_code :: "byte \<Rightarrow> side" where
  "side_of_code b = (if b = 1 then Buy else if b = 2 then Sell else Side_other b)"

fun order_state_code :: "order_state \<Rightarrow> byte" where
  "order_state_code Pending = 1"
| "order_state_code PartiallyFilled = 2"
| "order_state_code Filled = 3"
| "order_state_code Cancelled = 4"
| "order_state_code Rejected = 5"
| "order_state_code (OrderState_other b) = b"

definition order_state_of_code :: "byte \<Rightarrow> order_state" where
  "order_state_of_code b = (if b = 1 then Pending else if b = 2 then PartiallyFilled else if b = 3 then Filled
     else if b = 4 then Cancelled else if b = 5 then Rejected else OrderState_other b)"

text \<open>The constructors for other bytes stand for bytes that name no enumerator: a value that does
  not read back as itself is none of the enum's.\<close>

definition event_type_ok :: "event_type \<Rightarrow> bool" where
  "event_type_ok t \<longleftrightarrow> event_type_of_code (event_type_code t) = t"

definition side_ok :: "side \<Rightarrow> bool" where
  "side_ok s \<longleftrightarrow> side_of_code (side_code s) = s"

definition order_state_ok :: "order_state \<Rightarrow> bool" where
  "order_state_ok s \<longleftrightarrow> order_state_of_code (order_state_code s) = s"

lemma enum_ok [simp]:
  "event_type_ok NewOrder" "event_type_ok PartialFill" "event_type_ok FullFill" "event_type_ok Cancel"
  "event_type_ok Reject" "event_type_ok Amend" "event_type_ok (EventType_other 0)"
  "side_ok Buy" "side_ok Sell" "side_ok (Side_other 0)"
  by (simp_all add: event_type_ok_def event_type_of_code_def side_ok_def side_of_code_def)

lemma code_of_code [simp]:
  "event_type_code (event_type_of_code b) = b" "side_code (side_of_code b) = b"
  by (simp_all add: event_type_of_code_def side_of_code_def)

lemma of_code_ok [simp]: "event_type_ok (event_type_of_code b)" "side_ok (side_of_code b)"
  by (simp_all add: event_type_ok_def side_ok_def)

section \<open>The four structs\<close>

definition OrderEvent_types :: "ctype list" where
  "OrderEvent_types = [C_uint64, C_uint64, C_int64, C_int64, C_int32, C_int32, C_char_array 8, C_char_array 8,
     C_enum8, C_enum8, C_byte_array 6]"

definition event_members :: "order_event \<Rightarrow> (ctype \<times> byte list) list" where
  "event_members e =
     [(C_uint64, le_bytes 8 (uint (sequence e))), (C_uint64, le_bytes 8 (uint (timestamp_ns e))),
      (C_int64, le_bytes 8 (price e)), (C_int64, le_bytes 8 (fill_price e)),
      (C_int32, le_bytes 4 (qty e)), (C_int32, le_bytes 4 (fill_qty e)),
      (C_char_array 8, map byte_of_char (symbol e)), (C_char_array 8, map byte_of_char (order_id e)),
      (C_enum8, [event_type_code (etype e)]), (C_enum8, [side_code (side e)]), (C_byte_array 6, evt_pad e)]"

fun event_of_members :: "byte list list \<Rightarrow> order_event" where
  "event_of_members [sq, ts, px, fpx, q, fq, sy, oid, t, sd, pd] =
     \<lparr>sequence = word_of_int (le_uint sq), timestamp_ns = word_of_int (le_uint ts), price = le_sint px,
      fill_price = le_sint fpx, qty = le_sint q, fill_qty = le_sint fq, symbol = map char_of_byte sy,
      order_id = map char_of_byte oid, etype = event_type_of_code (word_of_int (le_uint t)),
      side = side_of_code (word_of_int (le_uint sd)), evt_pad = pd\<rparr>"
| "event_of_members _ = zero_event"

definition LogHeader_types :: "ctype list" where
  "LogHeader_types = [C_uint64, C_uint64, C_uint64_array 6]"

text \<open>The padding words of the header are not part of \<open>log_header\<close>: they are zero from the creation
  of the file and nothing reads them.\<close>

definition header_members :: "log_header \<Rightarrow> (ctype \<times> byte list) list" where
  "header_members h =
     [(C_uint64, le_bytes 8 (uint (magic h))), (C_uint64, le_bytes 8 (uint (next_sequence h))),
      (C_uint64_array 6, replicate 48 0)]"

fun header_of_members :: "byte list list \<Rightarrow> log_header" where
  "header_of_members [m, n, pd] = \<lparr>magic = word_of_int (le_uint m), next_sequence = word_of_int (le_uint n)\<rparr>"
| "header_of_members _ = \<lparr>magic = 0, next_sequence = 0\<rparr>"

definition Order_types :: "ctype list" where
  "Order_types = [C_char_array 8, C_char_array 8, C_int64, C_int64, C_uint64, C_uint64, C_int32, C_int32,
     C_enum8, C_enum8, C_byte_array 6]"

definition order_members :: "order \<Rightarrow> (ctype \<times> byte list) list" where
  "order_members od =
     [(C_char_array 8, map byte_of_char (o_order_id od)), (C_char_array 8, map byte_of_char (o_symbol od)),
      (C_int64, le_bytes 8 (limit_price od)), (C_int64, le_bytes 8 (avg_fill_price od)),
      (C_uint64, le_bytes 8 (uint (opened_seq od))), (C_uint64, le_bytes 8 (uint (last_seq od))),
      (C_int32, le_bytes 4 (original_qty od)), (C_int32, le_bytes 4 (filled_qty od)),
      (C_enum8, [order_state_code (o_state od)]), (C_enum8, [side_code (o_side od)]), (C_byte_array 6, o_pad od)]"

fun order_of_members :: "byte list list \<Rightarrow> order" where
  "order_of_members [oid, sy, lpx, apx, os, ls, oq, fq, st, sd, pd] =
     \<lparr>o_order_id = map char_of_byte oid, o_symbol = map char_of_byte sy, limit_price = le_sint lpx,
      avg_fill_price = le_sint apx, opened_seq = word_of_int (le_uint os), last_seq = word_of_int (le_uint ls),
      original_qty = le_sint oq, filled_qty = le_sint fq, o_state = order_state_of_code (word_of_int (le_uint st)),
      o_side = side_of_code (word_of_int (le_uint sd)), o_pad = pd\<rparr>"
| "order_of_members _ = zero_order"

definition Position_types :: "ctype list" where
  "Position_types = [C_char_array 8, C_int64, C_int64, C_int64, C_int64, C_int32, C_int32, C_int64, C_int64]"

definition position_members :: "position \<Rightarrow> (ctype \<times> byte list) list" where
  "position_members p =
     [(C_char_array 8, map byte_of_char (p_symbol p)), (C_int64, le_bytes 8 (net_qty p)),
      (C_int64, le_bytes 8 (avg_entry_price p)), (C_int64, le_bytes 8 (realized_pnl p)),
      (C_int64, le_bytes 8 (unrealized_pnl p)), (C_int32, le_bytes 4 (total_buy_qty p)),
      (C_int32, le_bytes 4 (total_sell_qty p)), (C_int64, le_bytes 8 (last_price p)),
      (C_int64, le_bytes 8 (last_updated_seq p))]"

fun position_of_members :: "byte list list \<Rightarrow> position" where
  "position_of_members [sy, nq, ap, rp, up, bq, sq, lp, lu] =
     \<lparr>p_symbol = map char_of_byte sy, net_qty = le_sint nq, avg_entry_price = le_sint ap,
      realized_pnl = le_sint rp, unrealized_pnl = le_sint up, total_buy_qty = le_sint bq,
      total_sell_qty = le_sint sq, last_price = le_sint lp, last_updated_seq = le_sint lu\<rparr>"
| "position_of_members _ = zero_position"

text \<open>Values of the declared types.\<close>

definition event_typed :: "order_event \<Rightarrow> bool" where
  "event_typed e \<longleftrightarrow> event_ok e \<and> event_type_ok (etype e) \<and> side_ok (side e)"

definition order_typed :: "order \<Rightarrow> bool" where
  "order_typed od \<longleftrightarrow> length (o_order_id od) = 8 \<and> length (o_symbol od) = 8 \<and> int64 (limit_price od) \<and>
     int64 (avg_fill_price od) \<and> int32 (original_qty od) \<and> int32 (filled_qty od) \<and>
     order_state_ok (o_state od) \<and> side_ok (o_side od) \<and> length (o_pad od) = 6"

definition position_typed :: "position \<Rightarrow> bool" where
  "position_typed p \<longleftrightarrow> length (p_symbol p) = 8 \<and> int64 (net_qty p) \<and> int64 (avg_entry_price p) \<and>
     int64 (realized_pnl p) \<and> int64 (unrealized_pnl p) \<and> int32 (total_buy_qty p) \<and> int32 (total_sell_qty p) \<and>
     int64 (last_price p) \<and> int64 (last_updated_seq p)"

interpretation ev: struct_codec OrderEvent_types event_members event_of_members event_typed
  by unfold_locales
    (auto simp: event_members_def OrderEvent_types_def event_typed_def event_ok_def event_type_ok_def side_ok_def
      simp del: map_map)

interpretation hd: struct_codec LogHeader_types header_members header_of_members "\<lambda>_. True"
  by unfold_locales (auto simp: header_members_def LogHeader_types_def)

interpretation od: struct_codec Order_types order_members order_of_members order_typed
  by unfold_locales
    (auto simp: order_members_def Order_types_def order_typed_def order_state_ok_def side_ok_def simp del: map_map)

interpretation ps: struct_codec Position_types position_members position_of_members position_typed
  by unfold_locales
    (auto simp: position_members_def Position_types_def position_typed_def simp del: map_map)

definition event_bytes :: "order_event \<Rightarrow> byte list" where
  "event_bytes e = pack_struct (event_members e)"

definition event_of_bytes :: "byte list \<Rightarrow> order_event" where
  "event_of_bytes bs = event_of_members (unpack 0 OrderEvent_types bs)"

definition header_bytes :: "log_header \<Rightarrow> byte list" where
  "header_bytes h = pack_struct (header_members h)"

definition header_of_bytes :: "byte list \<Rightarrow> log_header" where
  "header_of_bytes bs = header_of_members (unpack 0 LogHeader_types bs)"

lemmas event_codec = ev.length_to_bytes [folded event_bytes_def] ev.of_to_bytes [folded event_bytes_def event_of_bytes_def]
  ev.to_bytes_inj [folded event_bytes_def] ev.member_at_offset [folded event_bytes_def]

lemmas header_codec = hd.length_to_bytes [folded header_bytes_def] hd.of_to_bytes [folded header_bytes_def header_of_bytes_def]

lemma struct_sizes [simp]:
  "struct_size OrderEvent_types = 64" "struct_size LogHeader_types = 64" "struct_size Order_types = 64"
  "struct_size Position_types = 64"
  by code_simp+

lemma sample_typed: "event_typed (sample_fill ''O1'' ''AAPL'' Buy 40 100)"
  by (simp add: event_typed_def event_ok_def sample_fill_def sample_event_def zero_event_def int32_def int64_def)

section \<open>Properties\<close>

text \<open>The layout the headers assert: \<open>OrderEvent\<close>, \<open>LogHeader\<close>, \<open>Order\<close> and \<open>Position\<close> take 64 bytes,
  an event is aligned to 8, and in none of them does the compiler insert padding: every member starts
  where the one before it ends, at the offset the tables in the comments imply.\<close>

lemma structs_fill_a_cache_line:
  "struct_size OrderEvent_types = 64 \<and> struct_align OrderEvent_types = 8 \<and>
   offsets 0 OrderEvent_types = [0, 8, 16, 24, 32, 36, 40, 48, 56, 57, 58] \<and>
   struct_size LogHeader_types = 64 \<and> offsets 0 LogHeader_types = [0, 8, 16] \<and>
   struct_size Order_types = 64 \<and> offsets 0 Order_types = [0, 8, 16, 24, 32, 40, 48, 52, 56, 57, 58] \<and>
   struct_size Position_types = 64 \<and> offsets 0 Position_types = [0, 8, 16, 24, 32, 40, 44, 48, 56] \<and>
   list_all (\<lambda>ts. sum_list (map ct_size ts) = struct_size ts)
     [OrderEvent_types, LogHeader_types, Order_types, Position_types]"
  by code_simp

text \<open>C32. The bytes of an event determine it: an event of the declared types takes exactly 64 bytes, each
  member at its offset, reading them back gives the same event whatever follows them, and different
  events have different bytes.\<close>

theorem event_bytes_round_trip:
  assumes "event_typed e"
  shows "length (event_bytes e) = 64 \<and> event_of_bytes (event_bytes e @ rest) = e \<and>
    map (\<lambda>(off, t). take (ct_size t) (drop off (event_bytes e))) (zip (offsets 0 OrderEvent_types) OrderEvent_types)
      = map snd (event_members e) \<and>
    (\<forall>e'. event_typed e' \<longrightarrow> event_bytes e' = event_bytes e \<longrightarrow> e' = e)"
  using event_codec(1,2,4) [OF assms] event_codec(3) [OF _ assms] by auto

theorem event_bytes_round_trip_witness:
  "length (event_bytes (sample_fill ''O1'' ''AAPL'' Buy 40 100)) = 64 \<and>
   event_of_bytes (event_bytes (sample_fill ''O1'' ''AAPL'' Buy 40 100)) = sample_fill ''O1'' ''AAPL'' Buy 40 100"
  using event_bytes_round_trip [OF sample_typed, of "[]"] by simp

end
