(* ===== verification/FIXGateway.thy ===== *)
theory FIXGateway
  imports RiskChecker Killswitch Struct_Layout
begin

text \<open>
  \<open>gateway/FIXGateway.h\<close> and \<open>gateway/FIXGateway.cpp\<close>: the adapter between QuickFIX and the
  bookkeeping, with the part of \<open>src/main.cpp\<close> that builds the components (\<open>startup\<close>) and its signal
  handler.

  The gateway is a record of the components it refers to and of its own fields. The report accessors
  and \<open>sendToTarget\<close> are parameters, as is the cracker: what \<open>crack\<close> does with a message is to throw,
  to route it to the handler of execution reports, or to route it to a handler with no effect. The
  handlers declared \<open>noexcept\<close> end the process when an exception leaves them.
\<close>

section \<open>The gateway\<close>

record gateway =
  g_log :: event_log
  g_tracker :: position_tracker
  g_orders :: order_manager
  g_risk :: risk_checker
  session_id :: string
  connected :: bool
  order_counter :: "64 word"

datatype 'a noexcept = Returns 'a | Terminates cpp_exn

definition new_gateway :: "event_log \<Rightarrow> position_tracker \<Rightarrow> order_manager \<Rightarrow> risk_checker \<Rightarrow> gateway" where
  "new_gateway lg pt om rc = \<lparr>g_log = lg, g_tracker = pt, g_orders = om, g_risk = rc,
     session_id = '''', connected = False, order_counter = 0\<rparr>"

definition is_connected :: "gateway \<Rightarrow> bool" where
  "is_connected g = connected g"

definition onCreate :: "string \<Rightarrow> gateway \<Rightarrow> gateway" where
  "onCreate i g = g\<lparr>session_id := i\<rparr>"

definition onLogon :: "string \<Rightarrow> gateway \<Rightarrow> gateway" where
  "onLogon i g = g\<lparr>connected := True\<rparr>"

definition onLogout :: "string \<Rightarrow> gateway \<Rightarrow> gateway" where
  "onLogout i g = g\<lparr>connected := False\<rparr>"

definition onMessage :: "'r report_api \<Rightarrow> timespec \<Rightarrow> 'r \<Rightarrow> gateway \<Rightarrow> gateway noexcept option" where
  "onMessage api ts report g = do {
     maybe_evt \<leftarrow> from_execution_report api report;
     case maybe_evt of
       Inl ex \<Rightarrow> Some (Terminates ex)
     | Inr None \<Rightarrow> Some (Returns g)
     | Inr (Some evt) \<Rightarrow> do {
         (lg, res) \<leftarrow> log_append ts evt (g_log g);
         case res of
           Inl ex \<Rightarrow> Some (Terminates ex)
         | Inr _ \<Rightarrow> do {
             pt \<leftarrow> pt_apply_event evt (g_tracker g);
             om \<leftarrow> om_apply_event evt (g_orders g);
             Some (Returns (g\<lparr>g_log := lg, g_tracker := pt, g_orders := om\<rparr>)) } } }"

text \<open>The arguments of the debug line of \<open>onMessage\<close>. Its \<open>%s\<close> starts at \<open>symbol\<close> and stops at the
  first zero byte of the event, which for a symbol of eight bytes lies behind the order id.\<close>

definition trace_symbol :: "order_event \<Rightarrow> string" where
  "trace_symbol e = takeWhile (\<lambda>c. c \<noteq> NUL)
     (map char_of_byte (drop (offsets 0 OrderEvent_types ! 6) (event_bytes e)))"

definition trace_line :: "order_event \<Rightarrow> string \<times> string \<times> string \<times> int \<times> double" where
  "trace_line e =
     (order_state_to_string
        (if etype e = PartialFill then PartiallyFilled else if etype e = FullFill then Filled
         else if etype e = Cancel then Cancelled else Rejected),
      (if side e = Buy then ''BUY'' else ''SELL''),
      trace_symbol e, fill_qty e, from_fixed (fill_price e))"

definition fromApp ::
  "('m \<Rightarrow> cpp_exn + 'r option) \<Rightarrow> 'r report_api \<Rightarrow> timespec \<Rightarrow> 'm \<Rightarrow> gateway \<Rightarrow> gateway noexcept option" where
  "fromApp crack api ts msg g =
     (case crack msg of
        Inl ex \<Rightarrow> Some (Terminates ex)
      | Inr None \<Rightarrow> Some (Returns g)
      | Inr (Some report) \<Rightarrow> onMessage api ts report g)"

text \<open>Three callbacks have empty bodies: the message goes on unchanged.\<close>

definition toAdmin :: "'m \<Rightarrow> string \<Rightarrow> gateway \<Rightarrow> 'm \<times> gateway" where
  "toAdmin msg i g = (msg, g)"

definition toApp :: "'m \<Rightarrow> string \<Rightarrow> gateway \<Rightarrow> 'm \<times> gateway" where
  "toApp msg i g = (msg, g)"

definition fromAdmin :: "'m \<Rightarrow> string \<Rightarrow> gateway \<Rightarrow> gateway" where
  "fromAdmin msg i g = g"

text \<open>The interface QuickFIX calls: one constructor per callback, and what the gateway does on each.\<close>

datatype 'm callback =
  CB_onCreate string | CB_onLogon string | CB_onLogout string | CB_toAdmin 'm string | CB_toApp 'm string
  | CB_fromAdmin 'm string | CB_fromApp timespec 'm string

fun dispatch ::
  "('m \<Rightarrow> cpp_exn + 'r option) \<Rightarrow> 'r report_api \<Rightarrow> 'm callback \<Rightarrow> gateway \<Rightarrow> gateway noexcept option" where
  "dispatch crack api (CB_onCreate i) g = Some (Returns (onCreate i g))"
| "dispatch crack api (CB_onLogon i) g = Some (Returns (onLogon i g))"
| "dispatch crack api (CB_onLogout i) g = Some (Returns (onLogout i g))"
| "dispatch crack api (CB_toAdmin m i) g = Some (Returns (snd (toAdmin m i g)))"
| "dispatch crack api (CB_toApp m i) g = Some (Returns (snd (toApp m i g)))"
| "dispatch crack api (CB_fromAdmin m i) g = Some (Returns (fromAdmin m i g))"
| "dispatch crack api (CB_fromApp ts m i) g = fromApp crack api ts m g"

definition next_order_id :: "gateway \<Rightarrow> string \<times> gateway" where
  "next_order_id g = (''ORD'' @ to_dec (unat (order_counter g)), g\<lparr>order_counter := order_counter g + 1\<rparr>)"

text \<open>\<open>send_order\<close>: the gateway afterwards, the messages handed to QuickFIX, and the returned string
  or the exception.\<close>

definition send_order ::
  "session_send \<Rightarrow> timespec \<Rightarrow> string_view \<Rightarrow> side \<Rightarrow> int \<Rightarrow> int \<Rightarrow> gateway
     \<Rightarrow> (gateway \<times> fix_message list \<times> (cpp_exn + string)) option" where
  "send_order send ts symb sd q price_fp g =
     (if \<not> is_connected g then Some (g, [], Inr [])
      else do {
        res \<leftarrow> check_full (g_risk g) symb sd q price_fp (g_tracker g) (g_orders g);
        if res \<noteq> Pass then Some (g, [], Inr [])
        else do {
          let (oid, g1) = next_order_id g;
          evt \<leftarrow> make_new_order symb sd q price_fp (sv_of oid);
          (lg, a) \<leftarrow> log_append ts evt (g_log g1);
          case a of
            Inl ex \<Rightarrow> Some (g1, [], Inl ex)
          | Inr _ \<Rightarrow> do {
              om \<leftarrow> om_apply_event evt (g_orders g1);
              let g2 = g1\<lparr>g_log := lg, g_orders := om\<rparr>;
              let fix_order = to_new_order_single evt;
              case send (session_id g2) fix_order of
                Send_SessionNotFound \<Rightarrow> Some (g2, [fix_order], Inl SessionNotFound)
              | Send_Returned _ \<Rightarrow> Some (g2, [fix_order], Inr oid) } } })"

definition send_order_d ::
  "session_send \<Rightarrow> timespec \<Rightarrow> string_view \<Rightarrow> side \<Rightarrow> int \<Rightarrow> double \<Rightarrow> gateway
     \<Rightarrow> (gateway \<times> fix_message list \<times> (cpp_exn + string)) option" where
  "send_order_d send ts symb sd q px g = do {
     price_fp \<leftarrow> to_fixed px;
     send_order send ts symb sd q price_fp g }"

definition emergency_cancel_all ::
  "session_send \<Rightarrow> int \<Rightarrow> int \<Rightarrow> gateway \<Rightarrow> (int \<times> bool \<times> ks_run) option" where
  "emergency_cancel_all send t0 t1 g =
     execute send (new_killswitch (session_id g)) ''KS'' 100 t0 t1 (g_orders g)"

section \<open>Start-up and signals\<close>

text \<open>\<open>main\<close> up to the construction of the gateway: the file system entry afterwards and the gateway,
  or the exception of the log's constructor, which nothing catches.\<close>

definition startup :: "os_env \<Rightarrow> log_file option \<Rightarrow> (log_file option \<times> (cpp_exn + gateway)) option" where
  "startup os entry = do {
     (entry', r) \<leftarrow> open_or_create os entry;
     case r of
       Inl ex \<Rightarrow> Some (entry', Inl ex)
     | Inr lg \<Rightarrow> do {
         pt \<leftarrow> pt_replay_from lg new_position_tracker;
         om \<leftarrow> om_replay_from lg new_order_manager;
         Some (entry', Inr (new_gateway lg pt om (new_risk_checker default_limits))) } }"

record main_state =
  g_shutdown :: bool
  g_gateway :: "gateway option"

definition signal_handler ::
  "session_send \<Rightarrow> int \<Rightarrow> int \<Rightarrow> main_state \<Rightarrow> (main_state \<times> ks_run option) option" where
  "signal_handler send t0 t1 m =
     (let m1 = m\<lparr>g_shutdown := True\<rparr> in
      case g_gateway m1 of
        None \<Rightarrow> Some (m1, None)
      | Some g \<Rightarrow> do {
          (elapsed, over, r) \<leftarrow> emergency_cancel_all send t0 t1 g;
          Some (m1, Some r) })"

section \<open>Order ids\<close>

lemma next_order_id_fields:
  assumes "next_order_id g = (oid, g1)"
  shows "oid = ''ORD'' @ to_dec (unat (order_counter g))" "g1 = g\<lparr>order_counter := order_counter g + 1\<rparr>"
  using assms by (simp_all add: next_order_id_def)

lemma order_id_no_NUL: "NUL \<notin> set (''ORD'' @ to_dec n)"
  using to_dec_no_NUL [of n] by (simp add: NUL_def)

text \<open>The id an order is filed under: the first eight bytes. It is the whole id below 100000 orders.\<close>

definition filed_id :: "nat \<Rightarrow> string" where
  "filed_id n = cstr 8 (c_str (''ORD'' @ to_dec n))"

lemma filed_id_take: "filed_id n = take 8 (''ORD'' @ to_dec n)"
  unfolding filed_id_def by (rule cstr_c_str [OF order_id_no_NUL])

lemma filed_id_full: "n < 100000 \<Longrightarrow> filed_id n = ''ORD'' @ to_dec n"
proof -
  assume "n < 100000"
  then have "length (to_dec n) \<le> 5" by (intro length_to_dec) auto
  then show ?thesis by (simp add: filed_id_take)
qed

lemma filed_id_inj: "m < 100000 \<Longrightarrow> n < 100000 \<Longrightarrow> filed_id m = filed_id n \<Longrightarrow> m = n"
  by (simp add: filed_id_full to_dec_inj)

section \<open>The outcomes of \<open>send_order\<close>\<close>

text \<open>Either nothing happens (not connected, or the check fails), or the log is full and only the
  counter moves, or the order is logged, booked and handed to QuickFIX, in that order.\<close>

lemma send_order_cases:
  assumes "send_order send ts symb sd q px g = Some (g', ms, res)"
  obtains
    (blocked) "g' = g" "ms = []" "res = Inr []"
      "\<not> connected g \<or> (\<exists>r. check_full (g_risk g) symb sd q px (g_tracker g) (g_orders g) = Some r \<and> r \<noteq> Pass)"
  | (full) evt lg ex where "connected g" "check_full (g_risk g) symb sd q px (g_tracker g) (g_orders g) = Some Pass"
      "make_new_order symb sd q px (sv_of (fst (next_order_id g))) = Some evt"
      "log_append ts evt (g_log g) = Some (lg, Inl ex)"
      "g' = g\<lparr>order_counter := order_counter g + 1\<rparr>" "ms = []" "res = Inl ex"
  | (booked) evt lg sq om where "connected g" "check_full (g_risk g) symb sd q px (g_tracker g) (g_orders g) = Some Pass"
      "make_new_order symb sd q px (sv_of (fst (next_order_id g))) = Some evt"
      "log_append ts evt (g_log g) = Some (lg, Inr sq)" "om_apply_event evt (g_orders g) = Some om"
      "g' = g\<lparr>order_counter := order_counter g + 1, g_log := lg, g_orders := om\<rparr>"
      "ms = [to_new_order_single evt]" "res = Inr (fst (next_order_id g)) \<or> res = Inl SessionNotFound"
proof (cases "connected g")
  case False
  with assms show thesis by (intro blocked) (auto simp: send_order_def is_connected_def)
next
  case True
  with assms obtain r where r: "check_full (g_risk g) symb sd q px (g_tracker g) (g_orders g) = Some r"
    by (auto simp: send_order_def is_connected_def Option.bind_eq_Some_conv)
  show thesis
  proof (cases "r = Pass")
    case False
    with assms True r show thesis by (intro blocked) (auto simp: send_order_def is_connected_def)
  next
    case pass: True
    let ?oid = "fst (next_order_id g)"
    from assms True r pass obtain evt lg a where
      e: "make_new_order symb sd q px (sv_of ?oid) = Some evt" and
      l: "log_append ts evt (g_log g) = Some (lg, a)"
      by (auto simp: send_order_def is_connected_def Option.bind_eq_Some_conv next_order_id_def Let_def)
    show thesis
    proof (cases a)
      case (Inl ex)
      with assms True r pass e l show thesis
        by (intro full) (auto simp: send_order_def is_connected_def next_order_id_def Let_def)
    next
      case (Inr sq)
      with assms True r pass e l obtain om where om: "om_apply_event evt (g_orders g) = Some om"
        by (auto simp: send_order_def is_connected_def next_order_id_def Let_def Option.bind_eq_Some_conv)
      with Inr assms True r pass e l show thesis
        by (intro booked [of evt lg sq om])
          (auto simp: send_order_def is_connected_def next_order_id_def Let_def split: send_outcome.splits)
    qed
  qed
qed

lemma onMessage_cases:
  assumes "onMessage api ts report g = Some (Returns g')"
  obtains
    (ack) "from_execution_report api report = Some (Inr None)" "g' = g"
  | (booked) evt lg sq pt om where "from_execution_report api report = Some (Inr (Some evt))"
      "log_append ts evt (g_log g) = Some (lg, Inr sq)" "pt_apply_event evt (g_tracker g) = Some pt"
      "om_apply_event evt (g_orders g) = Some om" "g' = g\<lparr>g_log := lg, g_tracker := pt, g_orders := om\<rparr>"
proof -
  from assms obtain m where m: "from_execution_report api report = Some m"
    by (auto simp: onMessage_def Option.bind_eq_Some_conv)
  show thesis
  proof (cases m)
    case (Inl ex)
    with assms m show thesis by (simp add: onMessage_def)
  next
    case (Inr o')
    show thesis
    proof (cases o')
      case None
      with assms m Inr show thesis by (intro ack) (auto simp: onMessage_def)
    next
      case (Some evt)
      with assms m Inr obtain lg a where l: "log_append ts evt (g_log g) = Some (lg, a)"
        by (auto simp: onMessage_def Option.bind_eq_Some_conv)
      with assms m Inr Some show thesis
        by (cases a) (auto simp: onMessage_def Option.bind_eq_Some_conv intro: booked)
    qed
  qed
qed

section \<open>Properties\<close>

lemma log_append_Inl:
  "log_append ts evt lg = Some (lg', Inl ex) \<Longrightarrow> lg' = lg \<and> ex = OverflowError ''EventLog full''"
  by (auto simp: log_append_def Let_def split: if_splits)

text \<open>A gateway just started on an empty log, logged on.\<close>

definition sample_gateway :: gateway where
  "sample_gateway = onLogon ''S'' (onCreate ''S''
     (new_gateway empty_log new_position_tracker new_order_manager (new_risk_checker default_limits)))"

definition sample_ts :: timespec where
  "sample_ts = \<lparr>tv_sec = 1, tv_nsec = 5\<rparr>"

lemma sample_gateway_fields [simp]:
  "g_log sample_gateway = empty_log" "g_tracker sample_gateway = new_position_tracker"
  "g_orders sample_gateway = new_order_manager" "g_risk sample_gateway = new_risk_checker default_limits"
  "connected sample_gateway" "order_counter sample_gateway = 0"
  by (simp_all add: sample_gateway_def onLogon_def onCreate_def new_gateway_def)

lemma sample_check:
  "check_full (new_risk_checker default_limits) (sv_of ''AAPL'') Buy 100 175000000 new_position_tracker new_order_manager
     = Some Pass"
proof -
  have "pt_get new_position_tracker (sv_of ''AAPL'') = Some None" by (simp add: pt_get_map)
  moreover have "open_exposure new_order_manager (sv_of ''AAPL'') = Some 0"
    by (simp add: open_exposure_def new_order_manager_def)
  ultimately show ?thesis
    by (simp add: check_full_def new_risk_checker_def default_limits_def PRICE_SCALE_def order_delta_def
        outside_limit_def Let_def i64_def int64_def)
qed

text \<open>What an accepted order does, when the log has room.\<close>

lemma send_order_runs:
  assumes g: "connected g" "check_full (g_risk g) symb sd q px (g_tracker g) (g_orders g) = Some Pass"
    and r: "readable 8 (sv_data symb)" "int32 q" "int64 px"
    and ok: "log_ok (g_log g)" "length (log_events (g_log g)) < MAX_EVENTS" "om_ok (g_orders g)"
  obtains e lg om where "make_new_order symb sd q px (sv_of (fst (next_order_id g))) = Some e"
    "log_append ts e (g_log g) = Some (lg, Inr (next_seq (g_log g)))" "om_apply_event e (g_orders g) = Some om"
    "send_order send ts symb sd q px g = Some (g\<lparr>order_counter := order_counter g + 1, g_log := lg, g_orders := om\<rparr>,
       [to_new_order_single e],
       (case send (session_id g) (to_new_order_single e) of
          Send_Returned _ \<Rightarrow> Inr (fst (next_order_id g)) | Send_SessionNotFound \<Rightarrow> Inl SessionNotFound))"
proof -
  obtain e where e: "make_new_order symb sd q px (sv_of (fst (next_order_id g))) = Some e"
    using make_new_order_eq [OF r(1), of "sv_of (fst (next_order_id g))"] by simp
  note ev = make_new_order_fields(1,10) [OF e]
  obtain lg where lg: "log_append ts e (g_log g) = Some (lg, Inr (next_seq (g_log g)))"
    using log_append_ok [OF ok(1), of ts e] ok(2) by (auto simp: length_log_events)
  have "om_spec e (om_map (g_orders g)) \<noteq> None" using ev(1) by (simp add: om_spec_def)
  then obtain om where om: "om_apply_event e (g_orders g) = Some om"
    using om_apply_event_map [OF ok(3) ev(2) [OF r(3,2)]] by (cases "om_apply_event e (g_orders g)") auto
  show thesis
    by (rule that [OF e lg om])
      (use g e lg om in \<open>simp add: send_order_def is_connected_def next_order_id_def Let_def split: send_outcome.split\<close>)
qed

lemma send_order_sends:
  assumes "connected g" "check_full (g_risk g) symb sd q px (g_tracker g) (g_orders g) = Some Pass"
    and "readable 8 (sv_data symb)" "int32 q" "int64 px"
    and "log_ok (g_log g)" "length (log_events (g_log g)) < MAX_EVENTS" "om_ok (g_orders g)"
  shows "\<exists>g' m res. send_order send ts symb sd q px g = Some (g', [m], res)"
  using send_order_runs [OF assms, of ts send] by metis

lemma sample_send:
  obtains g' m e where "send_order send sample_ts (sv_of ''AAPL'') Buy 100 175000000 sample_gateway
      = Some (g', [m], (case send (session_id sample_gateway) m of
          Send_Returned _ \<Rightarrow> Inr (fst (next_order_id sample_gateway)) | Send_SessionNotFound \<Rightarrow> Inl SessionNotFound))"
    "length (log_events (g_log g')) = 1" "g_tracker g' = new_position_tracker"
    "om_map (g_orders g') = [''ORD0'' \<mapsto> opened_order e]" "event_symbol e = ''AAPL''" "side e = Buy" "qty e = 100"
proof -
  have c: "int32 100" "int64 175000000" by (simp_all add: int32_def int64_def)
  obtain e lg om where
    e: "make_new_order (sv_of ''AAPL'') Buy 100 175000000 (sv_of (fst (next_order_id sample_gateway))) = Some e" and
    lg: "log_append sample_ts e (g_log sample_gateway) = Some (lg, Inr (next_seq (g_log sample_gateway)))" and
    om: "om_apply_event e (g_orders sample_gateway) = Some om" and
    s: "send_order send sample_ts (sv_of ''AAPL'') Buy 100 175000000 sample_gateway = Some (sample_gateway\<lparr>order_counter
        := order_counter sample_gateway + 1, g_log := lg, g_orders := om\<rparr>, [to_new_order_single e],
       (case send (session_id sample_gateway) (to_new_order_single e) of
          Send_Returned _ \<Rightarrow> Inr (fst (next_order_id sample_gateway)) | Send_SessionNotFound \<Rightarrow> Inl SessionNotFound))"
    by (rule send_order_runs [of sample_gateway "sv_of ''AAPL''" Buy 100 175000000 sample_ts send])
      (simp_all add: sample_check c MAX_EVENTS_def)
  have names: "cstr 8 (c_str ''AAPL'') = ''AAPL''" "filed_id 0 = ''ORD0''" by code_simp+
  note ev = make_new_order_fields [OF e]
  have oid: "event_oid e = ''ORD0''" "event_symbol e = ''AAPL''"
    using ev(8,9) names by (simp_all add: next_order_id_def filed_id_def)
  have "om_spec e Map.empty = Some (om_map om)"
    using om_apply_event_Some [OF _ ev(10) om] c by simp
  then have "om_map om = [''ORD0'' \<mapsto> opened_order e]" using ev(1) oid by (simp add: om_spec_def MAX_ORDERS_def)
  moreover have "length (log_events lg) = 1" using log_append_events(2) [OF _ lg] by simp
  ultimately show thesis using s ev(2,3) oid(2) by (intro that [OF s]) simp_all
qed

text \<open>C25. An order that passes the risk check on a connected gateway does go out: with room in the log,
  \<open>send_order\<close> is defined, hands exactly one message to QuickFIX and returns the new id, or lets
  \<open>SessionNotFound\<close> through when QuickFIX throws it.\<close>

theorem accepted_order_goes_out:
  assumes "connected g" "check_full (g_risk g) symb sd q px (g_tracker g) (g_orders g) = Some Pass"
    and "readable 8 (sv_data symb)" "int32 q" "int64 px"
    and "log_ok (g_log g)" "length (log_events (g_log g)) < MAX_EVENTS" "om_ok (g_orders g)"
  shows "\<exists>g' e. send_order send ts symb sd q px g = Some (g', [to_new_order_single e],
      (case send (session_id g) (to_new_order_single e) of
         Send_Returned _ \<Rightarrow> Inr (fst (next_order_id g)) | Send_SessionNotFound \<Rightarrow> Inl SessionNotFound))"
  using send_order_runs [OF assms, of ts send] by metis

theorem accepted_order_goes_out_witness:
  "\<exists>g' m. send_order (\<lambda>s m. Send_Returned True) sample_ts (sv_of ''AAPL'') Buy 100 175000000 sample_gateway
      = Some (g', [m], Inr (fst (next_order_id sample_gateway)))"
  using accepted_order_goes_out [of sample_gateway "sv_of ''AAPL''" Buy 100 175000000 "\<lambda>s m. Send_Returned True" sample_ts]
    sample_check by (auto simp: MAX_EVENTS_def int32_def int64_def)

text \<open>C10. Write ahead: \<open>send_order\<close> hands a message to QuickFIX only when the gateway is connected and the
  risk check passes, only one message, and only after the order was appended to the log and booked:
  the log has grown by exactly the order's event and the orders are those after applying it. In every
  other case no message is sent and neither the log nor the orders change.\<close>

theorem send_order_writes_ahead:
  assumes "log_ok (g_log g)" "send_order send ts symb sd q px g = Some (g', ms, res)"
  shows "ms = [] \<and> g_log g' = g_log g \<and> g_orders g' = g_orders g \<and> g_tracker g' = g_tracker g \<or>
    (\<exists>e. ms = [to_new_order_single e] \<and> connected g \<and>
      check_full (g_risk g) symb sd q px (g_tracker g) (g_orders g) = Some Pass \<and>
      etype e = NewOrder \<and> side e = sd \<and> qty e = q \<and> price e = px \<and> event_symbol e = cstr 8 (sv_data symb) \<and>
      log_events (g_log g') = log_events (g_log g) @ [e\<lparr>sequence := next_seq (g_log g), timestamp_ns := now_ns ts\<rparr>] \<and>
      om_apply_event e (g_orders g) = Some (g_orders g') \<and> g_tracker g' = g_tracker g)"
  using assms(2)
proof (cases rule: send_order_cases)
  case (full evt lg ex)
  then show ?thesis by simp
next
  case (booked evt lg sq om)
  have "log_events lg = log_events (g_log g) @ [evt\<lparr>sequence := next_seq (g_log g), timestamp_ns := now_ns ts\<rparr>]"
    by (rule log_append_events(2) [OF assms(1) booked(4)])
  with booked make_new_order_fields [OF booked(3)] show ?thesis by auto
qed simp

theorem send_order_writes_ahead_witness:
  "\<exists>g' m e res. send_order (\<lambda>s m. Send_Returned True) sample_ts (sv_of ''AAPL'') Buy 100 175000000 sample_gateway
      = Some (g', [m], res) \<and> m = to_new_order_single e \<and> length (log_events (g_log g')) = 1"
proof -
  obtain g' m res where s: "send_order (\<lambda>s m. Send_Returned True) sample_ts (sv_of ''AAPL'') Buy 100 175000000 sample_gateway
      = Some (g', [m], res)" by (rule sample_send)
  from send_order_writes_ahead [OF _ s] s show ?thesis by auto
qed

text \<open>A failed send is not undone: when QuickFIX throws \<open>SessionNotFound\<close>, the exception leaves
  \<open>send_order\<close> while the order stays in the log and in the table, open and counted as exposure although
  the exchange never saw it.\<close>

lemma failed_send_leaves_order_booked:
  assumes "om_ok (g_orders g)" "int32 q" "int64 px" "\<forall>m. send (session_id g) m = Send_SessionNotFound"
    and "send_order send ts symb sd q px g = Some (g', ms, res)" "ms \<noteq> []"
    and "order_count (g_orders g) < MAX_ORDERS"
  shows "res = Inl SessionNotFound \<and>
    (\<exists>od. om_map (g_orders g') (filed_id (unat (order_counter g))) = Some od \<and> is_open od \<and> original_qty od = q)"
  using assms(5)
proof (cases rule: send_order_cases)
  case (booked evt lg sq om)
  have e: "event_ok evt" "etype evt = NewOrder" "event_oid evt = filed_id (unat (order_counter g))" "qty evt = q"
    using make_new_order_fields [OF booked(3)] assms(2,3) by (simp_all add: filed_id_def next_order_id_def)
  have m: "om_map om = (om_map (g_orders g))(event_oid evt \<mapsto> opened_order evt)"
    using om_apply_event_Some [OF assms(1) e(1) booked(5)] e(2) assms(7) om_okD(5) [OF assms(1)]
    by (auto simp: om_spec_def order_count_def)
  have "res = Inl SessionNotFound"
    using assms(4,5) booked
    by (auto simp: send_order_def is_connected_def next_order_id_def Let_def)
  with m e booked(6) show ?thesis by (auto simp: opened_order_def is_open_def)
qed (use assms(6) in simp_all)

text \<open>The first 100000 orders of a process are filed under pairwise different ids, although the table
  and the messages keep only eight bytes of an id.\<close>

lemma order_ids_unique:
  assumes "unat (order_counter g) < 100000" "unat (order_counter g') < 100000"
    and "cstr 8 (c_str (fst (next_order_id g))) = cstr 8 (c_str (fst (next_order_id g')))"
  shows "order_counter g = order_counter g'"
  using filed_id_inj [OF assms(1,2)] assms(3) by (simp add: filed_id_def next_order_id_def word_unat_eq_iff)

text \<open>From the order with number 100000 on ids collide: \<open>ORD100000\<close> is cut to \<open>ORD10000\<close>, so the order
  is filed, and sent to the exchange, under the id of the order with number 10000, and the handler of
  new orders overwrites that order.\<close>

lemma order_id_collision:
  "fst (next_order_id (g\<lparr>order_counter := 100000\<rparr>)) = ''ORD100000'' \<and>
   cstr 8 (c_str (fst (next_order_id (g\<lparr>order_counter := 100000\<rparr>)))) =
   cstr 8 (c_str (fst (next_order_id (g\<lparr>order_counter := 10000\<rparr>))))"
proof -
  have digits: "char_of (49 :: nat) = CHR ''1''" "char_of (48 :: nat) = CHR ''0''" by code_simp+
  have d: "to_dec 100000 = ''100000''" "to_dec 10000 = ''10000''" 
    using digits by (simp_all add: to_dec.simps digit_char_def)
  have c: "cstr 8 (c_str (''ORD'' @ ''100000'')) = cstr 8 (c_str (''ORD'' @ ''10000''))" by code_simp
  have u: "unat (100000 :: 64 word) = 100000" "unat (10000 :: 64 word) = 10000" by simp_all
  show ?thesis using c by (simp add: next_order_id_def u d)
qed

text \<open>An exception does not leave the handlers of inbound messages, it ends the process: a report
  whose translation throws, for instance because a field is missing or malformed, and a report that
  meets a full log both end in \<open>std::terminate\<close>, before anything is booked.\<close>

lemma inbound_exception_terminates:
  assumes "from_execution_report api r = Some (Inl ex) \<or>
    (\<exists>evt. from_execution_report api r = Some (Inr (Some evt)) \<and> ex = OverflowError ''EventLog full'' \<and>
       MAX_EVENTS \<le> unat (next_seq (g_log g)))"
  shows "onMessage api ts r g = Some (Terminates ex)"
  using assms by (auto simp: onMessage_def log_append_def Let_def)

text \<open>The debug line of \<open>onMessage\<close> prints the symbol only when it is shorter than eight bytes: for a
  symbol that fills its field the \<open>%s\<close> runs on into the order id.\<close>

lemma trace_line_symbol:
  assumes "event_ok e" "NUL \<notin> set (event_oid e)"
  shows "trace_symbol e = (if length (event_symbol e) < 8 then event_symbol e
    else event_symbol e @ (if length (event_oid e) < 8 then event_oid e
      else event_oid e @ takeWhile (\<lambda>c. c \<noteq> NUL) (map char_of_byte ([event_type_code (etype e), side_code (side e)] @ evt_pad e))))"
proof -
  have "offsets 0 OrderEvent_types ! 6 = 40" by code_simp
  then have tail: "map char_of_byte (drop (offsets 0 OrderEvent_types ! 6) (event_bytes e)) =
      symbol e @ order_id e @ map char_of_byte ([event_type_code (etype e), side_code (side e)] @ evt_pad e)"
    using assms(1) by (simp add: event_bytes_def pack_struct_def event_members_def padding_def struct_align_def event_ok_def
        map_char_bytes [unfolded map_map] o_def)
  have tw: "takeWhile (\<lambda>c. c \<noteq> NUL) (xs @ ys) = (if length (cstr 8 xs) < 8 then cstr 8 xs else cstr 8 xs @ takeWhile (\<lambda>c. c \<noteq> NUL) ys)"
    if "length xs = 8" for xs ys
  proof (cases "NUL \<in> set xs")
    case True
    then have "takeWhile (\<lambda>c. c \<noteq> NUL) xs \<noteq> xs" by (metis set_takeWhileD)
    then have "length (takeWhile (\<lambda>c. c \<noteq> NUL) xs) < 8"
      using that by (metis length_takeWhile_le nat_less_le takeWhile_eq_take take_all order_refl)
    with True that show ?thesis by (auto simp: cstr_def takeWhile_append1)
  next
    case False
    then have all: "\<forall>x \<in> set xs. x \<noteq> NUL" by auto
    then have t: "takeWhile (\<lambda>c. c \<noteq> NUL) xs = xs" by (simp add: takeWhile_eq_all_conv)
    show ?thesis using that all by (simp add: cstr_def t)
  qed
  show ?thesis
    unfolding trace_symbol_def tail event_symbol_def event_oid_def
    using event_okD(7,8) [OF assms(1)] by (simp add: tw)
qed

end
