(* ===== verification/EventLog_Concurrency.thy ===== *)
theory EventLog_Concurrency
  imports EventLog
begin

text \<open>
  The single-writer, multi-reader protocol of \<open>EventLog\<close> (\<open>include/EventLog.h\<close>) at the level of its
  memory accesses. \<open>append\<close> is four steps: the relaxed load of \<open>next_seq_\<close> with the check against
  \<open>MAX_EVENTS\<close>, the plain store of the event, the release store of \<open>next_seq_\<close> and the plain store of
  the header. \<open>replay\<close> is an acquire load of \<open>next_seq_\<close> and one plain load per event.

  The memory model is release/acquire by views. The stores to \<open>next_seq_\<close> form a history, and each
  carries the set of slots that were written before it; an acquire load may return any store that is
  not older than the last one this reader saw, and adds the slots of that store to the reader's view.
  A plain load of a slot that is not in the view is a data race.
\<close>

section \<open>States and steps\<close>

datatype writer_pc =
  W_Idle | W_Loaded "64 word" order_event | W_Stored "64 word" | W_Published "64 word"

datatype reader_pc =
  R_Idle | R_Loop nat nat "order_event list" | R_Race

record reader =
  r_seen :: nat
  r_view :: "nat set"
  r_pc :: reader_pc

record world =
  disk :: log_file
  stores :: "(64 word \<times> nat set) list"
  written :: "nat set"
  w_pc :: writer_pc
  readers :: "nat \<Rightarrow> reader"

definition published :: "world \<Rightarrow> nat" where
  "published w = unat (fst (last (stores w)))"

definition published_events :: "world \<Rightarrow> order_event list" where
  "published_events w = map (events (disk w)) [0..<published w]"

inductive step :: "world \<Rightarrow> world \<Rightarrow> bool" where
  append_load:
    "w_pc w = W_Idle \<Longrightarrow> sq = fst (last (stores w)) \<Longrightarrow> unat sq < MAX_EVENTS \<Longrightarrow>
     step w (w\<lparr>w_pc := W_Loaded sq (evt\<lparr>sequence := sq, timestamp_ns := now_ns ts\<rparr>)\<rparr>)"
| append_store:
    "w_pc w = W_Loaded sq e \<Longrightarrow> slot_backed (disk w) (unat sq) \<Longrightarrow>
     step w (w\<lparr>disk := (disk w)\<lparr>events := (events (disk w))(unat sq := e)\<rparr>,
               written := insert (unat sq) (written w), w_pc := W_Stored sq\<rparr>)"
| append_publish:
    "w_pc w = W_Stored sq \<Longrightarrow>
     step w (w\<lparr>stores := stores w @ [(sq + 1, written w)], w_pc := W_Published sq\<rparr>)"
| append_header:
    "w_pc w = W_Published sq \<Longrightarrow>
     step w (w\<lparr>disk := (disk w)\<lparr>header := (header (disk w))\<lparr>next_sequence := sq + 1\<rparr>\<rparr>, w_pc := W_Idle\<rparr>)"
| replay_load:
    "r_pc (readers w t) = R_Idle \<Longrightarrow> r_seen (readers w t) \<le> m \<Longrightarrow> m < length (stores w) \<Longrightarrow>
     stores w ! m = (v, V) \<Longrightarrow>
     step w (w\<lparr>readers := (readers w)(t :=
       \<lparr>r_seen = m, r_view = r_view (readers w t) \<union> V, r_pc = R_Loop 0 (unat v) []\<rparr>)\<rparr>)"
| replay_event:
    "r_pc (readers w t) = R_Loop i head acc \<Longrightarrow> i < head \<Longrightarrow>
     step w (w\<lparr>readers := (readers w)(t := (readers w t)\<lparr>r_pc :=
       (if i \<in> r_view (readers w t) then R_Loop (Suc i) head (acc @ [events (disk w) i]) else R_Race)\<rparr>)\<rparr>)"
| replay_done:
    "r_pc (readers w t) = R_Loop i head acc \<Longrightarrow> \<not> i < head \<Longrightarrow>
     step w (w\<lparr>readers := (readers w)(t := (readers w t)\<lparr>r_pc := R_Idle\<rparr>)\<rparr>)"

inductive_cases stepE: "step w w'"

text \<open>The protocol starts from an open log: its constructor ran before the threads did.\<close>

definition start :: "event_log \<Rightarrow> world" where
  "start lg = \<lparr>disk = mapped lg, stores = [(next_seq lg, {..<unat (next_seq lg)})],
     written = {..<unat (next_seq lg)}, w_pc = W_Idle,
     readers = (\<lambda>_. \<lparr>r_seen = 0, r_view = {}, r_pc = R_Idle\<rparr>)\<rparr>"

section \<open>The invariant\<close>

text \<open>What the program counter of the writer says about the slots and the header.\<close>

fun writer_ok :: "writer_pc \<Rightarrow> nat \<Rightarrow> nat set \<Rightarrow> 64 word \<Rightarrow> (nat \<Rightarrow> order_event) \<Rightarrow> bool" where
  "writer_ok W_Idle n wr h ev \<longleftrightarrow> wr = {..<n} \<and> unat h = n"
| "writer_ok (W_Loaded sq e) n wr h ev \<longleftrightarrow>
     unat sq = n \<and> n < MAX_EVENTS \<and> wr = {..<n} \<and> h = sq \<and> sequence e = sq"
| "writer_ok (W_Stored sq) n wr h ev \<longleftrightarrow>
     unat sq = n \<and> n < MAX_EVENTS \<and> wr = {..<Suc n} \<and> h = sq \<and> sequence (ev n) = sq"
| "writer_ok (W_Published sq) n wr h ev \<longleftrightarrow> n = Suc (unat sq) \<and> unat sq < MAX_EVENTS \<and> wr = {..<n} \<and> h = sq"

fun reader_ok :: "nat \<Rightarrow> (nat \<Rightarrow> order_event) \<Rightarrow> nat set \<Rightarrow> reader_pc \<Rightarrow> bool" where
  "reader_ok n ev V R_Idle \<longleftrightarrow> True"
| "reader_ok n ev V (R_Loop i head acc) \<longleftrightarrow>
     head \<le> n \<and> i \<le> head \<and> {..<head} \<subseteq> V \<and> acc = map ev [0..<i]"
| "reader_ok n ev V R_Race \<longleftrightarrow> False"

definition world_ok :: "world \<Rightarrow> bool" where
  "world_ok w \<longleftrightarrow>
     f_len (disk w) = FILE_SIZE \<and> magic (header (disk w)) = LOG_MAGIC \<and> published w \<le> MAX_EVENTS \<and>
     (\<forall>i < published w. sequence (events (disk w) i) = word_of_nat i) \<and>
     stores w \<noteq> [] \<and> (\<forall>(v, V) \<in> set (stores w). unat v \<le> published w \<and> V = {..<unat v}) \<and>
     writer_ok (w_pc w) (published w) (written w) (next_sequence (header (disk w))) (events (disk w)) \<and>
     (\<forall>t. r_seen (readers w t) < length (stores w) \<and> r_view (readers w t) \<subseteq> {..<published w} \<and>
        reader_ok (published w) (events (disk w)) (r_view (readers w t)) (r_pc (readers w t)))"

lemma world_okD:
  assumes "world_ok w"
  shows "f_len (disk w) = FILE_SIZE" "magic (header (disk w)) = LOG_MAGIC" "published w \<le> MAX_EVENTS"
    "\<And>i. i < published w \<Longrightarrow> sequence (events (disk w) i) = word_of_nat i" "stores w \<noteq> []"
    "\<And>v V. (v, V) \<in> set (stores w) \<Longrightarrow> unat v \<le> published w \<and> V = {..<unat v}"
    "writer_ok (w_pc w) (published w) (written w) (next_sequence (header (disk w))) (events (disk w))"
    "\<And>t. r_seen (readers w t) < length (stores w)" "\<And>t. r_view (readers w t) \<subseteq> {..<published w}"
    "\<And>t. reader_ok (published w) (events (disk w)) (r_view (readers w t)) (r_pc (readers w t))"
  using assms unfolding world_ok_def by blast+

lemma start_ok: "log_ok lg \<Longrightarrow> world_ok (start lg)"
  by (simp add: world_ok_def start_def published_def log_ok_def file_ok_def)

text \<open>A reader's part of the invariant is kept when the log grows beyond it, and the writer touches
  no slot a reader may look at.\<close>

lemma reader_ok_grow:
  assumes "reader_ok n ev V pc" "n \<le> n'" "\<And>i. i < n \<Longrightarrow> ev' i = ev i"
  shows "reader_ok n' ev' V pc"
  using assms by (cases pc) auto

lemma step_append_store:
  assumes ok: "world_ok w" and pc: "w_pc w = W_Loaded sq e"
  shows "world_ok (w\<lparr>disk := (disk w)\<lparr>events := (events (disk w))(unat sq := e)\<rparr>,
    written := insert (unat sq) (written w), w_pc := W_Stored sq\<rparr>)" (is "world_ok ?w")
proof -
  note d = world_okD [OF ok]
  have sq: "unat sq = published w" "published w < MAX_EVENTS" "written w = {..<published w}"
      "next_sequence (header (disk w)) = sq" "sequence e = sq"
    using d(7) pc by simp_all
  have p: "published ?w = published w" by (simp add: published_def)
  have rd: "reader_ok (published w) ((events (disk w))(unat sq := e)) (r_view (readers w t)) (r_pc (readers w t))" for t
    using d(10) [of t] by (rule reader_ok_grow) (use sq(1) in auto)
  show ?thesis
    unfolding world_ok_def p using d sq rd by (auto simp: lessThan_Suc)
qed

lemma step_append_publish:
  assumes ok: "world_ok w" and pc: "w_pc w = W_Stored sq"
  shows "world_ok (w\<lparr>stores := stores w @ [(sq + 1, written w)], w_pc := W_Published sq\<rparr>)" (is "world_ok ?w")
proof -
  note d = world_okD [OF ok]
  have sq: "unat sq = published w" "published w < MAX_EVENTS" "written w = {..<Suc (published w)}"
      "next_sequence (header (disk w)) = sq" "sequence (events (disk w) (published w)) = sq"
    using d(7) pc by simp_all
  have next_sq: "unat (sq + 1) = Suc (published w)" using unat_next [of sq] sq(1,2) by simp
  have p: "published ?w = Suc (published w)" by (simp add: published_def next_sq)
  have "word_of_nat (published w) = sq" unfolding sq(1) [symmetric] by (rule word_nat_cases [of sq]) simp
  then have seq: "sequence (events (disk w) i) = word_of_nat i" if "i < Suc (published w)" for i
    using that d(4) [of i] sq(5) by (auto simp: less_Suc_eq)
  have rd: "reader_ok (Suc (published w)) (events (disk w)) (r_view (readers w t)) (r_pc (readers w t))" for t
    using d(10) [of t] by (rule reader_ok_grow) auto
  have view: "r_view (readers w t) \<subseteq> {..<Suc (published w)}" for t
    using d(9) [of t] by auto
  have msgs: "unat v \<le> Suc (published w) \<and> V = {..<unat v}" if "(v, V) \<in> set (stores w)" for v V
    using d(6) [OF that] by auto
  then have "\<forall>(v, V) \<in> set (stores w @ [(sq + 1, written w)]). unat v \<le> Suc (published w) \<and> V = {..<unat v}"
    using next_sq sq(3) by auto
  then show ?thesis
    unfolding world_ok_def p using d(1,2,3,8) sq seq rd view next_sq by (simp add: less_SucI)
qed

lemma step_replay_load:
  assumes ok: "world_ok w" and m: "m < length (stores w)" "stores w ! m = (v, V)"
  shows "world_ok (w\<lparr>readers := (readers w)(t :=
    \<lparr>r_seen = m, r_view = r_view (readers w t) \<union> V, r_pc = R_Loop 0 (unat v) []\<rparr>)\<rparr>)" (is "world_ok ?w")
proof -
  note d = world_okD [OF ok]
  have v: "unat v \<le> published w" "V = {..<unat v}" using d(6) [of v V] m nth_mem by fastforce+
  have p: "published ?w = published w" by (simp add: published_def)
  show ?thesis unfolding world_ok_def p using d v m(1) by auto
qed

lemma step_replay_event:
  assumes ok: "world_ok w" and pc: "r_pc (readers w t) = R_Loop i head acc" "i < head"
  shows "world_ok (w\<lparr>readers := (readers w)(t := (readers w t)\<lparr>r_pc :=
    (if i \<in> r_view (readers w t) then R_Loop (Suc i) head (acc @ [events (disk w) i]) else R_Race)\<rparr>)\<rparr>)"
    (is "world_ok ?w")
proof -
  note d = world_okD [OF ok]
  have r: "head \<le> published w" "i \<in> r_view (readers w t)" "{..<head} \<subseteq> r_view (readers w t)"
      "acc = map (events (disk w)) [0..<i]"
    using d(10) [of t] pc by auto
  have p: "published ?w = published w" by (simp add: published_def)
  show ?thesis unfolding world_ok_def p using d r pc(2) by auto
qed

lemma step_ok: "step w w' \<Longrightarrow> world_ok w \<Longrightarrow> world_ok w'"
proof (induction rule: step.induct)
  case (append_load w sq evt ts)
  then show ?case by (simp add: world_ok_def published_def word_unat_eq_iff)
next
  case (append_header w sq)
  note d = world_okD [OF append_header.prems]
  have pc: "published w = Suc (unat sq)" "unat sq < MAX_EVENTS" "written w = {..<published w}"
    using d(7) append_header.hyps by simp_all
  then have idle: "writer_ok W_Idle (published w) (written w) (sq + 1) (events (disk w))"
    using unat_next [of sq] by simp
  have p: "published (w\<lparr>disk := f, w_pc := c\<rparr>) = published w" for f c by (simp add: published_def)
  show ?case
    unfolding world_ok_def p using d(1-6,8-10) idle by auto
next
  case (replay_done w t i head acc)
  then show ?case by (simp add: world_ok_def published_def)
qed (simp_all add: step_append_store step_append_publish step_replay_load step_replay_event)

lemma reachable_ok: "step\<^sup>*\<^sup>* w w' \<Longrightarrow> world_ok w \<Longrightarrow> world_ok w'"
  by (induction rule: rtranclp_induct) (auto intro: step_ok)

section \<open>The log only grows\<close>

lemma step_prefix:
  assumes "step w w'" "world_ok w"
  shows "\<exists>es. published_events w' = published_events w @ es"
  using assms
proof (cases rule: step.cases)
  case (append_store sq e)
  with assms(2) have "unat sq = published w" by (auto dest: world_okD(7))
  with append_store show ?thesis by (auto simp: published_events_def published_def)
next
  case (append_publish sq)
  then have d: "unat sq = published w" "published w < MAX_EVENTS" using world_okD(7) [OF assms(2)] by simp_all
  then have "published w' = Suc (published w)"
    using append_publish unat_next [of sq] by (simp add: published_def)
  with append_publish show ?thesis by (auto simp: published_events_def)
qed (auto simp: published_events_def published_def)

lemma steps_prefix:
  assumes "step\<^sup>*\<^sup>* w w'" "world_ok w"
  shows "\<exists>es. published_events w' = published_events w @ es"
  using assms
proof (induction rule: rtranclp_induct)
  case (step u v)
  then obtain es where "published_events u = published_events w @ es" by blast
  moreover have "world_ok u" using step.hyps(1) step.prems by (rule reachable_ok)
  then obtain fs where "published_events v = published_events u @ fs"
    using step_prefix [OF step.hyps(2)] by blast
  ultimately show ?case by simp
qed simp

section \<open>Recovery\<close>

lemma recovery_ok:
  assumes "world_ok w" "open_ok os" "mmap_ok os"
  shows "\<exists>lg. open_or_create os (Some (disk w)) = Some (Some (disk w), Inr lg) \<and> log_ok lg \<and>
    log_events lg = (case w_pc w of W_Published _ \<Rightarrow> butlast (published_events w) | _ \<Rightarrow> published_events w)"
proof -
  note d = world_okD [OF assms(1)]
  let ?h = "next_sequence (header (disk w))"
  let ?lg = "\<lparr>next_seq = ?h, mapped = disk w\<rparr>"
  have h: "unat ?h = (case w_pc w of W_Published _ \<Rightarrow> published w - 1 | _ \<Rightarrow> published w)"
    using d(7) by (cases "w_pc w") simp_all
  then have le: "unat ?h \<le> published w" by (simp split: writer_pc.splits)
  have "open_or_create os (Some (disk w)) = Some (Some (disk w), Inr ?lg)"
    using assms(2,3) d(1,2) by (simp add: open_or_create_def FILE_SIZE_def Let_def)
  moreover have "log_ok ?lg"
    using d(1-4) le by (auto simp: log_ok_def file_ok_def)
  moreover have "log_events ?lg =
      (case w_pc w of W_Published _ \<Rightarrow> butlast (published_events w) | _ \<Rightarrow> published_events w)"
    using h d(7) by (cases "w_pc w") (simp_all add: log_events_def published_events_def map_butlast [symmetric])
  ultimately show ?thesis by blast
qed

text \<open>\<open>append\<close> of the sequential model is the four writer steps run without interruption.\<close>

definition world_of :: "event_log \<Rightarrow> world \<Rightarrow> bool" where
  "world_of lg w \<longleftrightarrow> disk w = mapped lg \<and> stores w \<noteq> [] \<and> fst (last (stores w)) = next_seq lg \<and> w_pc w = W_Idle"

lemma append_steps:
  assumes "world_of lg w" "log_append ts evt lg = Some (lg', Inr sq)"
  shows "\<exists>w'. step\<^sup>*\<^sup>* w w' \<and> world_of lg' w' \<and> readers w' = readers w"
proof -
  let ?e = "evt\<lparr>sequence := sq, timestamp_ns := now_ns ts\<rparr>"
  have sq: "sq = fst (last (stores w))" "unat sq < MAX_EVENTS" "slot_backed (disk w) (unat sq)" "w_pc w = W_Idle"
    and lg': "lg' = \<lparr>next_seq = sq + 1, mapped = (disk w)\<lparr>events := (events (disk w))(unat sq := ?e),
      header := (header (disk w))\<lparr>next_sequence := sq + 1\<rparr>\<rparr>\<rparr>"
    using assms by (cases lg, auto simp: log_append_def Let_def world_of_def split: if_splits)+
  define w1 where "w1 = w\<lparr>w_pc := W_Loaded sq ?e\<rparr>"
  define w2 where "w2 = w1\<lparr>disk := (disk w1)\<lparr>events := (events (disk w1))(unat sq := ?e)\<rparr>,
    written := insert (unat sq) (written w1), w_pc := W_Stored sq\<rparr>"
  define w3 where "w3 = w2\<lparr>stores := stores w2 @ [(sq + 1, written w2)], w_pc := W_Published sq\<rparr>"
  define w4 where "w4 = w3\<lparr>disk := (disk w3)\<lparr>header := (header (disk w3))\<lparr>next_sequence := sq + 1\<rparr>\<rparr>, w_pc := W_Idle\<rparr>"
  have "step w w1" unfolding w1_def by (rule step.append_load) (use sq in auto)
  moreover have "step w1 w2" unfolding w2_def by (rule step.append_store) (use sq in \<open>auto simp: w1_def\<close>)
  moreover have "step w2 w3" unfolding w3_def by (rule step.append_publish) (simp add: w2_def)
  moreover have "step w3 w4" unfolding w4_def by (rule step.append_header) (simp add: w3_def)
  ultimately have "step\<^sup>*\<^sup>* w w4" by (meson converse_rtranclp_into_rtranclp rtranclp.rtrancl_refl)
  moreover have "world_of lg' w4" "readers w4 = readers w"
    by (simp_all add: world_of_def lg' w4_def w3_def w2_def w1_def)
  ultimately show ?thesis by blast
qed

section \<open>A sample run\<close>

text \<open>One append up to the release store, then a reader that loads the new head and delivers the
  event.\<close>

definition sample_stamped :: order_event where
  "sample_stamped = (sample_new ''O1'' ''AAPL'' Buy 100 175)\<lparr>sequence := 0, timestamp_ns := now_ns \<lparr>tv_sec = 1, tv_nsec = 5\<rparr>\<rparr>"

lemma sample_run:
  obtains w where "step\<^sup>*\<^sup>* (start empty_log) w" "r_pc (readers w 0) = R_Loop 1 1 [sample_stamped]"
    "w_pc w = W_Published 0" "published_events w = [sample_stamped]"
proof -
  let ?e = sample_stamped
  define w1 where "w1 = (start empty_log)\<lparr>w_pc := W_Loaded 0 ?e\<rparr>"
  define w2 where "w2 = w1\<lparr>disk := (disk w1)\<lparr>events := (events (disk w1))(unat (0 :: 64 word) := ?e)\<rparr>,
    written := insert (unat (0 :: 64 word)) (written w1), w_pc := W_Stored 0\<rparr>"
  define w3 where "w3 = w2\<lparr>stores := stores w2 @ [(0 + 1, written w2)], w_pc := W_Published 0\<rparr>"
  define w4 where "w4 = w3\<lparr>readers := (readers w3)(0 :=
    \<lparr>r_seen = 1, r_view = r_view (readers w3 0) \<union> written w2, r_pc = R_Loop 0 (unat (1 :: 64 word)) []\<rparr>)\<rparr>"
  define w5 where "w5 = w4\<lparr>readers := (readers w4)(0 := (readers w4 0)\<lparr>r_pc :=
    (if 0 \<in> r_view (readers w4 0) then R_Loop (Suc 0) (unat (1 :: 64 word)) ([] @ [events (disk w4) 0]) else R_Race)\<rparr>)\<rparr>"
  have "step (start empty_log) w1"
    unfolding w1_def sample_stamped_def by (rule step.append_load) (simp_all add: start_def MAX_EVENTS_def)
  moreover have "step w1 w2"
    unfolding w2_def
    by (rule step.append_store) (simp_all add: w1_def start_def empty_log_def slot_backed_def MAX_EVENTS_def FILE_SIZE_def)
  moreover have "step w2 w3" unfolding w3_def by (rule step.append_publish) (simp add: w2_def)
  moreover have "step w3 w4" unfolding w4_def
    by (rule step.replay_load) (simp_all add: w3_def w2_def w1_def start_def)
  moreover have "step w4 w5" unfolding w5_def by (rule step.replay_event) (simp_all add: w4_def)
  ultimately have "step\<^sup>*\<^sup>* (start empty_log) w5" by (meson converse_rtranclp_into_rtranclp rtranclp.rtrancl_refl)
  then show thesis
    by (rule that) (simp_all add: w5_def w4_def w3_def w2_def w1_def published_events_def published_def)
qed

section \<open>Properties\<close>

text \<open>C11. From a well-formed log, under every interleaving of the writer with any number of readers and
  every choice of store an acquire load may return, no reader reads a slot that is not ordered before
  its load (there is no data race), and what a reader has delivered so far is a prefix of the
  published log, complete events in sequence order.\<close>

theorem readers_see_prefix:
  assumes "log_ok lg" "step\<^sup>*\<^sup>* (start lg) w"
  shows "r_pc (readers w t) \<noteq> R_Race \<and>
    (\<forall>i head acc. r_pc (readers w t) = R_Loop i head acc \<longrightarrow>
       i \<le> head \<and> head \<le> length (published_events w) \<and> acc = take i (published_events w))"
proof -
  have "world_ok w" using reachable_ok [OF assms(2) start_ok [OF assms(1)]] .
  from world_okD(10) [OF this, of t] show ?thesis
    by (auto simp: published_events_def take_map)
qed

theorem readers_see_prefix_witness:
  "\<exists>w. step\<^sup>*\<^sup>* (start empty_log) w \<and> r_pc (readers w 0) = R_Loop 1 1 [sample_stamped] \<and>
     [sample_stamped] = take 1 (published_events w)"
proof -
  obtain w where w: "step\<^sup>*\<^sup>* (start empty_log) w" "r_pc (readers w 0) = R_Loop 1 1 [sample_stamped]"
    by (rule sample_run)
  with readers_see_prefix [of empty_log w 0] show ?thesis by auto
qed

text \<open>The published log is append-only: whatever the threads do, the events published at one moment
  are a prefix of the events published at any later moment.\<close>

lemma published_append_only:
  assumes "log_ok lg" "step\<^sup>*\<^sup>* (start lg) w" "step\<^sup>*\<^sup>* w w'"
  shows "\<exists>es. published_events w' = published_events w @ es"
  using steps_prefix [OF assms(3) reachable_ok [OF assms(2) start_ok [OF assms(1)]]] .

text \<open>C12. After a crash of the process at any point of any interleaving, opening the file again gives a
  well-formed log. It holds every published event, except that the last one is missing when the crash
  falls between the store to \<open>next_seq_\<close> and the store to the header; so every event whose \<open>append\<close>
  returned is recovered.\<close>

theorem crash_recovery:
  assumes "log_ok lg" "step\<^sup>*\<^sup>* (start lg) w" "open_ok os" "mmap_ok os"
  shows "\<exists>lg'. open_or_create os (Some (disk w)) = Some (Some (disk w), Inr lg') \<and> log_ok lg' \<and>
    log_events lg' = (case w_pc w of W_Published _ \<Rightarrow> butlast (published_events w) | _ \<Rightarrow> published_events w)"
  using recovery_ok [OF reachable_ok [OF assms(2) start_ok [OF assms(1)]] assms(3,4)] .

theorem crash_recovery_witness:
  "\<exists>w lg'. step\<^sup>*\<^sup>* (start empty_log) w \<and>
    open_or_create \<lparr>open_ok = True, ftruncate_ok = True, mmap_ok = True\<rparr> (Some (disk w)) = Some (Some (disk w), Inr lg') \<and>
    log_ok lg' \<and> log_events lg' = []"
proof -
  obtain w where w: "step\<^sup>*\<^sup>* (start empty_log) w" "w_pc w = W_Published 0" "published_events w = [sample_stamped]"
    by (rule sample_run)
  with crash_recovery [of empty_log w "\<lparr>open_ok = True, ftruncate_ok = True, mmap_ok = True\<rparr>"] show ?thesis
    by auto
qed

text \<open>A reader can deliver an event that a crash then takes back: there is a run in which a reader
  has delivered the first event of the log and the log recovered from the file is empty, because the
  header was not written yet.\<close>

lemma delivered_event_can_be_lost:
  "\<exists>w e lg'. step\<^sup>*\<^sup>* (start empty_log) w \<and> r_pc (readers w 0) = R_Loop 1 1 [e] \<and>
    open_or_create \<lparr>open_ok = True, ftruncate_ok = True, mmap_ok = True\<rparr> (Some (disk w)) = Some (Some (disk w), Inr lg') \<and>
    log_events lg' = []"
proof -
  obtain w where w: "step\<^sup>*\<^sup>* (start empty_log) w" "r_pc (readers w 0) = R_Loop 1 1 [sample_stamped]"
      "w_pc w = W_Published 0" "published_events w = [sample_stamped]"
    by (rule sample_run)
  with recovery_ok [OF reachable_ok [OF w(1) start_ok], of "\<lparr>open_ok = True, ftruncate_ok = True, mmap_ok = True\<rparr>"]
  show ?thesis by fastforce
qed

text \<open>The sequential \<open>append\<close> is the four writer steps run to the end: every append that returns a
  sequence number is a run of the protocol from any state that shows the log to one that shows the
  log after it, with the readers untouched.\<close>

lemma append_refines_steps:
  assumes "world_of lg w" "log_append ts evt lg = Some (lg', Inr sq)"
  shows "\<exists>w'. step\<^sup>*\<^sup>* w w' \<and> world_of lg' w' \<and> readers w' = readers w"
  using append_steps [OF assms] .

end
