(* ===== verification/Recovery.thy ===== *)
theory Recovery
  imports FIXGateway EventLog_Concurrency
begin

text \<open>
  The state of the gateway against its log: whatever sequence of callbacks and orders the gateway
  has gone through, a replay of its log rebuilds the same orders and the same positions. The live
  tables are fed events whose sequence number is still zero, the log holds the numbered ones, so the
  two agree up to the fields that record sequence numbers.
\<close>

section \<open>Equality up to sequence numbers\<close>

definition erase_order :: "order \<Rightarrow> order" where
  "erase_order od = od\<lparr>opened_seq := 0, last_seq := 0\<rparr>"

definition erase_position :: "position \<Rightarrow> position" where
  "erase_position p = p\<lparr>last_updated_seq := 0\<rparr>"

definition stamped :: "order_event \<Rightarrow> order_event \<Rightarrow> bool" where
  "stamped e e' \<longleftrightarrow> (\<exists>s t. e' = e\<lparr>sequence := s, timestamp_ns := t\<rparr>)"

definition same_order_map :: "(string \<Rightarrow> order option) \<Rightarrow> (string \<Rightarrow> order option) \<Rightarrow> bool" where
  "same_order_map m m' \<longleftrightarrow> (\<forall>k. map_option erase_order (m k) = map_option erase_order (m' k))"

definition same_position_map :: "(string \<Rightarrow> position option) \<Rightarrow> (string \<Rightarrow> position option) \<Rightarrow> bool" where
  "same_position_map m m' \<longleftrightarrow> (\<forall>k. map_option erase_position (m k) = map_option erase_position (m' k))"

definition same_orders :: "order_manager \<Rightarrow> order_manager \<Rightarrow> bool" where
  "same_orders om om' \<longleftrightarrow> same_order_map (om_map om) (om_map om')"

definition same_positions :: "position_tracker \<Rightarrow> position_tracker \<Rightarrow> bool" where
  "same_positions pt pt' \<longleftrightarrow> same_position_map (pt_map pt) (pt_map pt')"

lemma stamped_fields:
  assumes "stamped e e'"
  shows "etype e' = etype e" "event_oid e' = event_oid e" "event_symbol e' = event_symbol e"
    "is_fill e' = is_fill e" "event_ok e' = event_ok e"
  using assms by (auto simp: stamped_def event_oid_def event_symbol_def is_fill_def event_ok_def)

lemma erase_order_eqE:
  assumes "erase_order od = erase_order od'"
  obtains a b where "od' = od\<lparr>opened_seq := a, last_seq := b\<rparr>"
  using assms by (cases od, cases od') (auto simp: erase_order_def)

lemma erase_position_eqE:
  assumes "erase_position p = erase_position p'"
  obtains a where "p' = p\<lparr>last_updated_seq := a\<rparr>"
  using assms by (cases p, cases p') (auto simp: erase_position_def)

lemma map_option_eq_cases:
  assumes "map_option f a = map_option f b"
  shows "a = None \<and> b = None \<or> (\<exists>x y. a = Some x \<and> b = Some y \<and> f x = f y)"
  using assms by (cases a; cases b) auto

lemma erase_order_state:
  "erase_order x = erase_order y \<Longrightarrow>
     erase_order (x\<lparr>o_state := c, last_seq := s\<rparr>) = erase_order (y\<lparr>o_state := c, last_seq := t\<rparr>)"
  by (cases x, cases y) (simp add: erase_order_def)

lemma same_map_upd:
  "same_order_map m m' \<Longrightarrow> erase_order od = erase_order od' \<Longrightarrow> same_order_map (m(k \<mapsto> od)) (m'(k \<mapsto> od'))"
  "same_position_map n n' \<Longrightarrow> erase_position p = erase_position p' \<Longrightarrow>
     same_position_map (n(k \<mapsto> p)) (n'(k \<mapsto> p'))"
  by (auto simp: same_order_map_def same_position_map_def)

lemma same_map_dom:
  "same_order_map m m' \<Longrightarrow> dom m = dom m'" "same_position_map n n' \<Longrightarrow> dom n = dom n'"
  unfolding same_order_map_def same_position_map_def dom_def by (metis map_option_is_None)+

section \<open>The order projection\<close>

lemma fill_order_stamped:
  assumes "stamped e e'" "erase_order od = erase_order od'"
  shows "map_option erase_order (fill_order e od) = map_option erase_order (fill_order e' od')"
proof -
  from assms(2) obtain a b where od': "od' = od\<lparr>opened_seq := a, last_seq := b\<rparr>" by (rule erase_order_eqE)
  from assms(1) obtain s t where e': "e' = e\<lparr>sequence := s, timestamp_ns := t\<rparr>" by (auto simp: stamped_def)
  show ?thesis
    by (auto simp: od' e' fill_order_def remaining_qty_def erase_order_def i32_def i64_def Let_def)
qed

lemma update_existing_same_map:
  assumes m: "same_order_map m m'" and u: "update_existing m k f = Some m1"
    and f: "\<forall>x y. erase_order x = erase_order y \<longrightarrow> map_option erase_order (f x) = map_option erase_order (f' y)"
  shows "\<exists>m1'. update_existing m' k f' = Some m1' \<and> same_order_map m1 m1'"
  using map_option_eq_cases [of erase_order "m k" "m' k", OF m [unfolded same_order_map_def, rule_format]]
proof (elim disjE exE conjE)
  assume "m k = None" "m' k = None"
  with m u show ?thesis by (auto simp: update_existing_def)
next
  fix x y assume xy: "m k = Some x" "m' k = Some y" "erase_order x = erase_order y"
  with u obtain x1 where x1: "f x = Some x1" "m1 = m(k \<mapsto> x1)" by (auto simp: update_existing_def)
  from f xy(3) x1(1) obtain y1 where "f' y = Some y1" "erase_order x1 = erase_order y1"
    by (metis map_option_eq_Some option.simps(9))
  with xy x1 m show ?thesis by (auto simp: update_existing_def intro: same_map_upd)
qed

lemma om_spec_stamped:
  assumes e: "stamped e e'" and m: "same_order_map m m'" and s: "om_spec e m = Some m1"
  shows "\<exists>m1'. om_spec e' m' = Some m1' \<and> same_order_map m1 m1'"
proof -
  note fe = stamped_fields [OF e]
  obtain sq t where e': "e' = e\<lparr>sequence := sq, timestamp_ns := t\<rparr>" using e by (auto simp: stamped_def)
  note up = update_existing_same_map [OF m]
  show ?thesis
  proof (cases "etype e")
    case NewOrder
    have "m (event_oid e) = None \<longleftrightarrow> m' (event_oid e) = None"
      using same_map_dom(1) [OF m] by (metis domIff)
    moreover have "erase_order (opened_order e) = erase_order (opened_order e')"
      by (simp add: opened_order_def e' erase_order_def event_oid_def event_symbol_def)
    ultimately show ?thesis
      using NewOrder s fe same_map_dom(1) [OF m] m same_map_upd(1) [OF m]
      by (auto simp: om_spec_def split: if_splits)
  next
    case PartialFill
    with s fe up [of "event_oid e" "fill_order e" m1 "fill_order e'"] fill_order_stamped [OF e]
    show ?thesis by (simp add: om_spec_def)
  next
    case FullFill
    with s fe up [of "event_oid e" "fill_order e" m1 "fill_order e'"] fill_order_stamped [OF e]
    show ?thesis by (simp add: om_spec_def)
  next
    case Cancel
    with s fe up [of "event_oid e" "\<lambda>od. Some (od\<lparr>o_state := Cancelled, last_seq := sequence e\<rparr>)" m1
        "\<lambda>od. Some (od\<lparr>o_state := Cancelled, last_seq := sequence e'\<rparr>)"]
    show ?thesis by (simp add: om_spec_def erase_order_state)
  next
    case Reject
    with s fe up [of "event_oid e" "\<lambda>od. Some (od\<lparr>o_state := Rejected, last_seq := sequence e\<rparr>)" m1
        "\<lambda>od. Some (od\<lparr>o_state := Rejected, last_seq := sequence e'\<rparr>)"]
    show ?thesis by (simp add: om_spec_def erase_order_state)
  next
    case Amend
    have "erase_order (amend_order e x) = erase_order (amend_order e' y)" if "erase_order x = erase_order y" for x y
      using that by (cases x, cases y) (auto simp: amend_order_def e' erase_order_def Let_def)
    with Amend s fe up [of "event_oid e" "\<lambda>od. Some (amend_order e od)" m1 "\<lambda>od. Some (amend_order e' od)"]
    show ?thesis by (simp add: om_spec_def)
  next
    case EventType_other
    with s fe m show ?thesis by (simp add: om_spec_def)
  qed
qed

lemma om_apply_event_stamped:
  assumes "om_ok om" "om_ok om'" "event_ok e" "stamped e e'" "same_orders om om'"
    and "om_apply_event e om = Some om1"
  shows "\<exists>om1'. om_apply_event e' om' = Some om1' \<and> same_orders om1 om1'"
proof -
  have e': "event_ok e'" using stamped_fields(5) [OF assms(4)] assms(3) by simp
  from om_apply_event_Some [OF assms(1,3,6)] om_spec_stamped [OF assms(4) assms(5) [unfolded same_orders_def]]
  obtain m where m: "om_spec e' (om_map om') = Some m" "same_order_map (om_map om1) m" by blast
  with om_apply_event_map [OF assms(2) e'] show ?thesis
    by (auto simp: same_orders_def map_option_case split: option.splits)
qed

section \<open>The position projection\<close>

lemma refresh_unrealized_seq:
  "refresh_unrealized (p\<lparr>last_updated_seq := a\<rparr>) =
     map_option (\<lambda>r. r\<lparr>last_updated_seq := a\<rparr>) (refresh_unrealized p)"
  by (auto simp: refresh_unrealized_def i64_def)

lemma refresh_stamp:
  assumes "erase_position r' = erase_position r"
  shows "refresh_unrealized r' \<bind> (\<lambda>x. Some (x\<lparr>last_updated_seq := b\<rparr>)) =
    map_option (last_updated_seq_update (\<lambda>_. b))
      (refresh_unrealized r \<bind> (\<lambda>x. Some (x\<lparr>last_updated_seq := c\<rparr>)))"
proof -
  from assms [symmetric] obtain a where "r' = r\<lparr>last_updated_seq := a\<rparr>" by (rule erase_position_eqE)
  then show ?thesis by (cases "refresh_unrealized r") (simp_all add: refresh_unrealized_seq)
qed

lemma apply_buy_seq:
  "apply_buy (p\<lparr>last_updated_seq := a\<rparr>) q px s' =
     map_option (\<lambda>r. r\<lparr>last_updated_seq := u64_to_i64 s'\<rparr>) (apply_buy p q px s)"
  by (cases p, cases "0 \<le> net_qty p")
    (simp_all add: apply_buy_def Let_def i32_def i64_def refresh_stamp erase_position_def)

lemma apply_sell_seq:
  "apply_sell (p\<lparr>last_updated_seq := a\<rparr>) q px s' =
     map_option (\<lambda>r. r\<lparr>last_updated_seq := u64_to_i64 s'\<rparr>) (apply_sell p q px s)"
  by (cases p, cases "0 < net_qty p")
    (simp_all add: apply_sell_def Let_def i32_def i64_def refresh_stamp erase_position_def)

lemma fill_position_stamped:
  assumes "stamped e e'" "erase_position p = erase_position p'"
  shows "map_option erase_position (fill_position e p) = map_option erase_position (fill_position e' p')"
proof -
  from assms(2) obtain a where p': "p' = p\<lparr>last_updated_seq := a\<rparr>" by (rule erase_position_eqE)
  from assms(1) obtain s t where e': "e' = e\<lparr>sequence := s, timestamp_ns := t\<rparr>" by (auto simp: stamped_def)
  show ?thesis
    by (simp add: p' e' fill_position_def apply_buy_seq [where s = "sequence e"]
        apply_sell_seq [where s = "sequence e"] option.map_comp o_def erase_position_def [abs_def])
qed

lemma pt_spec_stamped:
  assumes e: "stamped e e'" and m: "same_position_map m m'" and s: "pt_spec e m = Some m1"
  shows "\<exists>m1'. pt_spec e' m' = Some m1' \<and> same_position_map m1 m1'"
proof (cases "is_fill e \<and> (m (event_symbol e) \<noteq> None \<or> card (dom m) < MAX_SYMBOLS)")
  case False
  then show ?thesis
    using s m stamped_fields [OF e] same_map_dom(2) [OF m] by (auto simp: pt_spec_def domIff)
next
  case True
  let ?k = "event_symbol e"
  have erase: "erase_position (position_or_fresh m ?k) = erase_position (position_or_fresh m' ?k)"
    using map_option_eq_cases [of erase_position "m ?k" "m' ?k"] m
    by (auto simp: same_position_map_def position_or_fresh_def)
  from True s obtain p where p: "fill_position e (position_or_fresh m ?k) = Some p" "m1 = m(?k \<mapsto> p)"
    by (auto simp: pt_spec_def split: if_splits)
  with fill_position_stamped [OF e erase] obtain p' where
    p': "fill_position e' (position_or_fresh m' ?k) = Some p'" "erase_position p = erase_position p'"
    using map_option_eq_cases [of erase_position "fill_position e (position_or_fresh m ?k)"
        "fill_position e' (position_or_fresh m' ?k)"] by auto
  have "is_fill e' \<and> (m' ?k \<noteq> None \<or> card (dom m') < MAX_SYMBOLS)"
    using True stamped_fields(4) [OF e] same_map_dom(2) [OF m] by (auto simp: domIff [symmetric])
  with p p' m stamped_fields(3) [OF e] show ?thesis
    by (auto simp: pt_spec_def intro: same_map_upd)
qed

lemma pt_apply_event_stamped:
  assumes "pt_ok pt" "pt_ok pt'" "event_ok e" "stamped e e'" "same_positions pt pt'"
    and "pt_apply_event e pt = Some pt1"
  shows "\<exists>pt1'. pt_apply_event e' pt' = Some pt1' \<and> same_positions pt1 pt1'"
proof -
  have e': "event_ok e'" using stamped_fields(5) [OF assms(4)] assms(3) by simp
  have "pt_spec e (pt_map pt) = Some (pt_map pt1)"
    using pt_apply_event_spec(1) [OF assms(1,3)] assms(6) by simp
  with pt_spec_stamped [OF assms(4) assms(5) [unfolded same_positions_def]]
  obtain m where m: "pt_spec e' (pt_map pt') = Some m" "same_position_map (pt_map pt1) m" by blast
  with pt_apply_event_spec(1) [OF assms(2) e'] show ?thesis
    by (auto simp: same_positions_def map_option_case split: option.splits)
qed

section \<open>Runs of the gateway\<close>

text \<open>One call into the gateway: a session callback, an execution report whose handler returns, or
  an order of the strategy, with arguments of the declared types. What \<open>send_order\<close> returns or throws
  does not matter here, the gateway it leaves behind does.\<close>

inductive gw_step :: "'r report_api \<Rightarrow> session_send \<Rightarrow> gateway \<Rightarrow> gateway \<Rightarrow> bool"
  for api :: "'r report_api" and send :: session_send where
  created: "gw_step api send g (onCreate i g)"
| logon: "gw_step api send g (onLogon i g)"
| logout: "gw_step api send g (onLogout i g)"
| report: "onMessage api ts r g = Some (Returns g') \<Longrightarrow> gw_step api send g g'"
| order: "send_order send ts symb sd q px g = Some (g', ms, res) \<Longrightarrow> int32 q \<Longrightarrow> int64 px \<Longrightarrow>
    gw_step api send g g'"

text \<open>The projections of the gateway are those of its log.\<close>

definition projects :: "event_log \<Rightarrow> position_tracker \<Rightarrow> order_manager \<Rightarrow> bool" where
  "projects lg pt om \<longleftrightarrow>
     (\<exists>pt' om'. foldm pt_apply_event (log_events lg) new_position_tracker = Some pt' \<and> same_positions pt pt' \<and>
        foldm om_apply_event (log_events lg) new_order_manager = Some om' \<and> same_orders om om')"

definition gw_ok :: "gateway \<Rightarrow> bool" where
  "gw_ok g \<longleftrightarrow> log_ok (g_log g) \<and> (\<forall>e \<in> set (log_events (g_log g)). event_ok e) \<and>
     pt_ok (g_tracker g) \<and> om_ok (g_orders g) \<and> projects (g_log g) (g_tracker g) (g_orders g)"

text \<open>Every event the translator builds is well formed.\<close>

lemma from_execution_report_ok:
  assumes "from_execution_report api r = Some (Inr (Some e))"
  shows "event_ok e" "sequence e = 0"
  using assms
  by (auto simp: from_execution_report_def try_bind_def Let_def event_symbol_c_str fill_fields_def
      d_to_i32_def to_fixed_def d_to_i64_def zero_event_def event_ok_def length_cstr
      Option.bind_eq_Some_conv split: sum.splits option.splits if_splits double.splits)

text \<open>Booking one event in the log and in both projections keeps them in step.\<close>

lemma projects_append:
  assumes log: "log_ok lg" "\<forall>e \<in> set (log_events lg). event_ok e"
    and ok: "pt_ok pt" "om_ok om" and p: "projects lg pt om" and e: "event_ok e"
    and a: "log_append ts e lg = Some (lg', Inr sq)"
    and pt: "pt_apply_event e pt = Some pt1" and om: "om_apply_event e om = Some om1"
  shows "log_ok lg' \<and> (\<forall>e \<in> set (log_events lg'). event_ok e) \<and> pt_ok pt1 \<and> om_ok om1 \<and> projects lg' pt1 om1"
proof -
  note lg' = log_append_events [OF log(1) a]
  let ?e = "e\<lparr>sequence := next_seq lg, timestamp_ns := now_ns ts\<rparr>"
  have st: "stamped e ?e" by (auto simp: stamped_def)
  from p obtain pt' om' where f: "foldm pt_apply_event (log_events lg) new_position_tracker = Some pt'"
      "foldm om_apply_event (log_events lg) new_order_manager = Some om'"
    and same: "same_positions pt pt'" "same_orders om om'"
    by (auto simp: projects_def)
  have ok': "pt_ok pt'" "om_ok om'"
    using pt_run_ok [OF f(1)] om_run_ok [OF f(2)] log(2) by simp_all
  obtain pt1' where "pt_apply_event ?e pt' = Some pt1'" "same_positions pt1 pt1'"
    using pt_apply_event_stamped [OF ok(1) ok'(1) e st same(1) pt] by blast
  moreover obtain om1' where "om_apply_event ?e om' = Some om1'" "same_orders om1 om1'"
    using om_apply_event_stamped [OF ok(2) ok'(2) e st same(2) om] by blast
  ultimately have "projects lg' pt1 om1" using f lg'(2) by (auto simp: projects_def)
  moreover have "\<forall>e \<in> set (log_events lg'). event_ok e"
    using log(2) lg'(2) e stamped_fields(5) [OF st] by auto
  ultimately show ?thesis
    using lg'(1) pt_apply_event_spec(2) [OF ok(1) e pt] om_apply_event_ok [OF ok(2) e om] by blast
qed

lemma gw_step_ok: "gw_step api send g g' \<Longrightarrow> gw_ok g \<Longrightarrow> gw_ok g'"
proof (induction rule: gw_step.induct)
  case (report ts r g g')
  from report.hyps show ?case
  proof (cases rule: onMessage_cases)
    case ack
    with report.prems show ?thesis by simp
  next
    case (booked evt lg sq pt om)
    with report.prems projects_append [OF _ _ _ _ _ from_execution_report_ok(1) [OF booked(1)] booked(2-4)]
    show ?thesis by (simp add: gw_ok_def)
  qed
next
  case (order ts symb sd q px g g' ms res)
  from order.hyps(1) show ?case
  proof (cases rule: send_order_cases)
    case blocked
    with order.prems show ?thesis by simp
  next
    case (full evt lg ex)
    with order.prems show ?thesis by (simp add: gw_ok_def)
  next
    case (booked evt lg sq om)
    have e: "event_ok evt" using make_new_order_fields(10) [OF booked(3)] order.hyps by simp
    have "pt_apply_event evt (g_tracker g) = Some (g_tracker g)"
      using make_new_order_fields(1) [OF booked(3)] by (simp add: pt_apply_event_def is_fill_def)
    from projects_append [OF _ _ _ _ _ e booked(4) this booked(5)] order.prems booked(6)
    show ?thesis by (simp add: gw_ok_def)
  qed
qed (simp_all add: gw_ok_def onCreate_def onLogon_def onLogout_def)

lemma gw_steps_ok: "(gw_step api send)\<^sup>*\<^sup>* g g' \<Longrightarrow> gw_ok g \<Longrightarrow> gw_ok g'"
  by (induction rule: rtranclp_induct) (auto intro: gw_step_ok)

section \<open>Restart\<close>

lemma projects_refl:
  assumes "foldm pt_apply_event (log_events lg) new_position_tracker = Some pt"
    "foldm om_apply_event (log_events lg) new_order_manager = Some om"
  shows "projects lg pt om"
  using assms by (auto simp: projects_def same_positions_def same_orders_def same_position_map_def same_order_map_def)

lemma projects_empty: "projects empty_log new_position_tracker new_order_manager"
  by (rule projects_refl) simp_all

lemma startup_new:
  assumes "startup os None = Some (entry, Inr g)"
  shows "g = new_gateway empty_log new_position_tracker new_order_manager (new_risk_checker default_limits)" "gw_ok g"
proof -
  from assms have "open_ok os" "ftruncate_ok os" "mmap_ok os"
    by (auto simp: startup_def open_or_create_def Let_def Option.bind_eq_Some_conv split: if_splits)
  with assms show "g = new_gateway empty_log new_position_tracker new_order_manager (new_risk_checker default_limits)"
    by (simp add: startup_def open_or_create_new pt_replay_foldm om_replay_foldm)
  then show "gw_ok g" by (simp add: gw_ok_def new_gateway_def projects_empty)
qed

lemma restart_same:
  assumes g: "gw_ok g" and os: "open_ok os" "mmap_ok os"
  shows "\<exists>g'. startup os (Some (close_log (g_log g))) = Some (Some (close_log (g_log g)), Inr g') \<and> gw_ok g' \<and>
    g_log g' = g_log g \<and> same_positions (g_tracker g) (g_tracker g') \<and> same_orders (g_orders g) (g_orders g') \<and>
    order_counter g' = 0 \<and> g_risk g' = new_risk_checker default_limits"
proof -
  have lg: "log_ok (g_log g)" using g by (simp add: gw_ok_def)
  from g obtain pt om where f: "foldm pt_apply_event (log_events (g_log g)) new_position_tracker = Some pt"
      "foldm om_apply_event (log_events (g_log g)) new_order_manager = Some om"
    and same: "same_positions (g_tracker g) pt" "same_orders (g_orders g) om"
    by (auto simp: gw_ok_def projects_def)
  let ?g = "new_gateway (g_log g) pt om (new_risk_checker default_limits)"
  have "startup os (Some (close_log (g_log g))) = Some (Some (close_log (g_log g)), Inr ?g)"
    by (simp add: startup_def reopen_closed [OF lg os] pt_replay_foldm om_replay_foldm lg f)
  moreover have "gw_ok ?g"
    using g pt_run_ok [OF f(1)] om_run_ok [OF f(2)] projects_refl [OF f]
    by (simp add: gw_ok_def new_gateway_def)
  ultimately show ?thesis using same by (simp add: new_gateway_def)
qed

section \<open>States of the program\<close>

text \<open>The gateways of the program: started on a fresh log, moved on by calls, or restarted on the file
  of a gateway that was there before.\<close>

inductive reachable :: "'r report_api \<Rightarrow> session_send \<Rightarrow> gateway \<Rightarrow> bool"
  for api :: "'r report_api" and send :: session_send where
  fresh: "startup os None = Some (entry, Inr g) \<Longrightarrow> reachable api send g"
| call: "reachable api send g \<Longrightarrow> gw_step api send g g' \<Longrightarrow> reachable api send g'"
| restarted: "reachable api send g \<Longrightarrow> startup os (Some (close_log (g_log g))) = Some (entry, Inr g') \<Longrightarrow>
    reachable api send g'"

lemma startup_Inr_ok: "startup os entry = Some (e, Inr g) \<Longrightarrow> open_ok os \<and> mmap_ok os"
  by (auto simp: startup_def open_or_create_def Let_def Option.bind_eq_Some_conv split: if_splits)

lemma reachable_gw_ok: "reachable api send g \<Longrightarrow> gw_ok g"
proof (induction rule: reachable.induct)
  case (fresh os entry g)
  then show ?case by (rule startup_new(2))
next
  case (call g g')
  then show ?case by (blast intro: gw_step_ok)
next
  case (restarted g os entry g')
  with restart_same [of g os] startup_Inr_ok [OF restarted.hyps(2)] show ?case by auto
qed

lemma sample_reachable: "reachable api send sample_gateway"
proof -
  let ?g = "new_gateway empty_log new_position_tracker new_order_manager (new_risk_checker default_limits)"
  have "startup \<lparr>open_ok = True, ftruncate_ok = True, mmap_ok = True\<rparr> None = Some (Some (close_log empty_log), Inr ?g)"
    by (simp add: startup_def open_or_create_new pt_replay_foldm om_replay_foldm)
  then have "reachable api send ?g" by (rule reachable.fresh)
  then show ?thesis
    unfolding sample_gateway_def by (intro reachable.call [OF _ gw_step.logon] reachable.call [OF _ gw_step.created])
qed

lemma sample_sent_reachable:
  obtains g e where "reachable api send g" "length (log_events (g_log g)) = 1" "g_tracker g = new_position_tracker"
    "om_map (g_orders g) = [''ORD0'' \<mapsto> opened_order e]" "event_symbol e = ''AAPL''" "side e = Buy" "qty e = 100"
proof -
  obtain g m res e where s: "send_order send sample_ts (sv_of ''AAPL'') Buy 100 175000000 sample_gateway = Some (g, [m], res)"
    and g: "length (log_events (g_log g)) = 1" "g_tracker g = new_position_tracker"
      "om_map (g_orders g) = [''ORD0'' \<mapsto> opened_order e]" "event_symbol e = ''AAPL''" "side e = Buy" "qty e = 100"
    by (rule sample_send)
  have "gw_step api send sample_gateway g"
    by (rule gw_step.order [OF s]) (simp_all add: int32_def int64_def)
  then have "reachable api send g" by (rule reachable.call [OF sample_reachable])
  then show thesis using g by (rule that)
qed

lemma same_order_map_single:
  assumes "same_order_map [k \<mapsto> x] m"
  shows "\<exists>od. m = [k \<mapsto> od] \<and> erase_order x = erase_order od"
proof -
  have eq: "map_option erase_order ([k \<mapsto> x] j) = map_option erase_order (m j)" for j
    using assms by (simp add: same_order_map_def)
  from eq [of k] obtain od where od: "m k = Some od" "erase_order x = erase_order od" by (cases "m k") auto
  moreover have "m j = None" if "j \<noteq> k" for j using eq [of j] that by simp
  ultimately have "m = [k \<mapsto> od]" by (auto simp: fun_eq_iff)
  with od(2) show ?thesis by blast
qed

lemma signed_open_erase: "erase_order x = erase_order y \<Longrightarrow> signed_open s x = signed_open s y"
  by (cases x, cases y) (simp add: erase_order_def signed_open_def is_open_def)

text \<open>A second order of the sample symbol still passes the check.\<close>

lemma sample_second_check:
  assumes pt: "pt_ok pt" "pt_map pt = Map.empty" and om: "om_ok om" "om_map om = [k \<mapsto> od]" "signed_open ''AAPL'' od = 100"
  shows "check_full (new_risk_checker default_limits) (sv_of ''AAPL'') Buy 7 175000000 pt om = Some Pass"
proof -
  let ?rc = "new_risk_checker default_limits"
  have s: "cstr 8 (c_str ''AAPL'') = ''AAPL''" by code_simp
  have ex: "open_exposure om (sv_of ''AAPL'') = Some 100"
    using open_exposure_defined [OF om(1), of "sv_of ''AAPL''"] om(2,3) s by (simp add: exposure_of_def)
  have c: "committed pt om ''AAPL'' = 100"
    using om(2,3) pt(2) by (simp add: committed_def net_of_def exposure_of_def)
  have l: "limits_ok (limits ?rc)"
    by (simp add: limits_ok_def new_risk_checker_def default_limits_def PRICE_SCALE_def int32_def int64_def)
  obtain res where r: "check_full ?rc (sv_of ''AAPL'') Buy 7 175000000 pt om = Some res"
    using check_full_defined [OF pt(1) om(1) l, of "sv_of ''AAPL''" 7 175000000 100 Buy] ex c s by (auto simp: int64_def)
  have "verdict (limits ?rc) Buy 7 175000000 100 None = Pass"
    by (simp add: verdict_def new_risk_checker_def default_limits_def PRICE_SCALE_def signed_qty_def crosses_def)
  then show ?thesis using check_full_verdict [OF pt(1) om(1) _ r] r c s pt(2) by simp
qed

text \<open>In every state the program can be in, the log is well formed and gapless, both tables are well
  formed, and they are the projections of the log.\<close>

lemma reachable_states_consistent:
  assumes "reachable api send g"
  shows "log_ok (g_log g) \<and> pt_ok (g_tracker g) \<and> om_ok (g_orders g) \<and> projects (g_log g) (g_tracker g) (g_orders g)"
  using reachable_gw_ok [OF assms] by (simp add: gw_ok_def)

end
