(* ===== verification/Exposure.thy ===== *)
theory Exposure
  imports Recovery
begin

text \<open>
  The quantity committed to a symbol, filled and open, along the life of an order: an accepted order
  adds its signed quantity, a fill moves quantity from the order to the position, a cancel or a reject
  releases what is left. With the risk check this bounds the committed quantity.
\<close>

section \<open>Changes of the two projections\<close>

lemma finite_om_map: "om_ok om \<Longrightarrow> finite (dom (om_map om))"
  by (simp add: om_map_def)

lemma net_of_fill:
  assumes ok: "pt_ok pt" and e: "event_ok e" "is_fill e" and a: "pt_apply_event e pt = Some pt'"
    and room: "pt_map pt (event_symbol e) \<noteq> None \<or> symbol_count pt < MAX_SYMBOLS"
  shows "net_of pt' s = net_of pt s + (if s = event_symbol e then signed_fill e else 0)"
proof -
  have "pt_spec e (pt_map pt) = Some (pt_map pt')"
    using pt_apply_event_spec(1) [OF ok e(1)] a by simp
  then obtain p where p: "fill_position e (position_or_fresh (pt_map pt) (event_symbol e)) = Some p"
      "pt_map pt' = (pt_map pt)(event_symbol e \<mapsto> p)"
    using e(2) room pt_okD(5) [OF ok] by (auto simp: pt_spec_def symbol_count_def)
  have "net_qty (position_or_fresh (pt_map pt) (event_symbol e)) = net_of pt (event_symbol e)"
    by (simp add: position_or_fresh_def net_of_def fresh_position_def zero_position_def split: option.split)
  with fill_net_qty [OF p(1)] p(2) show ?thesis by (simp add: net_of_def)
qed

lemma net_of_other: "\<not> is_fill e \<Longrightarrow> pt_apply_event e pt = Some pt' \<Longrightarrow> net_of pt' s = net_of pt s"
  by (simp add: pt_apply_event_def)

lemma exposure_update:
  assumes ok: "om_ok om" and u: "update_existing (om_map om) k f = Some (om_map om')"
    and od: "om_map om k = Some od" "f od = Some od'"
  shows "exposure_of (om_map om') s = exposure_of (om_map om) s + signed_open s od' - signed_open s od"
proof -
  have "om_map om' = (om_map om)(k \<mapsto> od')" using u od by (simp add: update_existing_def)
  then show ?thesis using exposure_of_upd [OF finite_om_map [OF ok], of k od' s] od(1) by simp
qed

text \<open>A fill within the open quantity moves the fill from the order to nothing else.\<close>

lemma signed_open_fill:
  assumes f: "fill_order e od = Some od'" and o: "is_open od"
    and q: "0 \<le> fill_qty e" "fill_qty e \<le> original_qty od - filled_qty od"
    and m: "cstr 8 (o_symbol od) = event_symbol e" "o_side od = side e"
  shows "signed_open s od' = signed_open s od - (if s = event_symbol e then signed_fill e else 0)"
  using fill_order_fields(2,3,4,9,14) [OF f] o q m
  by (auto simp: signed_open_def signed_fill_def is_open_def)

lemma fill_committed:
  assumes ok: "pt_ok pt" "om_ok om" and e: "event_ok e" "is_fill e"
    and a: "pt_apply_event e pt = Some pt'" "om_apply_event e om = Some om'"
    and room: "pt_map pt (event_symbol e) \<noteq> None \<or> symbol_count pt < MAX_SYMBOLS"
    and od: "om_map om (event_oid e) = Some od" "is_open od"
      "cstr 8 (o_symbol od) = event_symbol e" "o_side od = side e"
    and q: "0 \<le> fill_qty e" "fill_qty e \<le> original_qty od - filled_qty od"
  shows "committed pt' om' s = committed pt om s"
proof -
  have u: "update_existing (om_map om) (event_oid e) (fill_order e) = Some (om_map om')"
    using om_apply_event_Some [OF ok(2) e(1) a(2)] e(2) by (auto simp: om_spec_def is_fill_def)
  from update_existing_same [OF this od(1)] obtain od' where od': "fill_order e od = Some od'" by blast
  show ?thesis
    using net_of_fill [OF ok(1) e a(1) room, of s] exposure_update [OF ok(2) u od(1) od', of s]
      signed_open_fill [OF od' od(2) q od(3,4), of s]
    by (simp add: committed_def)
qed

text \<open>A cancel or a reject releases the open quantity of the order.\<close>

lemma close_committed:
  assumes ok: "om_ok om" and e: "event_ok e" "etype e = Cancel \<or> etype e = Reject"
    and a: "om_apply_event e om = Some om'" and od: "om_map om (event_oid e) = Some od"
  shows "committed pt om' s = committed pt om s - signed_open s od"
proof -
  from om_apply_event_Some [OF ok e(1) a] e(2) od
  obtain c where u: "om_map om' = (om_map om)(event_oid e \<mapsto> od\<lparr>o_state := c, last_seq := sequence e\<rparr>)"
      "c = Cancelled \<or> c = Rejected"
    by (elim disjE) (simp_all add: om_spec_def update_existing_def, metis+)
  have "signed_open s (od\<lparr>o_state := c, last_seq := sequence e\<rparr>) = 0"
    using u(2) by (auto simp: signed_open_def is_open_def)
  with exposure_of_upd [OF finite_om_map [OF ok], of "event_oid e" "od\<lparr>o_state := c, last_seq := sequence e\<rparr>" s]
  show ?thesis using u(1) od by (simp add: committed_def)
qed

text \<open>A new order under an id that is not in use adds its signed quantity, when there is a slot.\<close>

lemma new_committed:
  assumes ok: "om_ok om" and e: "event_ok e" "etype e = NewOrder" and a: "om_apply_event e om = Some om'"
    and fresh: "om_map om (event_oid e) = None" and room: "order_count om < MAX_ORDERS"
  shows "committed pt om' s = committed pt om s + (if s = event_symbol e then signed_qty (side e) (qty e) else 0)"
proof -
  have "om_map om' = (om_map om)(event_oid e \<mapsto> opened_order e)"
    using om_apply_event_Some [OF ok e(1) a] e(2) room om_okD(5) [OF ok]
    by (simp add: om_spec_def order_count_def)
  moreover have "signed_open s (opened_order e) = (if s = event_symbol e then signed_qty (side e) (qty e) else 0)"
    by (auto simp: signed_open_def opened_order_def is_open_def signed_qty_def event_symbol_def
        cstr_pad_name length_cstr)
  ultimately show ?thesis
    using exposure_of_upd [OF finite_om_map [OF ok], of "event_oid e" "opened_order e" s] fresh
    by (simp add: committed_def)
qed

text \<open>Reports are never of new orders, and change no id: they update orders of the table.\<close>

lemma report_not_new: "from_execution_report api r = Some (Inr (Some e)) \<Longrightarrow> etype e \<noteq> NewOrder"
  by (auto simp: from_execution_report_def try_bind_def Let_def event_symbol_c_str fill_fields_def event_type_of_exec_def
      Option.bind_eq_Some_conv split: sum.splits option.splits if_splits)

lemma report_keeps_ids:
  assumes "om_ok om" "event_ok e" "etype e \<noteq> NewOrder" "om_apply_event e om = Some om'"
  shows "dom (om_map om') = dom (om_map om)" "order_count om' = order_count om"
proof -
  have u: "dom m' = dom m" if "update_existing m k f = Some m'" for m m' :: "string \<Rightarrow> order option" and k f
    using that by (cases "m k"; cases "f (the (m k))") (auto simp: update_existing_def split: if_splits)
  have "(\<exists>f. update_existing (om_map om) (event_oid e) f = Some (om_map om')) \<or> om_map om' = om_map om"
    using om_apply_event_Some [OF assms(1,2,4)] assms(3) by (cases "etype e") (auto simp: om_spec_def)
  then show d: "dom (om_map om') = dom (om_map om)" using u by metis
  show "order_count om' = order_count om"
    using d om_okD(5) [OF assms(1)] om_okD(5) [OF om_apply_event_ok [OF assms(1,2,4)]] by (simp add: order_count_def)
qed

section \<open>Orders of the gateway\<close>

lemma send_order_event:
  assumes "make_new_order symb sd q px (sv_of (fst (next_order_id g))) = Some evt" "int32 q" "int64 px"
  shows "event_ok evt" "etype evt = NewOrder" "event_oid evt = filed_id (unat (order_counter g))"
    "event_symbol evt = cstr 8 (sv_data symb)" "side evt = sd" "qty evt = q" "price evt = px"
    "readable 8 (sv_data symb)"
proof -
  show "event_ok evt" "etype evt = NewOrder" "event_oid evt = filed_id (unat (order_counter g))"
    "event_symbol evt = cstr 8 (sv_data symb)" "side evt = sd" "qty evt = q" "price evt = px"
    using make_new_order_fields [OF assms(1)] assms(2,3)
    by (simp_all add: filed_id_def next_order_id_def)
  show "readable 8 (sv_data symb)"
    using assms(1) strncpy_unreadable [of 8 "sv_data symb"]
    by (cases "readable 8 (sv_data symb)") (auto simp: make_new_order_def Let_def)
qed

lemma send_order_committed:
  assumes ok: "pt_ok (g_tracker g)" "om_ok (g_orders g)" and t: "int32 q" "int64 px"
    and s: "send_order send ts symb sd q px g = Some (g', ms, res)" "ms \<noteq> []"
    and fresh: "om_map (g_orders g) (filed_id (unat (order_counter g))) = None"
    and room: "order_count (g_orders g) < MAX_ORDERS"
  shows "committed (g_tracker g') (g_orders g') k = committed (g_tracker g) (g_orders g) k +
      (if k = cstr 8 (sv_data symb) then signed_qty sd q else 0)"
    "\<bar>committed (g_tracker g') (g_orders g') (cstr 8 (sv_data symb))\<bar> \<le> max_net_position (limits (g_risk g))"
proof -
  from s(1) have *: "committed (g_tracker g') (g_orders g') k = committed (g_tracker g) (g_orders g) k +
      (if k = cstr 8 (sv_data symb) then signed_qty sd q else 0) \<and>
    check_full (g_risk g) symb sd q px (g_tracker g) (g_orders g) = Some Pass \<and> readable 8 (sv_data symb)" for k
  proof (cases rule: send_order_cases)
    case (booked evt lg sq om)
    note ev = send_order_event [OF booked(3) t]
    from new_committed [OF ok(2) ev(1,2) booked(5) _ room, of "g_tracker g" k] fresh ev booked(2,6)
    show ?thesis by simp
  qed (use s(2) in simp_all)
  then show "committed (g_tracker g') (g_orders g') k = committed (g_tracker g) (g_orders g) k +
      (if k = cstr 8 (sv_data symb) then signed_qty sd q else 0)" by simp
  from * [of "cstr 8 (sv_data symb)"] check_full_verdict [OF ok]
  have "verdict (limits (g_risk g)) sd q px (committed (g_tracker g) (g_orders g) (cstr 8 (sv_data symb)))
    (map_option realized_pnl (pt_map (g_tracker g) (cstr 8 (sv_data symb)))) = Pass" by metis
  with * [of "cstr 8 (sv_data symb)"]
  show "\<bar>committed (g_tracker g') (g_orders g') (cstr 8 (sv_data symb))\<bar> \<le> max_net_position (limits (g_risk g))"
    by (simp add: verdict_Pass)
qed

section \<open>A full table\<close>

text \<open>A cancel or a reject releases exactly what was open of the order, for every symbol, and leaves
  the position alone. The release of a sell order raises the committed quantity: nothing checks it
  against the position limit.\<close>

lemma cancel_releases_open_quantity:
  assumes "om_ok om" "event_ok e" "etype e = Cancel \<or> etype e = Reject"
    and "om_apply_event e om = Some om'" "om_map om (event_oid e) = Some od"
  shows "pt_apply_event e pt = Some pt \<and> committed pt om' s = committed pt om s - signed_open s od"
  using close_committed [OF assms] assms(3) by (auto simp: pt_apply_event_def is_fill_def)

text \<open>A gateway whose table is full of orders of another naming scheme.\<close>

definition crowded_gateway :: gateway where
  "crowded_gateway = sample_gateway\<lparr>g_orders := full_manager\<rparr>"

lemma signed_full: "(\<Sum>k \<in> dom (om_map full_manager). \<bar>signed_open s (the (om_map full_manager k))\<bar>) = 0"
  and exposure_full: "exposure_of (om_map full_manager) s = 0"
proof -
  have z: "signed_open s od = 0" if "om_map full_manager k = Some od" for k od
  proof -
    have "od \<in> set (take (om_count full_manager) (om_slots full_manager))"
      using ran_table_map [OF om_okD(1) [OF full_manager_ok(1)]] that by (auto simp: om_map_def dest: ranI)
    then show ?thesis by (auto simp: full_manager_def signed_open_def is_open_def zero_order_def)
  qed
  show "(\<Sum>k \<in> dom (om_map full_manager). \<bar>signed_open s (the (om_map full_manager k))\<bar>) = 0"
    by (intro sum.neutral) (auto simp: z)
  show "exposure_of (om_map full_manager) s = 0"
    unfolding exposure_of_def by (intro sum.neutral) (auto simp: z)
qed

lemma full_manager_unknown2: "om_map full_manager ''ORD0'' = None"
proof -
  have "''ORD0'' \<noteq> ''O'' @ to_dec i" for i
  proof
    assume "''ORD0'' = ''O'' @ to_dec i"
    then have "hd (to_dec i) = CHR ''R''" by (metis append_Cons append_Nil list.inject list.sel(1))
    moreover have "of_char (hd (to_dec i)) < (58 :: nat)" by (rule hd_to_dec)
    ultimately show False by simp
  qed
  then show ?thesis using full_manager_keys by (auto simp: om_map_def table_map_None full_manager_def)
qed

end
