(* ===== verification/Session_Exposure.thy ===== *)
theory Session_Exposure
  imports Exposure
begin

text \<open>
  A trading session: the calls of one process from a fresh start. Any number of orders may be rejected
  before they are logged; those that pass the check are the first 512 of the process, as many as the table has
  slots (what happens to the next one is \<open>full_table_sends_untracked_order\<close>). Reports fit the orders:
  a fill is of an open order, on its symbol and side, within what is open, and of a symbol with a position
  slot; cancels and rejects are arbitrary. The quantity committed to a symbol stays within the position
  limit but for what cancels and rejects released. The ids in the table are the ids the gateway gave
  out, so a confirmation under another id finds no order.
\<close>

section \<open>Sessions\<close>

text \<open>\<open>trading api send k g rel\<close>: \<open>g\<close> is a gateway of a session in which cancels and rejects released the
  open quantity \<open>rel\<close> of symbol \<open>k\<close>, both sides added up.\<close>

definition fits_order :: "gateway \<Rightarrow> order_event \<Rightarrow> bool" where
  "fits_order g e \<longleftrightarrow>
     (case om_map (g_orders g) (event_oid e) of
        None \<Rightarrow> False
      | Some od \<Rightarrow> is_open od \<and> cstr 8 (o_symbol od) = event_symbol e \<and> o_side od = side e \<and>
          0 \<le> fill_qty e \<and> fill_qty e \<le> original_qty od - filled_qty od) \<and>
     (pt_map (g_tracker g) (event_symbol e) \<noteq> None \<or> symbol_count (g_tracker g) < MAX_SYMBOLS)"

inductive trading :: "'r report_api \<Rightarrow> session_send \<Rightarrow> string \<Rightarrow> gateway \<Rightarrow> int \<Rightarrow> bool"
  for api :: "'r report_api" and send :: session_send and k :: string where
  fresh: "startup os None = Some (entry, Inr g) \<Longrightarrow> trading api send k g 0"
| created: "trading api send k g rel \<Longrightarrow> trading api send k (onCreate i g) rel"
| logon: "trading api send k g rel \<Longrightarrow> trading api send k (onLogon i g) rel"
| logout: "trading api send k g rel \<Longrightarrow> trading api send k (onLogout i g) rel"
| order: "trading api send k g rel \<Longrightarrow> int32 q \<Longrightarrow> int64 px \<Longrightarrow>
    send_order send ts symb sd q px g = Some (g', ms, res) \<Longrightarrow>
    res = Inr [] \<or> unat (order_counter g) < MAX_ORDERS \<Longrightarrow> trading api send k g' rel"
| ack: "trading api send k g rel \<Longrightarrow> from_execution_report api r = Some (Inr None) \<Longrightarrow>
    onMessage api ts r g = Some (Returns g') \<Longrightarrow> trading api send k g' rel"
| fill: "trading api send k g rel \<Longrightarrow> from_execution_report api r = Some (Inr (Some e)) \<Longrightarrow> is_fill e \<Longrightarrow> fits_order g e \<Longrightarrow>
    onMessage api ts r g = Some (Returns g') \<Longrightarrow> trading api send k g' rel"
| close: "trading api send k g rel \<Longrightarrow> from_execution_report api r = Some (Inr (Some e)) \<Longrightarrow>
    etype e = Cancel \<or> etype e = Reject \<Longrightarrow> om_map (g_orders g) (event_oid e) = Some od \<Longrightarrow>
    onMessage api ts r g = Some (Returns g') \<Longrightarrow> trading api send k g' (rel + \<bar>signed_open k od\<bar>)"
| stray: "trading api send k g rel \<Longrightarrow> from_execution_report api r = Some (Inr (Some e)) \<Longrightarrow>
    etype e = Cancel \<or> etype e = Reject \<Longrightarrow> om_map (g_orders g) (event_oid e) = None \<Longrightarrow>
    onMessage api ts r g = Some (Returns g') \<Longrightarrow> trading api send k g' rel"

section \<open>The invariant\<close>

text \<open>The ids in use are those of the orders numbered so far.\<close>

definition ids_given :: "gateway \<Rightarrow> bool" where
  "ids_given g \<longleftrightarrow> dom (om_map (g_orders g)) \<subseteq> filed_id ` {..<unat (order_counter g)} \<and> unat (order_counter g) \<le> MAX_ORDERS"

definition session_ok :: "string \<Rightarrow> gateway \<Rightarrow> int \<Rightarrow> bool" where
  "session_ok k g rel \<longleftrightarrow> gw_ok g \<and> ids_given g \<and> g_risk g = new_risk_checker default_limits \<and> 0 \<le> rel \<and>
     \<bar>committed (g_tracker g) (g_orders g) k\<bar> \<le> max_net_position default_limits + rel"

lemma session_okD:
  assumes "session_ok k g rel"
  shows "gw_ok g" "ids_given g" "g_risk g = new_risk_checker default_limits" "0 \<le> rel"
    "\<bar>committed (g_tracker g) (g_orders g) k\<bar> \<le> max_net_position default_limits + rel"
    "pt_ok (g_tracker g)" "om_ok (g_orders g)"
  using assms by (simp_all add: session_ok_def gw_ok_def)

lemma ids_given_fresh:
  assumes "ids_given g" "unat (order_counter g) < MAX_ORDERS" "om_ok (g_orders g)"
  shows "om_map (g_orders g) (filed_id (unat (order_counter g))) = None" "order_count (g_orders g) < MAX_ORDERS"
proof -
  let ?n = "unat (order_counter g)"
  have "filed_id ?n \<noteq> filed_id m" if "m < ?n" for m
    using filed_id_inj [of ?n m] assms(2) that by (auto simp: MAX_ORDERS_def)
  then have "filed_id ?n \<notin> filed_id ` {..<?n}" by blast
  then show "om_map (g_orders g) (filed_id ?n) = None" using assms(1) by (auto simp: ids_given_def domIff)
  have "card (dom (om_map (g_orders g))) \<le> card (filed_id ` {..<?n})"
    using assms(1) by (intro card_mono) (auto simp: ids_given_def)
  also have "\<dots> \<le> ?n" using card_image_le [of "{..<?n}" filed_id] by simp
  finally show "order_count (g_orders g) < MAX_ORDERS" using om_okD(5) [OF assms(3)] assms(2) by (simp add: order_count_def)
qed

lemma counter_next: "unat (c :: 64 word) < MAX_ORDERS \<Longrightarrow> unat (c + 1) = Suc (unat c)"
  by (simp add: MAX_ORDERS_def unat_word_ariths)

lemma session_order:
  assumes ok: "session_ok k g rel" and c: "unat (order_counter g) < MAX_ORDERS" and t: "int32 q" "int64 px"
    and s: "send_order send ts symb sd q px g = Some (g', ms, res)"
  shows "session_ok k g' rel"
proof -
  note d = session_okD [OF ok]
  have gw: "gw_ok g'" by (rule gw_step_ok [OF gw_step.order [OF s t] d(1)])
  from s show ?thesis
  proof (cases rule: send_order_cases)
    case blocked
    then show ?thesis using ok by simp
  next
    case (full evt lg ex)
    then show ?thesis using ok gw counter_next [OF c] c by (auto simp: session_ok_def ids_given_def)
  next
    case (booked evt lg sq om)
    note ev = send_order_event [OF booked(3) t]
    note fr = ids_given_fresh [OF d(2) c d(7)]
    have "om_map om = (om_map (g_orders g))(event_oid evt \<mapsto> opened_order evt)"
      using om_apply_event_Some [OF d(7) ev(1) booked(5)] ev(2) fr(2) om_okD(5) [OF d(7)] by (simp add: om_spec_def order_count_def)
    then have "dom (om_map om) \<subseteq> filed_id ` {..<unat (order_counter g + 1)}"
      using d(2) ev(3) counter_next [OF c] by (auto simp: ids_given_def lessThan_Suc)
    then have ids: "ids_given g'" using booked(6) counter_next [OF c] c by (simp add: ids_given_def)
    have ms: "ms \<noteq> []" using booked(7) by simp
    note com = send_order_committed [OF d(6,7) t s ms fr]
    have "\<bar>committed (g_tracker g') (g_orders g') k\<bar> \<le> max_net_position default_limits + rel"
    proof (cases "k = cstr 8 (sv_data symb)")
      case True
      then show ?thesis using com(2) d(3,4) by (simp add: new_risk_checker_def)
    next
      case False
      then show ?thesis using com(1) [of k] d(5) by simp
    qed
    then show ?thesis using gw ids d(3,4) booked(6) by (simp add: session_ok_def)
  qed
qed

lemma unsent_order_changes_nothing:
  assumes "send_order send ts symb sd q px g = Some (g', ms, res)" "res = Inr []"
  shows "g' = g"
  using assms(1)
proof (cases rule: send_order_cases)
  case (booked evt lg sq om)
  with assms(2) show ?thesis by (simp add: next_order_id_def)
qed (use assms(2) in simp_all)

lemma session_report:
  assumes ok: "session_ok k g rel" and r: "from_execution_report api r = Some (Inr (Some e))"
    and m: "onMessage api ts r g = Some (Returns g')"
  obtains pt om where "event_ok e" "etype e \<noteq> NewOrder" "pt_apply_event e (g_tracker g) = Some pt"
    "om_apply_event e (g_orders g) = Some om" "g_tracker g' = pt" "g_orders g' = om"
    "gw_ok g'" "ids_given g'" "g_risk g' = new_risk_checker default_limits"
proof -
  note d = session_okD [OF ok]
  have gw: "gw_ok g'" by (rule gw_step_ok [OF gw_step.report [OF m] d(1)])
  from m show thesis
  proof (cases rule: onMessage_cases)
    case ack
    then show thesis using r by simp
  next
    case (booked evt lg sq pt om)
    then have e: "evt = e" using r by simp
    have ev: "event_ok e" by (rule from_execution_report_ok(1) [OF r])
    have ne: "etype e \<noteq> NewOrder" by (rule report_not_new [OF r])
    have "dom (om_map om) = dom (om_map (g_orders g))" using report_keeps_ids(1) [OF d(7) ev ne] booked(4) e by simp
    then have "ids_given g'" using d(2) booked(5) by (simp add: ids_given_def)
    with gw d(3) ev ne booked e show thesis by (intro that) simp_all
  qed
qed

lemma trading_ok: "trading api send k g rel \<Longrightarrow> session_ok k g rel"
proof (induction rule: trading.induct)
  case (fresh os entry g)
  note g = startup_new [OF fresh.hyps]
  show ?case
    using g(2) unfolding g(1) session_ok_def
    by (simp add: new_gateway_def ids_given_def committed_def net_of_def exposure_of_def default_limits_def)
next
  case (order g rel q px ts symb sd g' ms res)
  show ?case
  proof (cases "unat (order_counter g) < MAX_ORDERS")
    case True
    with order show ?thesis by (blast intro: session_order)
  next
    case False
    with order.hyps(5) have "res = Inr []" by simp
    with order.hyps(4) have "g' = g" by (rule unsent_order_changes_nothing)
    with order.IH show ?thesis by simp
  qed
next
  case (ack g rel r ts g')
  then show ?case by (elim onMessage_cases) simp_all
next
  case (fill g rel r e ts g')
  note d = session_okD [OF fill.IH]
  obtain pt om where b: "event_ok e" "pt_apply_event e (g_tracker g) = Some pt" "om_apply_event e (g_orders g) = Some om"
      "g_tracker g' = pt" "g_orders g' = om" "gw_ok g'" "ids_given g'" "g_risk g' = new_risk_checker default_limits"
    by (rule session_report [OF fill.IH fill.hyps(2,5)])
  from fill.hyps(4) have "committed pt om k = committed (g_tracker g) (g_orders g) k"
    unfolding fits_order_def
    by (auto intro!: fill_committed [OF d(6,7) b(1) fill.hyps(3) b(2,3)] split: option.splits)
  with b d show ?case by (simp add: session_ok_def)
next
  case (close g rel r e od ts g')
  note d = session_okD [OF close.IH]
  obtain pt om where b: "event_ok e" "pt_apply_event e (g_tracker g) = Some pt" "om_apply_event e (g_orders g) = Some om"
      "g_tracker g' = pt" "g_orders g' = om" "gw_ok g'" "ids_given g'" "g_risk g' = new_risk_checker default_limits"
    by (rule session_report [OF close.IH close.hyps(2,5)])
  have "pt = g_tracker g" using b(2) close.hyps(3) by (auto simp: pt_apply_event_def is_fill_def)
  then have "committed pt om k = committed (g_tracker g) (g_orders g) k - signed_open k od"
    using close_committed [OF d(7) b(1) close.hyps(3) b(3) close.hyps(4)] by simp
  with b d show ?case by (simp add: session_ok_def)
next
  case (stray g rel r e ts g')
  note d = session_okD [OF stray.IH]
  obtain pt om where b: "event_ok e" "pt_apply_event e (g_tracker g) = Some pt" "om_apply_event e (g_orders g) = Some om"
      "g_tracker g' = pt" "g_orders g' = om" "gw_ok g'" "ids_given g'" "g_risk g' = new_risk_checker default_limits"
    by (rule session_report [OF stray.IH stray.hyps(2,5)])
  have "pt = g_tracker g" using b(2) stray.hyps(3) by (auto simp: pt_apply_event_def is_fill_def)
  moreover have "om_map om = om_map (g_orders g)"
    using om_apply_event_Some [OF d(7) b(1,3)] stray.hyps(3,4) by (auto simp: om_spec_def update_existing_def)
  ultimately have "committed pt om k = committed (g_tracker g) (g_orders g) k" by (simp add: committed_def)
  with b d show ?case by (simp add: session_ok_def)
qed (simp_all add: session_ok_def gw_ok_def ids_given_def onCreate_def onLogon_def onLogout_def)

lemma fresh_startup:
  "startup \<lparr>open_ok = True, ftruncate_ok = True, mmap_ok = True\<rparr> None = Some (Some (close_log empty_log),
     Inr (new_gateway empty_log new_position_tracker new_order_manager (new_risk_checker default_limits)))"
  by (simp add: startup_def open_or_create_new pt_replay_foldm om_replay_foldm)

section \<open>Confirmations of cancel requests\<close>

lemma not_filed: "hd s \<noteq> CHR ''O'' \<Longrightarrow> filed_id n \<noteq> s"
  by (auto simp: filed_id_take)

lemma killswitch_id_unknown:
  assumes "ids_given g"
  shows "om_map (g_orders g) (cstr 8 (c_str (''KS'' @ to_dec i))) = None"
proof -
  have "cstr 8 (c_str (''KS'' @ to_dec i)) = take 8 (''KS'' @ to_dec i)"
    by (rule cstr_c_str) (use to_dec_no_NUL [of i] in \<open>simp add: NUL_def\<close>)
  then have "filed_id n \<noteq> cstr 8 (c_str (''KS'' @ to_dec i))" for n by (intro not_filed) simp
  then have "cstr 8 (c_str (''KS'' @ to_dec i)) \<notin> dom (om_map (g_orders g))"
    using assms unfolding ids_given_def by (metis imageE subsetD)
  then show ?thesis by (simp only: domIff not_not)
qed

lemma cancel_report_event:
  assumes "get_ExecType api r = Inr CHR ''4''" "get_Symbol api r = Inr s" "get_ClOrdID api r = Inr i" "get_Side api r = Inr d"
  shows "\<exists>e. from_execution_report api r = Some (Inr (Some e)) \<and> etype e = Cancel \<and> event_oid e = cstr 8 (c_str i)"
  using assms
  by (simp add: from_execution_report_def try_bind_def event_type_of_exec_def event_symbol_c_str fill_fields_def Let_def
      event_oid_def cstr_pad_name length_cstr)

section \<open>Properties\<close>

text \<open>C3. Along a whole session from a fresh start the committed quantity of a symbol, net position and open
  orders together, stays within the position limit on both sides, but for what cancels and rejects
  released: the check nets open buys against open sells, so the release of one side uncovers the other.
  The session has any session callbacks, any number of orders the gateway rejects, at most 512 that pass the
  check, and fills of open orders within their open quantity, on their symbol and side.\<close>

theorem session_exposure_bounded:
  assumes "trading api send k g rel"
  shows "\<bar>committed (g_tracker g) (g_orders g) k\<bar> \<le> max_net_position (limits (g_risk g)) + rel \<and> 0 \<le> rel"
  using session_okD(3-5) [OF trading_ok [OF assms]] by (simp add: new_risk_checker_def)

theorem session_exposure_bounded_witness:
  "\<exists>g. trading sample_api (\<lambda>s m. Send_Returned True) ''AAPL'' g 0 \<and> om_map (g_orders g) ''ORD0'' \<noteq> None \<and>
    \<bar>committed (g_tracker g) (g_orders g) ''AAPL''\<bar> \<le> max_net_position (limits (g_risk g))"
proof -
  let ?send = "\<lambda>s m. Send_Returned True"
  have "trading sample_api ?send ''AAPL'' sample_gateway 0"
    unfolding sample_gateway_def by (intro trading.logon trading.created trading.fresh [OF fresh_startup])
  moreover obtain g m res e where s: "send_order ?send sample_ts (sv_of ''AAPL'') Buy 100 175000000 sample_gateway = Some (g, [m], res)"
      "om_map (g_orders g) = [''ORD0'' \<mapsto> opened_order e]" by (rule sample_send)
  ultimately have t: "trading sample_api ?send ''AAPL'' g 0"
    by (intro trading.order [OF _ _ _ s(1)]) (simp_all add: int32_def int64_def MAX_ORDERS_def)
  from session_exposure_bounded [OF t] t s(2) show ?thesis by auto
qed

text \<open>C40. The confirmation of an emergency cancel is not matched to its order: in a session, a report that
  confirms the cancel under the id of the cancel request, as the exchange's reply to a request does,
  is logged but leaves every order of the table as it was, so the cancelled order stays open and keeps
  counting in the exposure.\<close>

theorem cancel_confirmation_not_matched:
  assumes "trading api send k g rel" "length (log_events (g_log g)) < MAX_EVENTS"
    and "msg_fields (cancel_request ''KS'' i od) 11 = Some (F_String cid)"
    and "get_ExecType api r = Inr CHR ''4''" "get_Symbol api r = Inr s" "get_ClOrdID api r = Inr cid" "get_Side api r = Inr d"
  shows "\<exists>g'. onMessage api ts r g = Some (Returns g') \<and> om_map (g_orders g') = om_map (g_orders g) \<and>
    committed (g_tracker g') (g_orders g') j = committed (g_tracker g) (g_orders g) j \<and>
    length (log_events (g_log g')) = Suc (length (log_events (g_log g)))"
proof -
  note d = session_okD [OF trading_ok [OF assms(1)]]
  have cid: "cid = ''KS'' @ to_dec (Suc i)" using assms(3) by (simp add: cancel_request_fields)
  obtain e where e: "from_execution_report api r = Some (Inr (Some e))" "etype e = Cancel" "event_oid e = cstr 8 (c_str cid)"
    using cancel_report_event [OF assms(4-7)] by blast
  have ok: "event_ok e" by (rule from_execution_report_ok(1) [OF e(1)])
  have lo: "log_ok (g_log g)" using d(1) by (simp add: gw_ok_def)
  have lt: "unat (next_seq (g_log g)) < MAX_EVENTS" using assms(2) by (simp add: length_log_events)
  obtain lg where lg: "log_append ts e (g_log g) = Some (lg, Inr (next_seq (g_log g)))"
      "log_events lg = log_events (g_log g) @ [e\<lparr>sequence := next_seq (g_log g), timestamp_ns := now_ns ts\<rparr>]"
    by (rule log_append_ok [OF lo lt])
  have pt: "pt_apply_event e (g_tracker g) = Some (g_tracker g)" using e(2) by (simp add: pt_apply_event_def is_fill_def)
  have "om_spec e (om_map (g_orders g)) = Some (om_map (g_orders g))"
    using e(2,3) killswitch_id_unknown [OF d(2), of "Suc i"] cid by (simp add: om_spec_def update_existing_def)
  then obtain om where om: "om_apply_event e (g_orders g) = Some om" "om_map om = om_map (g_orders g)"
    by (rule om_apply_event_obtain [OF d(7) ok])
  have "onMessage api ts r g = Some (Returns (g\<lparr>g_log := lg, g_tracker := g_tracker g, g_orders := om\<rparr>))"
    using e(1) lg(1) pt om(1) by (simp add: onMessage_def)
  with lg(2) om(2) show ?thesis by (auto simp: committed_def)
qed

theorem cancel_confirmation_not_matched_witness:
  "\<exists>g g' od. om_map (g_orders g) ''ORD0'' = Some od \<and> is_open od \<and>
    onMessage sample_api sample_ts (fill_report\<lparr>sr_exec := Some CHR ''4'', sr_oid := Some ''KS1''\<rparr>) g = Some (Returns g') \<and>
    om_map (g_orders g') ''ORD0'' = Some od"
proof -
  let ?send = "\<lambda>s m. Send_Returned True" and ?r = "fill_report\<lparr>sr_exec := Some CHR ''4'', sr_oid := Some ''KS1''\<rparr>"
  have "trading sample_api ?send ''AAPL'' sample_gateway 0"
    unfolding sample_gateway_def by (intro trading.logon trading.created trading.fresh [OF fresh_startup])
  moreover obtain g m res e where s: "send_order ?send sample_ts (sv_of ''AAPL'') Buy 100 175000000 sample_gateway = Some (g, [m], res)"
      "om_map (g_orders g) = [''ORD0'' \<mapsto> opened_order e]" "length (log_events (g_log g)) = 1" by (rule sample_send)
  ultimately have t: "trading sample_api ?send ''AAPL'' g 0"
    by (intro trading.order [OF _ _ _ s(1)]) (simp_all add: int32_def int64_def MAX_ORDERS_def)
  have k: "to_dec (Suc 0) = ''1''" by code_simp
  have room: "length (log_events (g_log g)) < MAX_EVENTS" unfolding s(3) by (simp add: MAX_EVENTS_def)
  have f: "msg_fields (cancel_request ''KS'' 0 (opened_order e)) 11 = Some (F_String ''KS1'')" by (simp add: cancel_request_fields k)
  have a: "get_ExecType sample_api ?r = Inr CHR ''4''" "get_Symbol sample_api ?r = Inr ''AAPL''"
      "get_ClOrdID sample_api ?r = Inr ''KS1''" "get_Side sample_api ?r = Inr CHR ''1''"
    by (simp_all add: sample_api_def fill_report_def get_or_throw_def)
  obtain g' where g': "onMessage sample_api sample_ts ?r g = Some (Returns g')" "om_map (g_orders g') = om_map (g_orders g)"
    using cancel_confirmation_not_matched [OF t room f a, of sample_ts] by blast
  have "is_open (opened_order e)" by (simp add: opened_order_def is_open_def)
  with g' s(2) show ?thesis by (intro exI [of _ g] exI [of _ g'] exI [of _ "opened_order e"]) simp
qed

end
