(* ===== verification/Gateway_Threads.thy ===== *)
theory Gateway_Threads
  imports Exposure
begin

text \<open>
  The two threads of the gateway (\<open>gateway/FIXGateway.h\<close>, thread model): the strategy thread in
  \<open>send_order\<close>, QuickFIX's I/O thread in \<open>onMessage\<close>, on the same log and the same tables without a lock.
  A call into a table is one step; \<open>append\<close> is split into its four memory accesses, since it is the one
  call both threads make on the same data with a read and later writes. Schedules of these steps are what a
  machine does that performs each of these accesses whole. For C++ some of them race: the header of the log and
  its events are plain memory, and two threads inside \<open>append\<close>, or inside the order table
  (\<open>Concurrent_Booking\<close>), write them without synchronisation, which is undefined; the losses shown here are
  what the program can show at best. Finer schedules, inside the calls into the tables, are not modelled. On a
  full log the exception leaves \<open>send_order\<close> on the strategy thread; on the I/O thread it ends the process, so
  that thread has no step from \<open>A_Full\<close> and the schedule ends there.
\<close>

section \<open>Append, access by access\<close>

datatype append_pc = A_Load | A_Store "64 word" order_event | A_Publish "64 word" | A_Header "64 word"
  | A_Done "64 word" | A_Full

fun append_access :: "timespec \<Rightarrow> order_event \<Rightarrow> append_pc \<Rightarrow> event_log \<Rightarrow> (append_pc \<times> event_log) option" where
  "append_access ts evt A_Load lg =
     (let sq = next_seq lg in
      Some (if MAX_EVENTS \<le> unat sq then A_Full else A_Store sq (evt\<lparr>sequence := sq, timestamp_ns := now_ns ts\<rparr>), lg))"
| "append_access ts evt (A_Store sq e) lg =
     (if slot_backed (mapped lg) (unat sq)
      then Some (A_Publish sq, lg\<lparr>mapped := (mapped lg)\<lparr>events := (events (mapped lg))(unat sq := e)\<rparr>\<rparr>)
      else None)"
| "append_access ts evt (A_Publish sq) lg = Some (A_Header sq, lg\<lparr>next_seq := sq + 1\<rparr>)"
| "append_access ts evt (A_Header sq) lg =
     Some (A_Done sq, lg\<lparr>mapped := (mapped lg)\<lparr>header := (header (mapped lg))\<lparr>next_sequence := sq + 1\<rparr>\<rparr>\<rparr>)"
| "append_access ts evt (A_Done sq) lg = Some (A_Done sq, lg)"
| "append_access ts evt A_Full lg = Some (A_Full, lg)"

section \<open>The threads\<close>

datatype strategy_pc = S_Idle | S_Checked string_view side int int | S_Append string order_event append_pc
  | S_Booked string order_event

datatype io_pc = IO_Idle | IO_Append order_event append_pc | IO_Tracked order_event

record threads =
  t_gw :: gateway
  t_strategy :: strategy_pc
  t_io :: io_pc
  t_sent :: "fix_message list"

inductive thread_step :: "'r report_api \<Rightarrow> threads \<Rightarrow> threads \<Rightarrow> bool" for api :: "'r report_api" where
  check_order: "t_strategy t = S_Idle \<Longrightarrow> is_connected (t_gw t) \<Longrightarrow>
     check_full (g_risk (t_gw t)) symb sd q px (g_tracker (t_gw t)) (g_orders (t_gw t)) = Some Pass \<Longrightarrow>
     thread_step api t (t\<lparr>t_strategy := S_Checked symb sd q px\<rparr>)"
| number_order: "t_strategy t = S_Checked symb sd q px \<Longrightarrow> next_order_id (t_gw t) = (oid, g) \<Longrightarrow>
     make_new_order symb sd q px (sv_of oid) = Some evt \<Longrightarrow>
     thread_step api t (t\<lparr>t_gw := g, t_strategy := S_Append oid evt A_Load\<rparr>)"
| log_order: "t_strategy t = S_Append oid evt a \<Longrightarrow> append_access ts evt a (g_log (t_gw t)) = Some (a', lg) \<Longrightarrow>
     thread_step api t (t\<lparr>t_gw := (t_gw t)\<lparr>g_log := lg\<rparr>, t_strategy := S_Append oid evt a'\<rparr>)"
| order_thrown: "t_strategy t = S_Append oid evt A_Full \<Longrightarrow> thread_step api t (t\<lparr>t_strategy := S_Idle\<rparr>)"
| book_order: "t_strategy t = S_Append oid evt (A_Done sq) \<Longrightarrow> om_apply_event evt (g_orders (t_gw t)) = Some om \<Longrightarrow>
     thread_step api t (t\<lparr>t_gw := (t_gw t)\<lparr>g_orders := om\<rparr>, t_strategy := S_Booked oid evt\<rparr>)"
| send_out: "t_strategy t = S_Booked oid evt \<Longrightarrow>
     thread_step api t (t\<lparr>t_sent := t_sent t @ [to_new_order_single evt], t_strategy := S_Idle\<rparr>)"
| receive: "t_io t = IO_Idle \<Longrightarrow> from_execution_report api r = Some (Inr (Some evt)) \<Longrightarrow>
     thread_step api t (t\<lparr>t_io := IO_Append evt A_Load\<rparr>)"
| log_report: "t_io t = IO_Append evt a \<Longrightarrow> append_access ts evt a (g_log (t_gw t)) = Some (a', lg) \<Longrightarrow>
     thread_step api t (t\<lparr>t_gw := (t_gw t)\<lparr>g_log := lg\<rparr>, t_io := IO_Append evt a'\<rparr>)"
| track_report: "t_io t = IO_Append evt (A_Done sq) \<Longrightarrow> pt_apply_event evt (g_tracker (t_gw t)) = Some pt \<Longrightarrow>
     thread_step api t (t\<lparr>t_gw := (t_gw t)\<lparr>g_tracker := pt\<rparr>, t_io := IO_Tracked evt\<rparr>)"
| book_report: "t_io t = IO_Tracked evt \<Longrightarrow> om_apply_event evt (g_orders (t_gw t)) = Some om \<Longrightarrow>
     thread_step api t (t\<lparr>t_gw := (t_gw t)\<lparr>g_orders := om\<rparr>, t_io := IO_Idle\<rparr>)"

text \<open>The steps on a state given by its parts, for writing down schedules.\<close>

abbreviation thr :: "gateway \<Rightarrow> strategy_pc \<Rightarrow> io_pc \<Rightarrow> fix_message list \<Rightarrow> threads" where
  "thr g s i ms \<equiv> \<lparr>t_gw = g, t_strategy = s, t_io = i, t_sent = ms\<rparr>"

lemma strategy_steps:
  "is_connected g \<Longrightarrow> check_full (g_risk g) symb sd q px (g_tracker g) (g_orders g) = Some Pass \<Longrightarrow>
     thread_step api (thr g S_Idle i ms) (thr g (S_Checked symb sd q px) i ms)"
  "next_order_id g = (oid, g1) \<Longrightarrow> make_new_order symb sd q px (sv_of oid) = Some evt \<Longrightarrow>
     thread_step api (thr g (S_Checked symb sd q px) i ms) (thr g1 (S_Append oid evt A_Load) i ms)"
  "append_access ts evt a (g_log g) = Some (a', lg) \<Longrightarrow>
     thread_step api (thr g (S_Append oid evt a) i ms) (thr (g\<lparr>g_log := lg\<rparr>) (S_Append oid evt a') i ms)"
  "om_apply_event evt (g_orders g) = Some om \<Longrightarrow>
     thread_step api (thr g (S_Append oid evt (A_Done sq)) i ms) (thr (g\<lparr>g_orders := om\<rparr>) (S_Booked oid evt) i ms)"
  "thread_step api (thr g (S_Booked oid evt) i ms) (thr g S_Idle i (ms @ [to_new_order_single evt]))"
  using thread_step.check_order [of "thr g S_Idle i ms" symb sd q px api]
    thread_step.number_order [of "thr g (S_Checked symb sd q px) i ms" symb sd q px oid g1 evt api]
    thread_step.log_order [of "thr g (S_Append oid evt a) i ms" oid evt a ts a' lg api]
    thread_step.book_order [of "thr g (S_Append oid evt (A_Done sq)) i ms" oid evt sq om api]
    thread_step.send_out [of "thr g (S_Booked oid evt) i ms" oid evt api]
  by simp_all

lemma io_steps:
  "from_execution_report api r = Some (Inr (Some evt)) \<Longrightarrow>
     thread_step api (thr g s IO_Idle ms) (thr g s (IO_Append evt A_Load) ms)"
  "append_access ts evt a (g_log g) = Some (a', lg) \<Longrightarrow>
     thread_step api (thr g s (IO_Append evt a) ms) (thr (g\<lparr>g_log := lg\<rparr>) s (IO_Append evt a') ms)"
  "pt_apply_event evt (g_tracker g) = Some pt \<Longrightarrow>
     thread_step api (thr g s (IO_Append evt (A_Done sq)) ms) (thr (g\<lparr>g_tracker := pt\<rparr>) s (IO_Tracked evt) ms)"
  "om_apply_event evt (g_orders g) = Some om \<Longrightarrow>
     thread_step api (thr g s (IO_Tracked evt) ms) (thr (g\<lparr>g_orders := om\<rparr>) s IO_Idle ms)"
  using thread_step.receive [of "thr g s IO_Idle ms" api r evt]
    thread_step.log_report [of "thr g s (IO_Append evt a) ms" evt a ts a' lg api]
    thread_step.track_report [of "thr g s (IO_Append evt (A_Done sq)) ms" evt sq pt api]
    thread_step.book_report [of "thr g s (IO_Tracked evt) ms" evt om api]
  by simp_all

section \<open>Uninterrupted calls\<close>

text \<open>The four accesses in a row are \<open>append\<close>.\<close>

definition stored_log :: "event_log \<Rightarrow> 64 word \<Rightarrow> order_event \<Rightarrow> event_log" where
  "stored_log lg sq e = lg\<lparr>mapped := (mapped lg)\<lparr>events := (events (mapped lg))(unat sq := e)\<rparr>\<rparr>"

definition published_log :: "event_log \<Rightarrow> 64 word \<Rightarrow> event_log" where
  "published_log lg sq = lg\<lparr>next_seq := sq + 1\<rparr>"

definition headed_log :: "event_log \<Rightarrow> 64 word \<Rightarrow> event_log" where
  "headed_log lg sq = lg\<lparr>mapped := (mapped lg)\<lparr>header := (header (mapped lg))\<lparr>next_sequence := sq + 1\<rparr>\<rparr>\<rparr>"

lemma append_accesses:
  "unat (next_seq lg) < MAX_EVENTS \<Longrightarrow>
     append_access ts evt A_Load lg = Some (A_Store (next_seq lg) (evt\<lparr>sequence := next_seq lg, timestamp_ns := now_ns ts\<rparr>), lg)"
  "slot_backed (mapped lg) (unat sq) \<Longrightarrow> append_access ts evt (A_Store sq e) lg = Some (A_Publish sq, stored_log lg sq e)"
  "append_access ts evt (A_Publish sq) lg = Some (A_Header sq, published_log lg sq)"
  "append_access ts evt (A_Header sq) lg = Some (A_Done sq, headed_log lg sq)"
  by (simp_all add: stored_log_def published_log_def headed_log_def Let_def)

lemma log_append_accesses:
  assumes "log_append ts evt lg = Some (lg', Inr sq)"
  shows "unat (next_seq lg) < MAX_EVENTS" "sq = next_seq lg" "slot_backed (mapped lg) (unat sq)"
    "lg' = headed_log (published_log (stored_log lg sq (evt\<lparr>sequence := sq, timestamp_ns := now_ns ts\<rparr>)) sq) sq"
  using assms by (auto simp: log_append_def Let_def stored_log_def published_log_def headed_log_def split: if_splits)

lemma backed_after [simp]:
  "slot_backed (mapped (stored_log lg sq e)) i = slot_backed (mapped lg) i"
  "slot_backed (mapped (published_log lg sq)) i = slot_backed (mapped lg) i"
  "slot_backed (mapped (headed_log lg sq)) i = slot_backed (mapped lg) i"
  by (simp_all add: slot_backed_def stored_log_def published_log_def headed_log_def)

text \<open>A second store to the same slot replaces the first, and the other accesses repeat themselves.\<close>

lemma overwritten_log:
  "headed_log (published_log (stored_log (headed_log (published_log (stored_log lg sq e) sq) sq) sq e') sq) sq
     = headed_log (published_log (stored_log lg sq e') sq) sq"
  by (simp add: stored_log_def published_log_def headed_log_def)

lemma two_steps: "thread_step api a b \<Longrightarrow> thread_step api b c \<Longrightarrow> (thread_step api)\<^sup>*\<^sup>* a c"
  by (meson converse_rtranclp_into_rtranclp rtranclp.rtrancl_refl)

lemma same_log [simp]: "(g :: gateway)\<lparr>g_log := g_log g\<rparr> = g"
  by (cases g) simp

text \<open>Either thread makes the accesses of \<open>append\<close> one after the other: \<open>st a lg\<close> is the state with the thread
  at access \<open>a\<close> and the shared log \<open>lg\<close>.\<close>

lemma append_run:
  assumes step: "\<And>a lg a' lg'. append_access ts evt a lg = Some (a', lg') \<Longrightarrow> R (st a lg) (st a' lg')"
    and app: "log_append ts evt lg = Some (lg', Inr sq)"
  shows "R\<^sup>*\<^sup>* (st A_Load lg) (st (A_Done sq) lg')"
proof -
  let ?e = "evt\<lparr>sequence := sq, timestamp_ns := now_ns ts\<rparr>"
  note l = log_append_accesses [OF app]
  let ?l1 = "stored_log lg sq ?e"
  have "R (st A_Load lg) (st (A_Store sq ?e) lg)"
    using step [OF append_accesses(1) [OF l(1)]] l(2) by simp
  moreover have "R (st (A_Store sq ?e) lg) (st (A_Publish sq) ?l1)" by (rule step [OF append_accesses(2) [OF l(3)]])
  moreover have "R (st (A_Publish sq) ?l1) (st (A_Header sq) (published_log ?l1 sq))" by (rule step [OF append_accesses(3)])
  moreover have "R (st (A_Header sq) (published_log ?l1 sq)) (st (A_Done sq) lg')"
    using step [OF append_accesses(4)] l(4) by simp
  ultimately show ?thesis by (meson converse_rtranclp_into_rtranclp rtranclp.rtrancl_refl)
qed

lemma strategy_append:
  assumes "log_append ts evt (g_log g) = Some (lg, Inr sq)"
  shows "(thread_step api)\<^sup>*\<^sup>* (thr g (S_Append oid evt A_Load) i ms) (thr (g\<lparr>g_log := lg\<rparr>) (S_Append oid evt (A_Done sq)) i ms)"
proof -
  have step: "thread_step api (thr (g\<lparr>g_log := l\<rparr>) (S_Append oid evt a) i ms) (thr (g\<lparr>g_log := l'\<rparr>) (S_Append oid evt a') i ms)"
    if "append_access ts evt a l = Some (a', l')" for a l a' l'
    using strategy_steps(3) [of ts evt a "g\<lparr>g_log := l\<rparr>" a' l'] that by simp
  from append_run [where R = "thread_step api" and st = "\<lambda>a l. thr (g\<lparr>g_log := l\<rparr>) (S_Append oid evt a) i ms", OF step assms] show ?thesis by simp
qed

lemma io_append:
  assumes "log_append ts evt (g_log g) = Some (lg, Inr sq)"
  shows "(thread_step api)\<^sup>*\<^sup>* (thr g s (IO_Append evt A_Load) ms) (thr (g\<lparr>g_log := lg\<rparr>) s (IO_Append evt (A_Done sq)) ms)"
proof -
  have step: "thread_step api (thr (g\<lparr>g_log := l\<rparr>) s (IO_Append evt a) ms) (thr (g\<lparr>g_log := l'\<rparr>) s (IO_Append evt a') ms)"
    if "append_access ts evt a l = Some (a', l')" for a l a' l'
    using io_steps(2) [of ts evt a "g\<lparr>g_log := l\<rparr>" a' l'] that by simp
  from append_run [where R = "thread_step api" and st = "\<lambda>a l. thr (g\<lparr>g_log := l\<rparr>) s (IO_Append evt a) ms", OF step assms] show ?thesis by simp
qed

lemma serial_order:
  assumes "send_order send ts symb sd q px g = Some (g', ms, res)" "ms \<noteq> []"
  shows "(thread_step api)\<^sup>*\<^sup>* (thr g S_Idle i ms0) (thr g' S_Idle i (ms0 @ ms))"
  using assms(1)
proof (cases rule: send_order_cases)
  case (booked evt lg sq om)
  let ?g1 = "g\<lparr>order_counter := order_counter g + 1\<rparr>" and ?oid = "fst (next_order_id g)"
  have n: "next_order_id g = (?oid, ?g1)" by (simp add: next_order_id_def)
  have "(thread_step api)\<^sup>*\<^sup>* (thr g S_Idle i ms0) (thr ?g1 (S_Append ?oid evt A_Load) i ms0)"
    by (rule two_steps, rule strategy_steps(1)) (use booked(1-3) n strategy_steps(2) in \<open>auto simp: is_connected_def\<close>)
  also have "(thread_step api)\<^sup>*\<^sup>* (thr ?g1 (S_Append ?oid evt A_Load) i ms0) (thr (?g1\<lparr>g_log := lg\<rparr>) (S_Append ?oid evt (A_Done sq)) i ms0)"
    by (rule strategy_append) (use booked(4) in simp)
  also have "(thread_step api)\<^sup>*\<^sup>* (thr (?g1\<lparr>g_log := lg\<rparr>) (S_Append ?oid evt (A_Done sq)) i ms0)
      (thr (?g1\<lparr>g_log := lg, g_orders := om\<rparr>) S_Idle i (ms0 @ [to_new_order_single evt]))"
    using two_steps [OF strategy_steps(4) strategy_steps(5), of evt "?g1\<lparr>g_log := lg\<rparr>" om] booked(5) by simp
  finally show ?thesis using booked(6,7) by simp
qed (use assms(2) in simp_all)

lemma serial_report:
  assumes "onMessage api ts r g = Some (Returns g')"
  shows "(thread_step api)\<^sup>*\<^sup>* (thr g s IO_Idle ms) (thr g' s IO_Idle ms)"
  using assms
proof (cases rule: onMessage_cases)
  case (booked evt lg sq pt om)
  have "(thread_step api)\<^sup>*\<^sup>* (thr g s IO_Idle ms) (thr g s (IO_Append evt A_Load) ms)"
    using io_steps(1) [OF booked(1)] by (rule r_into_rtranclp)
  also have "(thread_step api)\<^sup>*\<^sup>* (thr g s (IO_Append evt A_Load) ms) (thr (g\<lparr>g_log := lg\<rparr>) s (IO_Append evt (A_Done sq)) ms)"
    by (rule io_append [OF booked(2)])
  also have "(thread_step api)\<^sup>*\<^sup>* (thr (g\<lparr>g_log := lg\<rparr>) s (IO_Append evt (A_Done sq)) ms)
      (thr (g\<lparr>g_log := lg, g_tracker := pt, g_orders := om\<rparr>) s IO_Idle ms)"
    using two_steps [OF io_steps(3) io_steps(4), of evt "g\<lparr>g_log := lg\<rparr>" pt om] booked(3,4) by simp
  finally show ?thesis using booked(5) by simp
qed simp

section \<open>Two appends at once\<close>

text \<open>The schedule: the strategy thread has loaded the sequence number, then the I/O thread appends its
  report in full, then the strategy thread goes on to store its order at the same number.\<close>

lemma racing_appends:
  assumes o: "log_append ts evt (g_log g) = Some (lg, Inr sq)" and r: "log_append ts' evt' (g_log g) = Some (lg', Inr sq')"
  shows "(thread_step api)\<^sup>*\<^sup>* (thr g (S_Append oid evt A_Load) (IO_Append evt' A_Load) ms)
    (thr (g\<lparr>g_log := lg\<rparr>) (S_Append oid evt (A_Done sq)) (IO_Append evt' (A_Done sq)) ms)"
proof -
  note lo = log_append_accesses [OF o] and lr = log_append_accesses [OF r]
  let ?e = "evt\<lparr>sequence := sq, timestamp_ns := now_ns ts\<rparr>"
  have sq': "sq' = sq" using lo(2) lr(2) by simp
  have load: "append_access ts evt A_Load (g_log g) = Some (A_Store sq ?e, g_log g)"
    using append_accesses(1) [OF lo(1)] lo(2) by simp
  let ?g = "g\<lparr>g_log := lg'\<rparr>" and ?io = "IO_Append evt' (A_Done sq)" and ?l1 = "stored_log lg' sq ?e"
  have b: "slot_backed (mapped lg') (unat sq)" using lo(3) lr(4) by simp
  have eq: "lg = headed_log (published_log ?l1 sq) sq"
    unfolding lr(4) [unfolded sq'] overwritten_log by (rule lo(4))
  have "(thread_step api)\<^sup>*\<^sup>* (thr g (S_Append oid evt A_Load) (IO_Append evt' A_Load) ms)
      (thr g (S_Append oid evt (A_Store sq ?e)) (IO_Append evt' A_Load) ms)"
    using strategy_steps(3) [OF load, of api oid] by (intro r_into_rtranclp) simp
  also have "(thread_step api)\<^sup>*\<^sup>* (thr g (S_Append oid evt (A_Store sq ?e)) (IO_Append evt' A_Load) ms)
      (thr ?g (S_Append oid evt (A_Store sq ?e)) ?io ms)"
    using io_append [OF r] sq' by simp
  also have "(thread_step api)\<^sup>*\<^sup>* (thr ?g (S_Append oid evt (A_Store sq ?e)) ?io ms)
      (thr (g\<lparr>g_log := published_log ?l1 sq\<rparr>) (S_Append oid evt (A_Header sq)) ?io ms)"
    using two_steps [OF strategy_steps(3) [OF append_accesses(2)] strategy_steps(3) [OF append_accesses(3)], of ?g sq] b
    by simp
  also have "(thread_step api)\<^sup>*\<^sup>* (thr (g\<lparr>g_log := published_log ?l1 sq\<rparr>) (S_Append oid evt (A_Header sq)) ?io ms)
      (thr (g\<lparr>g_log := lg\<rparr>) (S_Append oid evt (A_Done sq)) ?io ms)"
    using strategy_steps(3) [OF append_accesses(4), of api "g\<lparr>g_log := published_log ?l1 sq\<rparr>" oid evt sq ?io ms]
    by (intro r_into_rtranclp) (simp add: eq [symmetric])
  finally show ?thesis .
qed

lemma racing_calls:
  assumes g: "connected g" "check_full (g_risk g) symb sd q px (g_tracker g) (g_orders g) = Some Pass"
    and e: "make_new_order symb sd q px (sv_of (fst (next_order_id g))) = Some evt"
    and r: "from_execution_report api rep = Some (Inr (Some evt'))"
    and lg: "log_append ts evt (g_log g) = Some (lg, Inr sq)" "log_append ts' evt' (g_log g) = Some (lg', Inr sq')"
    and t: "pt_apply_event evt' (g_tracker g) = Some pt" "om_apply_event evt' (g_orders g) = Some om" "om_apply_event evt om = Some om'"
  shows "(thread_step api)\<^sup>*\<^sup>* (thr g S_Idle IO_Idle [])
    (thr (g\<lparr>order_counter := order_counter g + 1, g_log := lg, g_tracker := pt, g_orders := om'\<rparr>) S_Idle IO_Idle [to_new_order_single evt])"
proof -
  let ?g1 = "g\<lparr>order_counter := order_counter g + 1\<rparr>" and ?oid = "fst (next_order_id g)"
  have n: "next_order_id g = (?oid, ?g1)" by (simp add: next_order_id_def)
  have "(thread_step api)\<^sup>*\<^sup>* (thr g S_Idle IO_Idle []) (thr ?g1 (S_Append ?oid evt A_Load) IO_Idle [])"
    by (rule two_steps, rule strategy_steps(1)) (use g e n strategy_steps(2) in \<open>auto simp: is_connected_def\<close>)
  also have "(thread_step api)\<^sup>*\<^sup>* (thr ?g1 (S_Append ?oid evt A_Load) IO_Idle []) (thr ?g1 (S_Append ?oid evt A_Load) (IO_Append evt' A_Load) [])"
    using io_steps(1) [OF r] by (rule r_into_rtranclp)
  also have "(thread_step api)\<^sup>*\<^sup>* (thr ?g1 (S_Append ?oid evt A_Load) (IO_Append evt' A_Load) [])
      (thr (?g1\<lparr>g_log := lg\<rparr>) (S_Append ?oid evt (A_Done sq)) (IO_Append evt' (A_Done sq)) [])"
    using racing_appends [of ts evt ?g1 lg sq ts' evt' lg' sq'] lg by simp
  also have "(thread_step api)\<^sup>*\<^sup>* (thr (?g1\<lparr>g_log := lg\<rparr>) (S_Append ?oid evt (A_Done sq)) (IO_Append evt' (A_Done sq)) [])
      (thr (?g1\<lparr>g_log := lg, g_tracker := pt, g_orders := om\<rparr>) (S_Append ?oid evt (A_Done sq)) IO_Idle [])"
    using two_steps [OF io_steps(3) io_steps(4), of evt' "?g1\<lparr>g_log := lg\<rparr>" pt om] t(1,2) by simp
  also have "(thread_step api)\<^sup>*\<^sup>* (thr (?g1\<lparr>g_log := lg, g_tracker := pt, g_orders := om\<rparr>) (S_Append ?oid evt (A_Done sq)) IO_Idle [])
      (thr (?g1\<lparr>g_log := lg, g_tracker := pt, g_orders := om'\<rparr>) S_Idle IO_Idle ([] @ [to_new_order_single evt]))"
    using two_steps [OF strategy_steps(4) strategy_steps(5), of evt "?g1\<lparr>g_log := lg, g_tracker := pt, g_orders := om\<rparr>" om' api ?oid sq IO_Idle "[]"] t(3) by simp
  finally show ?thesis by simp
qed

section \<open>Properties\<close>

text \<open>The thread model contains the sequential one: an order that goes out and a report that is booked,
  run without interruption, are runs of it from any state of the other thread.\<close>

lemma uninterrupted_calls_are_runs:
  "(send_order send ts symb sd q px g = Some (g', ms, res) \<longrightarrow> ms \<noteq> [] \<longrightarrow>
      (thread_step api)\<^sup>*\<^sup>* (thr g S_Idle i ms0) (thr g' S_Idle i (ms0 @ ms))) \<and>
   (onMessage api ts r g = Some (Returns g') \<longrightarrow> (thread_step api)\<^sup>*\<^sup>* (thr g s IO_Idle ms0) (thr g' s IO_Idle ms0))"
  by (intro conjI impI serial_order serial_report)

text \<open>C36. An order and a report that are processed at the same time can lose the report from the log: for
  every consistent gateway, every order that passes the check and every report that can be booked,
  there is a schedule in which both calls complete, the report is in the positions and the order is
  sent, but the log has grown by the order alone, and a restart comes back with the positions from
  before the report.\<close>

theorem concurrent_append_loses_report:
  assumes "reachable api send g" "connected g" "length (log_events (g_log g)) < MAX_EVENTS"
    and "check_full (g_risk g) symb sd q px (g_tracker g) (g_orders g) = Some Pass"
    and "readable 8 (sv_data symb)" "int32 q" "int64 px"
    and "from_execution_report api rep = Some (Inr (Some evt))"
    and "pt_apply_event evt (g_tracker g) = Some pt" "om_apply_event evt (g_orders g) = Some om"
    and "open_ok os" "mmap_ok os"
  shows "\<exists>g' m e g2. (thread_step api)\<^sup>*\<^sup>* (thr g S_Idle IO_Idle []) (thr g' S_Idle IO_Idle [m]) \<and> g_tracker g' = pt \<and>
    log_events (g_log g') = log_events (g_log g) @ [e] \<and> etype e = NewOrder \<and>
    startup os (Some (close_log (g_log g'))) = Some (Some (close_log (g_log g')), Inr g2) \<and>
    same_positions (g_tracker g) (g_tracker g2)"
proof -
  let ?ts = "\<lparr>tv_sec = 0, tv_nsec = 0\<rparr>"
  have ok: "gw_ok g" by (rule reachable_gw_ok [OF assms(1)])
  then have lo: "log_ok (g_log g)" and om_ok: "om_ok (g_orders g)" by (simp_all add: gw_ok_def)
  obtain e lg om1 where e: "make_new_order symb sd q px (sv_of (fst (next_order_id g))) = Some e"
      "log_append ?ts e (g_log g) = Some (lg, Inr (next_seq (g_log g)))" "om_apply_event e (g_orders g) = Some om1"
    by (rule send_order_runs [OF assms(2,4,5,6,7) lo assms(3) om_ok])
  note f = make_new_order_fields(1,10) [OF e(1)]
  have eok: "event_ok e" using f(2) assms(6,7) by simp
  have "unat (next_seq (g_log g)) < MAX_EVENTS" using assms(3) by (simp add: length_log_events)
  then obtain lg' where lg': "log_append ?ts evt (g_log g) = Some (lg', Inr (next_seq (g_log g)))"
    by (rule log_append_ok [OF lo])
  have om2: "om_ok om" using om_apply_event_ok [OF om_ok from_execution_report_ok(1) [OF assms(8)] assms(10)] .
  have "om_spec e (om_map om) \<noteq> None" using f(1) by (simp add: om_spec_def)
  then obtain om' where om': "om_apply_event e om = Some om'"
    using om_apply_event_map [OF om2 eok] by (cases "om_apply_event e om") auto
  let ?g = "g\<lparr>order_counter := order_counter g + 1, g_log := lg, g_tracker := pt, g_orders := om'\<rparr>"
  have run: "(thread_step api)\<^sup>*\<^sup>* (thr g S_Idle IO_Idle []) (thr ?g S_Idle IO_Idle [to_new_order_single e])"
    by (rule racing_calls [OF assms(2,4) e(1) assms(8) e(2) lg' assms(9,10) om'])
  have "pt_apply_event e (g_tracker g) = Some (g_tracker g)" using f(1) by (simp add: pt_apply_event_def is_fill_def)
  with ok projects_append [OF _ _ _ _ _ eok e(2) this e(3)]
  have "gw_ok (g\<lparr>g_log := lg, g_orders := om1\<rparr>)" by (simp add: gw_ok_def)
  from restart_same [OF this assms(11,12)] obtain g2 where
    "startup os (Some (close_log lg)) = Some (Some (close_log lg), Inr g2)" "same_positions (g_tracker g) (g_tracker g2)" by auto
  moreover have "log_events lg = log_events (g_log g) @ [e\<lparr>sequence := next_seq (g_log g), timestamp_ns := now_ns ?ts\<rparr>]"
    by (rule log_append_events(2) [OF lo e(2)])
  ultimately show ?thesis using run f(1) by fastforce
qed

definition sample_booked :: order_event where
  "sample_booked = zero_event\<lparr>etype := PartialFill, symbol := pad_name 8 ''AAPL'', order_id := pad_name 8 ''ORD0'',
     side := Buy, fill_qty := 40, fill_price := 2000000\<rparr>"

lemma fill_report_event: "from_execution_report sample_api fill_report = Some (Inr (Some sample_booked))"
proof -
  have c: "cstr 8 (c_str ''AAPL'') = ''AAPL''" "cstr 8 (c_str ''ORD0'') = ''ORD0''" by code_simp+
  have f: "d_to_i32 (Finite 40) = Some 40" by (simp add: d_to_i32_def trunc_def int32_def i32_def)
  show ?thesis
    by (simp add: from_execution_report_def sample_api_def fill_report_def get_or_throw_def event_type_of_exec_def
        try_bind_def fill_fields_def to_fixed_2 f c event_symbol_c_str Let_def sample_booked_def)
qed

theorem concurrent_append_loses_report_witness:
  "\<exists>g' m e g2 pt. (thread_step sample_api)\<^sup>*\<^sup>* (thr sample_gateway S_Idle IO_Idle []) (thr g' S_Idle IO_Idle [m]) \<and>
    pt_map (g_tracker g') ''AAPL'' = Some pt \<and> net_qty pt = 40 \<and> log_events (g_log g') = [e] \<and>
    startup all_calls_succeed (Some (close_log (g_log g'))) = Some (Some (close_log (g_log g')), Inr g2) \<and>
    same_positions new_position_tracker (g_tracker g2)"
proof -
  let ?e = sample_booked
  have e: "event_ok ?e" "is_fill ?e" "event_symbol ?e = ''AAPL''" "event_oid ?e = ''ORD0''" "etype ?e = PartialFill" by code_simp+
  obtain p where p: "fill_position ?e (fresh_position ''AAPL'') = Some p" "net_qty p = 40"
  proof -
    have "map_option net_qty (fill_position ?e (fresh_position ''AAPL'')) = Some 40" by code_simp
    then show thesis using that by auto
  qed
  have "pt_spec ?e (pt_map new_position_tracker) = Some [''AAPL'' \<mapsto> p]"
    using e(2,3) p by (simp add: pt_spec_def MAX_SYMBOLS_def)
  then obtain pt where pt: "pt_apply_event ?e new_position_tracker = Some pt" "pt_map pt = [''AAPL'' \<mapsto> p]"
    by (rule pt_apply_event_obtain [OF pt_ok_new(1) e(1)])
  have "om_spec ?e (om_map new_order_manager) = Some Map.empty" using e(5) by (simp add: om_spec_def update_existing_def)
  then obtain om where om: "om_apply_event ?e new_order_manager = Some om"
    by (rule om_apply_event_obtain [OF om_ok_new(1) e(1)])
  from concurrent_append_loses_report [OF sample_reachable sample_gateway_fields(5), of "sv_of ''AAPL''" Buy 100 175000000
      sample_api fill_report ?e pt om all_calls_succeed] pt om p(2) show ?thesis
    by (auto simp: sample_check fill_report_event int32_def int64_def MAX_EVENTS_def all_calls_succeed_def)
qed

section \<open>A check between the two halves of a fill\<close>

text \<open>The schedule: the position is updated, the strategy thread checks, the fill reaches the order, the
  strategy thread goes on.\<close>

lemma check_inside_fill_run:
  assumes t: "pt_apply_event e (g_tracker g) = Some pt" "om_apply_event e (g_orders g) = Some om"
    and c: "connected g" "check_full (g_risk g) symb sd q px pt (g_orders g) = Some Pass"
    and n: "make_new_order symb sd q px (sv_of (fst (next_order_id g))) = Some evt"
    and l: "log_append ts evt (g_log g) = Some (lg, Inr sq')" and b: "om_apply_event evt om = Some om'"
  shows "(thread_step api)\<^sup>*\<^sup>* (thr g S_Idle (IO_Append e (A_Done sq)) [])
    (thr (g\<lparr>order_counter := order_counter g + 1, g_log := lg, g_tracker := pt, g_orders := om'\<rparr>) S_Idle IO_Idle [to_new_order_single evt])"
proof -
  let ?g1 = "g\<lparr>g_tracker := pt\<rparr>" and ?g2 = "g\<lparr>g_tracker := pt, g_orders := om\<rparr>" and ?oid = "fst (next_order_id g)"
  let ?g3 = "?g2\<lparr>order_counter := order_counter g + 1\<rparr>"
  have "(thread_step api)\<^sup>*\<^sup>* (thr g S_Idle (IO_Append e (A_Done sq)) []) (thr ?g1 (S_Checked symb sd q px) (IO_Tracked e) [])"
    using two_steps [OF io_steps(3) [OF t(1)] strategy_steps(1) [of ?g1 symb sd q px]] c by (simp add: is_connected_def)
  also have "(thread_step api)\<^sup>*\<^sup>* (thr ?g1 (S_Checked symb sd q px) (IO_Tracked e) []) (thr ?g3 (S_Append ?oid evt A_Load) IO_Idle [])"
    using two_steps [OF io_steps(4) [of e ?g1 om] strategy_steps(2) [of ?g2 ?oid ?g3]] t(2) n by (simp add: next_order_id_def)
  also have "(thread_step api)\<^sup>*\<^sup>* (thr ?g3 (S_Append ?oid evt A_Load) IO_Idle []) (thr (?g3\<lparr>g_log := lg\<rparr>) (S_Append ?oid evt (A_Done sq')) IO_Idle [])"
    by (rule strategy_append) (use l in simp)
  also have "(thread_step api)\<^sup>*\<^sup>* (thr (?g3\<lparr>g_log := lg\<rparr>) (S_Append ?oid evt (A_Done sq')) IO_Idle [])
      (thr (?g3\<lparr>g_log := lg, g_orders := om'\<rparr>) S_Idle IO_Idle ([] @ [to_new_order_single evt]))"
    using two_steps [OF strategy_steps(4) strategy_steps(5), of evt "?g3\<lparr>g_log := lg\<rparr>" om' api ?oid sq' IO_Idle "[]"] b by simp
  finally have "(thread_step api)\<^sup>*\<^sup>* (thr g S_Idle (IO_Append e (A_Done sq)) []) (thr (?g3\<lparr>g_log := lg, g_orders := om'\<rparr>) S_Idle IO_Idle [to_new_order_single evt])"
    by simp
  moreover have "?g3\<lparr>g_log := lg, g_orders := om'\<rparr> =
      g\<lparr>order_counter := order_counter g + 1, g_log := lg, g_tracker := pt, g_orders := om'\<rparr>" by (cases g) simp
  ultimately show ?thesis by (simp only:)
qed

text \<open>C37. The position limit under two threads: when the strategy thread checks an order between the two
  halves of a fill (position updated, order not yet), the check counts the fill twice. The order goes
  out, and the committed quantity ends within the limit only up to the size of the fill.\<close>

theorem check_inside_fill_off_by_fill:
  assumes ok: "pt_ok (g_tracker g)" "om_ok (g_orders g)" "log_ok (g_log g)" "length (log_events (g_log g)) < MAX_EVENTS"
    and e: "event_ok e" "is_fill e" "pt_apply_event e (g_tracker g) = Some pt" "om_apply_event e (g_orders g) = Some om"
    and room: "pt_map (g_tracker g) (event_symbol e) \<noteq> None \<or> symbol_count (g_tracker g) < MAX_SYMBOLS"
    and od: "om_map (g_orders g) (event_oid e) = Some od" "is_open od" "cstr 8 (o_symbol od) = event_symbol e" "o_side od = side e"
    and f: "0 \<le> fill_qty e" "fill_qty e \<le> original_qty od - filled_qty od"
    and c: "connected g" "check_full (g_risk g) symb sd q px pt (g_orders g) = Some Pass"
    and t: "readable 8 (sv_data symb)" "int32 q" "int64 px"
    and fresh: "om_map (g_orders g) (filed_id (unat (order_counter g))) = None" "order_count (g_orders g) < MAX_ORDERS"
  shows "\<exists>g' m. (thread_step api)\<^sup>*\<^sup>* (thr g S_Idle (IO_Append e (A_Done sq)) []) (thr g' S_Idle IO_Idle [m]) \<and>
    committed (g_tracker g') (g_orders g') (cstr 8 (sv_data symb)) =
      committed (g_tracker g) (g_orders g) (cstr 8 (sv_data symb)) + signed_qty sd q \<and>
    \<bar>committed (g_tracker g') (g_orders g') (cstr 8 (sv_data symb)) +
      (if cstr 8 (sv_data symb) = event_symbol e then signed_fill e else 0)\<bar> \<le> max_net_position (limits (g_risk g)) \<and>
    \<bar>committed (g_tracker g') (g_orders g') (cstr 8 (sv_data symb))\<bar> \<le> max_net_position (limits (g_risk g)) + fill_qty e"
proof -
  let ?s = "cstr 8 (sv_data symb)" and ?ts = "\<lparr>tv_sec = 0, tv_nsec = 0\<rparr>" and ?oid = "fst (next_order_id g)"
  obtain evt where n: "make_new_order symb sd q px (sv_of ?oid) = Some evt"
    using make_new_order_eq [OF t(1), of "sv_of ?oid"] by simp
  note ev = send_order_event [OF n t(2,3)]
  have lt: "unat (next_seq (g_log g)) < MAX_EVENTS" using ok(4) by (simp add: length_log_events)
  obtain lg where lg: "log_append ?ts evt (g_log g) = Some (lg, Inr (next_seq (g_log g)))"
    by (rule log_append_ok [OF ok(3) lt])
  have om: "om_ok om" by (rule om_apply_event_ok [OF ok(2) e(1,4)])
  have pt: "pt_ok pt" using pt_apply_event_spec(2) [OF ok(1) e(1,3)] .
  have "om_spec evt (om_map om) \<noteq> None" using ev(2) by (simp add: om_spec_def)
  then obtain om' where om': "om_apply_event evt om = Some om'"
    using om_apply_event_map [OF om ev(1)] by (cases "om_apply_event evt om") auto
  let ?g = "g\<lparr>order_counter := order_counter g + 1, g_log := lg, g_tracker := pt, g_orders := om'\<rparr>"
  have run: "(thread_step api)\<^sup>*\<^sup>* (thr g S_Idle (IO_Append e (A_Done sq)) []) (thr ?g S_Idle IO_Idle [to_new_order_single evt])"
    by (rule check_inside_fill_run [OF e(3,4) c n lg om'])
  have "etype e \<noteq> NewOrder" using e(2) by (auto simp: is_fill_def)
  note ids = report_keeps_ids [OF ok(2) e(1) this e(4)]
  have keeps: "om_map om k = None \<longleftrightarrow> om_map (g_orders g) k = None" "order_count om = order_count (g_orders g)" for k
    using ids by (metis domIff, simp)
  have new: "committed pt om' ?s = committed pt om ?s + signed_qty sd q"
    using new_committed [OF om ev(1,2) om', of pt ?s] keeps fresh ev(3-6) by simp
  have same: "committed pt om ?s = committed (g_tracker g) (g_orders g) ?s"
    by (rule fill_committed [OF ok(1,2) e room od f])
  have seen: "committed pt (g_orders g) ?s = committed (g_tracker g) (g_orders g) ?s + (if ?s = event_symbol e then signed_fill e else 0)"
    using net_of_fill [OF ok(1) e(1,2,3) room, of ?s] by (simp add: committed_def)
  have "verdict (limits (g_risk g)) sd q px (committed pt (g_orders g) ?s) (map_option realized_pnl (pt_map pt ?s)) = Pass"
    using check_full_verdict [OF pt ok(2) t(1) c(2)] by simp
  then have "\<bar>committed pt (g_orders g) ?s + signed_qty sd q\<bar> \<le> max_net_position (limits (g_risk g))"
    by (simp add: verdict_Pass)
  then have lim: "\<bar>committed pt om' ?s + (if ?s = event_symbol e then signed_fill e else 0)\<bar> \<le> max_net_position (limits (g_risk g))"
    using new same seen by (simp add: algebra_simps)
  moreover have "\<bar>signed_fill e\<bar> = fill_qty e" using f(1) by (simp add: signed_fill_def)
  ultimately have "\<bar>committed pt om' ?s\<bar> \<le> max_net_position (limits (g_risk g)) + fill_qty e" using f(1) by (auto split: if_splits)
  with run new same lim show ?thesis by (intro exI [of _ ?g] exI [of _ "to_new_order_single evt"]) simp
qed

text \<open>Limits under which the sample scenario overshoots: at most 50 shares either way, crossing allowed.\<close>

definition tight_limits :: risk_limits where
  "tight_limits = default_limits\<lparr>max_net_position := 50, allow_position_cross := True\<rparr>"

theorem check_inside_fill_off_by_fill_witness:
  "\<exists>g g' m sq. max_net_position (limits (g_risk g)) = 50 \<and>
    (thread_step sample_api)\<^sup>*\<^sup>* (thr g S_Idle (IO_Append (sample_fill ''O1'' ''AAPL'' Buy 40 100) (A_Done sq)) []) (thr g' S_Idle IO_Idle [m]) \<and>
    committed (g_tracker g') (g_orders g') ''AAPL'' = - 90"
proof -
  let ?e = "sample_fill ''O1'' ''AAPL'' Buy 40 100"
  obtain om where om: "om_ok om" "om_map om = [''O1'' \<mapsto> sample_open]" by (rule sample_manager)
  have f: "fill_order ?e sample_open = Some sample_partial" by code_simp
  obtain om' where om': "om_apply_event ?e om = Some om'" by (rule sample_fill_step [OF om f])
  have e: "event_ok ?e" "is_fill ?e" "event_oid ?e = ''O1''" "is_open sample_open"
      "cstr 8 (o_symbol sample_open) = event_symbol ?e" "o_side sample_open = side ?e" "0 \<le> fill_qty ?e"
      "fill_qty ?e \<le> original_qty sample_open - filled_qty sample_open" "event_symbol ?e = ''AAPL''" "signed_open ''AAPL'' sample_open = 100"
      "cstr 8 (c_str ''AAPL'') = ''AAPL''" "filed_id 0 = ''ORD0''" "fill_qty ?e = 40"
    by code_simp+
  obtain p where p: "fill_position ?e (fresh_position ''AAPL'') = Some p" "net_qty p = 40" "realized_pnl p = 0"
  proof -
    have "map_option (\<lambda>p. (net_qty p, realized_pnl p)) (fill_position ?e (fresh_position ''AAPL'')) = Some (40, 0)" by code_simp
    then show thesis using that by auto
  qed
  have "pt_spec ?e (pt_map new_position_tracker) = Some [''AAPL'' \<mapsto> p]"
    using e(2,9) p by (simp add: pt_spec_def MAX_SYMBOLS_def)
  then obtain pt where pt: "pt_apply_event ?e new_position_tracker = Some pt" "pt_ok pt" "pt_map pt = [''AAPL'' \<mapsto> p]"
    by (rule pt_apply_event_obtain [OF pt_ok_new(1) e(1)])
  let ?rc = "new_risk_checker tight_limits"
  let ?g = "sample_gateway\<lparr>g_orders := om, g_risk := ?rc\<rparr>"
  have ex: "exposure_of (om_map om) ''AAPL'' = 100" using om(2) e(10) by (simp add: exposure_of_def)
  have c: "committed pt om ''AAPL'' = 140" "committed new_position_tracker om ''AAPL'' = 100"
    using ex pt(3) p(2) by (simp_all add: committed_def net_of_def)
  have "open_exposure om (sv_of ''AAPL'') = Some 100"
    using open_exposure_defined [OF om(1), of "sv_of ''AAPL''"] om(2) e(10,11) ex by simp
  moreover have l: "limits_ok (limits ?rc)"
    by (simp add: limits_ok_def new_risk_checker_def tight_limits_def default_limits_def PRICE_SCALE_def int32_def int64_def)
  ultimately obtain res where r: "check_full ?rc (sv_of ''AAPL'') Sell 190 100 pt om = Some res"
    using check_full_defined [OF pt(2) om(1) l, of "sv_of ''AAPL''" 190 100 100 Sell] c(1) e(11) by (auto simp: int64_def)
  have "verdict (limits ?rc) Sell 190 100 140 (Some 0) = Pass"
    by (simp add: verdict_def new_risk_checker_def tight_limits_def default_limits_def PRICE_SCALE_def signed_qty_def)
  then have chk: "check_full ?rc (sv_of ''AAPL'') Sell 190 100 pt om = Some Pass"
    using check_full_verdict [OF pt(2) om(1) _ r] r c(1) e(11) pt(3) p(3) by simp
  have count: "order_count om < MAX_ORDERS" using om_okD(5) [OF om(1)] om(2) by (simp add: order_count_def MAX_ORDERS_def)
  have od: "om_map om (event_oid ?e) = Some sample_open" using om(2) e(3) by simp
  obtain g' m where g': "(thread_step sample_api)\<^sup>*\<^sup>* (thr ?g S_Idle (IO_Append ?e (A_Done 0)) []) (thr g' S_Idle IO_Idle [m])"
      "committed (g_tracker g') (g_orders g') ''AAPL'' = - 90"
    using check_inside_fill_off_by_fill [of ?g ?e pt om' sample_open "sv_of ''AAPL''" Sell 190 100 sample_api 0]
      om om' e pt(1) chk count od c(2)
    by (auto simp: signed_qty_def int32_def int64_def MAX_EVENTS_def)
  have "max_net_position (limits (g_risk ?g)) = 50" by (simp add: new_risk_checker_def tight_limits_def)
  with g' show ?thesis by blast
qed

end
