(* ===== verification/Main_Program.thy ===== *)
theory Main_Program
  imports Recovery
begin

text \<open>
  \<open>src/main.cpp\<close>: the process from its entry to its end. The main thread is a step function on the
  program points of \<open>main\<close>; QuickFIX's thread and the signals arrive between its steps, in any order a
  schedule gives. The local objects of \<open>main\<close> live from \<open>startup\<close> to the return, the global pointer
  \<open>g_gateway\<close> is never reset.

  Parameters are the argument count, the answers of the operating system, whether the QuickFIX objects
  can be set up and started, and the parameters of the gateway. A signal whose handler is not installed
  has its default action and ends the process; an installed handler stays installed.
\<close>

section \<open>The process\<close>

datatype signal = SIGINT | SIGTERM

datatype exit_status = Exited int | Uncaught cpp_exn | Killed signal | Undefined

text \<open>\<open>At_End\<close> is behind the \<open>try\<close> block, where \<open>main\<close> prints its last line and returns 0; \<open>At_Return n\<close> is one of
  the other three \<open>return\<close> statements.\<close>

datatype main_pc =
  At_Entry | At_SIGINT | At_SIGTERM | At_Try | At_Loop | At_Sleep | At_Stop | At_End
  | At_Return int | After_Main int | Ended exit_status

text \<open>How the constructors of the settings, stores and the initiator, and \<open>start\<close>, end.\<close>

datatype qf_setup = QF_Started | QF_ConfigError | QF_Exception

record ('m, 'r) main_env =
  argc :: nat
  env_os :: os_env
  env_qf :: qf_setup
  env_crack :: "'m \<Rightarrow> cpp_exn + 'r option"
  env_api :: "'r report_api"
  env_send :: session_send

record process =
  p_pc :: main_pc
  p_shutdown :: bool
  p_gateway :: "gateway option"
  p_pointer :: bool
  p_handled :: "signal list"
  p_initiator :: bool
  p_file :: "log_file option"
  p_runs :: "(gateway \<times> fix_message list) list"

definition start_process :: "log_file option \<Rightarrow> process" where
  "start_process entry = \<lparr>p_pc = At_Entry, p_shutdown = False, p_gateway = None, p_pointer = False, p_handled = [],
     p_initiator = False, p_file = entry, p_runs = []\<rparr>"

text \<open>What the file system shows: the shared mapping while the log is open.\<close>

definition disk_entry :: "process \<Rightarrow> log_file option" where
  "disk_entry p = (case p_gateway p of Some g \<Rightarrow> Some (close_log (g_log g)) | None \<Rightarrow> p_file p)"

section \<open>The main thread\<close>

text \<open>Opening the log, replaying it, building the gateway and publishing its address.\<close>

definition main_setup :: "('m, 'r) main_env \<Rightarrow> process \<Rightarrow> process" where
  "main_setup E p =
     (if argc E < 2 then p\<lparr>p_pc := At_Return 1\<rparr>
      else case startup (env_os E) (p_file p) of
        None \<Rightarrow> p\<lparr>p_pc := Ended Undefined\<rparr>
      | Some (f, Inl ex) \<Rightarrow> p\<lparr>p_file := f, p_pc := Ended (Uncaught ex)\<rparr>
      | Some (f, Inr g) \<Rightarrow> p\<lparr>p_file := f, p_gateway := Some g, p_pointer := True, p_pc := At_SIGINT\<rparr>)"

definition register_handler :: "signal \<Rightarrow> main_pc \<Rightarrow> process \<Rightarrow> process" where
  "register_handler s next_pc p = p\<lparr>p_handled := s # p_handled p, p_pc := next_pc\<rparr>"

definition main_try :: "('m, 'r) main_env \<Rightarrow> process \<Rightarrow> process" where
  "main_try E p =
     (case env_qf E of
        QF_ConfigError \<Rightarrow> p\<lparr>p_pc := At_Return 1\<rparr>
      | QF_Exception \<Rightarrow> p\<lparr>p_pc := At_Return 1\<rparr>
      | QF_Started \<Rightarrow> p\<lparr>p_initiator := True, p_pc := At_Loop\<rparr>)"

definition strategy_loop :: "process \<Rightarrow> process" where
  "strategy_loop p = (if p_shutdown p then p\<lparr>p_pc := At_Stop\<rparr> else p\<lparr>p_pc := At_Sleep\<rparr>)"

definition main_stop :: "process \<Rightarrow> process" where
  "main_stop p = p\<lparr>p_initiator := False, p_pc := At_End\<rparr>"

text \<open>Leaving \<open>main\<close> destroys its locals; \<open>g_gateway\<close> keeps the address.\<close>

definition leave_main :: "int \<Rightarrow> process \<Rightarrow> process" where
  "leave_main n p = p\<lparr>p_file := disk_entry p, p_gateway := None, p_pc := After_Main n\<rparr>"

definition main_step :: "('m, 'r) main_env \<Rightarrow> process \<Rightarrow> process" where
  "main_step E p =
     (case p_pc p of
        At_Entry \<Rightarrow> main_setup E p
      | At_SIGINT \<Rightarrow> register_handler SIGINT At_SIGTERM p
      | At_SIGTERM \<Rightarrow> register_handler SIGTERM At_Try p
      | At_Try \<Rightarrow> main_try E p
      | At_Loop \<Rightarrow> strategy_loop p
      | At_Sleep \<Rightarrow> p\<lparr>p_pc := At_Loop\<rparr>
      | At_Stop \<Rightarrow> main_stop p
      | At_End \<Rightarrow> leave_main 0 p
      | At_Return n \<Rightarrow> leave_main n p
      | After_Main n \<Rightarrow> p\<lparr>p_pc := Ended (Exited n)\<rparr>
      | Ended st \<Rightarrow> p)"

section \<open>Signals and callbacks\<close>

definition deliver_signal :: "('m, 'r) main_env \<Rightarrow> signal \<Rightarrow> int \<Rightarrow> int \<Rightarrow> process \<Rightarrow> process" where
  "deliver_signal E s t0 t1 p =
     (if s \<notin> set (p_handled p) then p\<lparr>p_pc := Ended (Killed s)\<rparr>
      else if p_pointer p \<and> p_gateway p = None then p\<lparr>p_shutdown := True, p_pc := Ended Undefined\<rparr>
      else case signal_handler (env_send E) t0 t1
          \<lparr>g_shutdown = p_shutdown p, g_gateway = (if p_pointer p then p_gateway p else None)\<rparr> of
        None \<Rightarrow> p\<lparr>p_pc := Ended Undefined\<rparr>
      | Some (m, None) \<Rightarrow> p\<lparr>p_shutdown := g_shutdown m\<rparr>
      | Some (m, Some r) \<Rightarrow> p\<lparr>p_shutdown := g_shutdown m, p_runs := p_runs p @ [(the (p_gateway p), ks_sent r)]\<rparr>)"

definition deliver_callback :: "('m, 'r) main_env \<Rightarrow> 'm callback \<Rightarrow> process \<Rightarrow> process" where
  "deliver_callback E c p =
     (case p_gateway p of
        Some g \<Rightarrow>
          if p_initiator p then
            case dispatch (env_crack E) (env_api E) c g of
              None \<Rightarrow> p\<lparr>p_pc := Ended Undefined\<rparr>
            | Some (Terminates ex) \<Rightarrow> p\<lparr>p_pc := Ended (Uncaught ex)\<rparr>
            | Some (Returns g') \<Rightarrow> p\<lparr>p_gateway := Some g'\<rparr>
          else p
      | None \<Rightarrow> p)"

datatype 'm event = Main | Signal signal int int | Callback "'m callback"

fun process_step :: "('m, 'r) main_env \<Rightarrow> 'm event \<Rightarrow> process \<Rightarrow> process" where
  "process_step E ev p =
     (case p_pc p of
        Ended st \<Rightarrow> p
      | _ \<Rightarrow> (case ev of
          Main \<Rightarrow> main_step E p
        | Signal s t0 t1 \<Rightarrow> deliver_signal E s t0 t1 p
        | Callback c \<Rightarrow> deliver_callback E c p))"

declare process_step.simps [simp del]

primrec run_process :: "('m, 'r) main_env \<Rightarrow> 'm event list \<Rightarrow> process \<Rightarrow> process" where
  "run_process E [] p = p"
| "run_process E (ev # evs) p = run_process E evs (process_step E ev p)"

lemma run_process_append: "run_process E (xs @ ys) p = run_process E ys (run_process E xs p)"
  by (induction xs arbitrary: p) simp_all

text \<open>The readings of the steady clock around a handler's run.\<close>

definition clock_ok :: "'m event \<Rightarrow> bool" where
  "clock_ok ev \<longleftrightarrow> (case ev of Signal s t0 t1 \<Rightarrow> 0 \<le> t0 \<and> t0 \<le> t1 \<and> int64 t1 | _ \<Rightarrow> True)"

lemmas main_defs = main_step_def main_setup_def register_handler_def main_try_def strategy_loop_def main_stop_def leave_main_def

lemma step_ended: "p_pc p = Ended st \<Longrightarrow> process_step E ev p = p"
  by (simp add: process_step.simps)

lemma run_ended: "p_pc p = Ended st \<Longrightarrow> run_process E xs p = p"
  by (induction xs) (simp_all add: step_ended)

lemma step_alive:
  assumes "\<And>st. p_pc p \<noteq> Ended st"
  shows "process_step E Main p = main_step E p" "process_step E (Signal s t0 t1) p = deliver_signal E s t0 t1 p"
    "process_step E (Callback c) p = deliver_callback E c p"
  using assms by (simp_all add: process_step.simps split: main_pc.split)

section \<open>Invariants\<close>

lemma dispatch_ok:
  assumes "dispatch crack api c g = Some (Returns g')" "gw_ok g"
  shows "gw_ok g'"
proof -
  have "gw_step api send g g' \<or> g' = g" for send
    using assms(1) by (cases c) (auto simp: fromApp_def toAdmin_def toApp_def fromAdmin_def
        split: sum.splits option.splits intro: gw_step.intros)
  then show ?thesis using gw_step_ok [OF _ assms(2)] assms(2) by blast
qed

definition cancels_of :: "gateway \<Rightarrow> fix_message list" where
  "cancels_of g = map (\<lambda>(i, od). cancel_request ''KS'' i od) (enumerate 0 (open_orders (g_orders g)))"

lemma signal_handler_cancels:
  assumes "gw_ok g" "0 \<le> t0" "t0 \<le> t1" "int64 t1" "g_gateway m = Some g"
  shows "\<exists>r. signal_handler send t0 t1 m = Some (m\<lparr>g_shutdown := True\<rparr>, Some r) \<and> ks_sent r = cancels_of g"
proof -
  have om: "om_ok (g_orders g)" using assms(1) by (simp add: gw_ok_def)
  obtain r where r: "cancel_all send (new_killswitch (session_id g)) ''KS'' (g_orders g) = Some r" "ks_sent r = cancels_of g"
    using cancel_all_sends [OF om, of send "new_killswitch (session_id g)" "''KS''"] by (auto simp: cancels_of_def)
  have "int64 (t1 - t0)" using assms(2-4) by (simp add: int64_def)
  with r assms(5) show ?thesis
    by (simp add: signal_handler_def emergency_cancel_all_def execute_def Let_def i64_def)
qed

text \<open>The objects: while the gateway lives it is consistent with its log; after its destruction the
  file is the closed log of a consistent gateway.\<close>

definition entry_ok :: "log_file option \<Rightarrow> bool" where
  "entry_ok entry \<longleftrightarrow> entry = None \<or> (\<exists>g. gw_ok g \<and> entry = Some (close_log (g_log g)))"

definition objects_ok :: "process \<Rightarrow> bool" where
  "objects_ok p \<longleftrightarrow>
     (\<forall>g. p_gateway p = Some g \<longrightarrow> gw_ok g \<and> p_pointer p) \<and>
     (p_pointer p \<longrightarrow> p_gateway p = None \<longrightarrow> (\<exists>g. gw_ok g \<and> p_file p = Some (close_log (g_log g)))) \<and>
     (p_pc p = At_Entry \<longrightarrow> \<not> p_pointer p \<and> p_gateway p = None \<and> entry_ok (p_file p)) \<and>
     (\<not> p_pointer p \<longrightarrow> p_handled p = []) \<and>
     (p_pc p \<in> {At_SIGINT, At_SIGTERM, At_Try, At_Loop, At_Sleep, At_Stop} \<longrightarrow> p_gateway p \<noteq> None)"

lemma startup_gw_ok:
  assumes "entry_ok entry" "startup os entry = Some (f, Inr g)"
  shows "gw_ok g"
proof -
  have os: "open_ok os" "mmap_ok os" using startup_Inr_ok [OF assms(2)] by simp_all
  show ?thesis
  proof (cases entry)
    case None
    with assms(2) show ?thesis using startup_new(2) by blast
  next
    case (Some f0)
    with assms(1) obtain g0 where "gw_ok g0" "f0 = close_log (g_log g0)" by (auto simp: entry_ok_def)
    with restart_same [OF _ os, of g0] assms(2) Some show ?thesis by auto
  qed
qed

lemma main_step_objects: "objects_ok p \<Longrightarrow> objects_ok (main_step E p)"
proof (cases "p_pc p")
  case At_Entry
  assume ok: "objects_ok p"
  with At_Entry show ?thesis
    using startup_gw_ok [of "p_file p" "env_os E"]
    by (auto simp: objects_ok_def main_step_def main_setup_def split: option.split sum.split)
qed (auto simp: objects_ok_def main_defs disk_entry_def entry_ok_def split: qf_setup.split option.split)

lemma objects_ok_updates [simp]:
  "objects_ok (p\<lparr>p_shutdown := b\<rparr>) \<longleftrightarrow> objects_ok p" "objects_ok (p\<lparr>p_runs := rs\<rparr>) \<longleftrightarrow> objects_ok p"
  "objects_ok p \<Longrightarrow> objects_ok (p\<lparr>p_pc := Ended st\<rparr>)"
  by (simp_all add: objects_ok_def)

lemma deliver_signal_objects: "objects_ok p \<Longrightarrow> objects_ok (deliver_signal E s t0 t1 p)"
  by (simp add: deliver_signal_def split: option.split prod.split)

lemma deliver_callback_objects: "objects_ok p \<Longrightarrow> objects_ok (deliver_callback E c p)"
proof (cases "p_gateway p")
  case (Some g)
  assume ok: "objects_ok p"
  with Some have g: "gw_ok g" by (simp add: objects_ok_def)
  have "objects_ok (p\<lparr>p_gateway := Some g'\<rparr>)" if "gw_ok g'" for g'
    using ok that Some by (simp add: objects_ok_def)
  then show ?thesis
    using Some ok dispatch_ok [of "env_crack E" "env_api E" c, OF _ g] by (simp add: deliver_callback_def split: option.split noexcept.split)
qed (simp add: deliver_callback_def)

lemma process_step_objects: "objects_ok p \<Longrightarrow> objects_ok (process_step E ev p)"
  by (cases ev; cases "p_pc p")
    (simp_all add: process_step.simps main_step_objects deliver_signal_objects deliver_callback_objects)

lemma run_objects: "objects_ok p \<Longrightarrow> objects_ok (run_process E xs p)"
  by (induction xs arbitrary: p) (simp_all add: process_step_objects)

lemma start_objects: "entry_ok entry \<Longrightarrow> objects_ok (start_process entry)"
  by (simp add: objects_ok_def start_process_def)

text \<open>The shutdown: the flag is set by handlers that ran, and only the flag leads to exit code 0.\<close>

definition initiator_pc :: "main_pc \<Rightarrow> bool" where
  "initiator_pc c \<longleftrightarrow> (case c of At_Loop \<Rightarrow> True | At_Sleep \<Rightarrow> True | At_Stop \<Rightarrow> True
     | Ended (Exited n) \<Rightarrow> False | Ended _ \<Rightarrow> True | _ \<Rightarrow> False)"

definition shutdown_ok :: "process \<Rightarrow> bool" where
  "shutdown_ok p \<longleftrightarrow> p_pc p = Ended Undefined \<or>
     (p_shutdown p \<longrightarrow> p_runs p \<noteq> []) \<and> (\<forall>(g, ms) \<in> set (p_runs p). gw_ok g \<and> ms = cancels_of g) \<and>
     (p_pc p \<in> {At_Stop, At_End, At_Return 0, After_Main 0, Ended (Exited 0)} \<longrightarrow> p_shutdown p) \<and>
     (p_initiator p \<longrightarrow> initiator_pc (p_pc p))"

lemma main_step_shutdown: "shutdown_ok p \<Longrightarrow> shutdown_ok (main_step E p)"
  by (cases "p_pc p")
    (auto simp: shutdown_ok_def main_defs initiator_pc_def split: qf_setup.split option.split sum.split)

lemma deliver_callback_shutdown:
  assumes "shutdown_ok p" "\<And>st. p_pc p \<noteq> Ended st"
  shows "shutdown_ok (deliver_callback E c p)"
  using assms by (auto simp: shutdown_ok_def deliver_callback_def initiator_pc_def split: option.split noexcept.split)

lemma deliver_signal_shutdown:
  assumes "shutdown_ok p" "objects_ok p" "0 \<le> t0" "t0 \<le> t1" "int64 t1" and alive: "\<And>st. p_pc p \<noteq> Ended st"
  shows "shutdown_ok (deliver_signal E s t0 t1 p)"
proof (cases "s \<in> set (p_handled p)")
  case False
  then show ?thesis using assms(1) alive by (auto simp: shutdown_ok_def deliver_signal_def initiator_pc_def)
next
  case True
  then have ptr: "p_pointer p" using assms(2) by (auto simp: objects_ok_def)
  show ?thesis
  proof (cases "p_gateway p")
    case None
    with True ptr show ?thesis by (simp add: shutdown_ok_def deliver_signal_def)
  next
    case (Some g)
    with assms(2) have g: "gw_ok g" by (simp add: objects_ok_def)
    obtain r where "signal_handler (env_send E) t0 t1 \<lparr>g_shutdown = p_shutdown p, g_gateway = Some g\<rparr>
        = Some (\<lparr>g_shutdown = True, g_gateway = Some g\<rparr>, Some r)" "ks_sent r = cancels_of g"
      using signal_handler_cancels [OF g assms(3-5), of "\<lparr>g_shutdown = p_shutdown p, g_gateway = Some g\<rparr>"] by auto
    with True ptr Some g assms(1) alive show ?thesis by (auto simp: shutdown_ok_def deliver_signal_def)
  qed
qed

lemma process_step_shutdown:
  assumes "shutdown_ok p" "objects_ok p" "clock_ok ev"
  shows "shutdown_ok (process_step E ev p)"
  using assms
  by (cases ev; cases "p_pc p")
    (simp_all add: process_step.simps main_step_shutdown deliver_callback_shutdown deliver_signal_shutdown clock_ok_def)

lemma run_shutdown:
  "shutdown_ok p \<Longrightarrow> objects_ok p \<Longrightarrow> list_all clock_ok xs \<Longrightarrow> shutdown_ok (run_process E xs p)"
  by (induction xs arbitrary: p) (simp_all add: process_step_shutdown process_step_objects)

lemma start_shutdown: "shutdown_ok (start_process entry)"
  by (simp add: shutdown_ok_def start_process_def)

text \<open>Both handlers are installed before the loop, and stay; the locals are gone after \<open>main\<close>.\<close>

definition handlers_ok :: "process \<Rightarrow> bool" where
  "handlers_ok p \<longleftrightarrow> (p_pc p = At_SIGTERM \<longrightarrow> SIGINT \<in> set (p_handled p)) \<and>
     (p_pc p \<in> {At_Try, At_Loop, At_Sleep, At_Stop} \<longrightarrow> {SIGINT, SIGTERM} \<subseteq> set (p_handled p)) \<and>
     (\<forall>n. p_pc p = After_Main n \<longrightarrow> p_gateway p = None)"

lemma main_step_handlers: "handlers_ok p \<Longrightarrow> handlers_ok (main_step E p)"
  by (cases "p_pc p") (auto simp: handlers_ok_def main_defs split: qf_setup.split option.split sum.split)

lemma deliver_handlers:
  "handlers_ok p \<Longrightarrow> handlers_ok (deliver_signal E s t0 t1 p)"
  "handlers_ok p \<Longrightarrow> handlers_ok (deliver_callback E c p)"
proof -
  show "handlers_ok p \<Longrightarrow> handlers_ok (deliver_signal E s t0 t1 p)"
    by (simp add: handlers_ok_def deliver_signal_def split: option.split prod.split)
  show "handlers_ok p \<Longrightarrow> handlers_ok (deliver_callback E c p)"
    by (cases "p_gateway p") (auto simp: handlers_ok_def deliver_callback_def split: option.split noexcept.split)
qed

lemma run_handlers: "handlers_ok p \<Longrightarrow> handlers_ok (run_process E xs p)"
proof (induction xs arbitrary: p)
  case (Cons ev xs)
  have "handlers_ok (process_step E ev p)"
    using Cons.prems
    by (cases ev; cases "p_pc p") (simp_all add: process_step.simps main_step_handlers deliver_handlers)
  with Cons.IH show ?case by simp
qed simp

lemma start_handlers: "handlers_ok (start_process entry)"
  by (simp add: handlers_ok_def start_process_def)

lemma in_loop:
  assumes "objects_ok p" "handlers_ok p" "p_pc p = At_Loop \<or> p_pc p = At_Sleep"
  obtains g where "p_gateway p = Some g" "gw_ok g" "p_pointer p" "s \<in> set (p_handled p)"
proof -
  have "p_gateway p \<noteq> None" using assms(1,3) unfolding objects_ok_def by blast
  then obtain g where g: "p_gateway p = Some g" by blast
  moreover have "gw_ok g" "p_pointer p" using assms(1) g unfolding objects_ok_def by blast+
  moreover have "{SIGINT, SIGTERM} \<subseteq> set (p_handled p)" using assms(2,3) unfolding handlers_ok_def by blast
  then have "s \<in> set (p_handled p)" by (cases s) auto
  ultimately show thesis using that by blast
qed

section \<open>Termination\<close>

text \<open>Once the flag is set, the main thread has at most five steps left, whatever else happens.\<close>

fun steps_left :: "main_pc \<Rightarrow> nat" where
  "steps_left At_Sleep = 5"
| "steps_left At_Loop = 4"
| "steps_left At_Stop = 3"
| "steps_left At_End = 2"
| "steps_left (At_Return n) = 2"
| "steps_left (After_Main n) = 1"
| "steps_left (Ended st) = 0"
| "steps_left _ = 9"

definition shutting_down :: "process \<Rightarrow> bool" where
  "shutting_down p \<longleftrightarrow> steps_left (p_pc p) \<le> 5 \<and> (p_shutdown p \<or> steps_left (p_pc p) = 0)"

lemma shutting_down_main:
  "shutting_down p \<Longrightarrow> shutting_down (main_step E p) \<and> steps_left (p_pc (main_step E p)) \<le> steps_left (p_pc p) - 1"
  by (cases "p_pc p") (auto simp: shutting_down_def main_defs)

lemma signal_keeps_flag:
  assumes "signal_handler send t0 t1 m = Some (m', r)"
  shows "g_shutdown m'"
  using assms by (auto simp: signal_handler_def Let_def Option.bind_eq_Some_conv split: option.splits)

lemma shutting_down_signal:
  "shutting_down p \<Longrightarrow> shutting_down (deliver_signal E s t0 t1 p) \<and>
     steps_left (p_pc (deliver_signal E s t0 t1 p)) \<le> steps_left (p_pc p)"
  using signal_keeps_flag
  by (auto simp: shutting_down_def deliver_signal_def split: option.split prod.split)

lemma shutting_down_callback:
  "shutting_down p \<Longrightarrow> shutting_down (deliver_callback E c p) \<and>
     steps_left (p_pc (deliver_callback E c p)) \<le> steps_left (p_pc p)"
  by (simp add: shutting_down_def deliver_callback_def split: option.split noexcept.split)

definition main_steps :: "'m event list \<Rightarrow> nat" where
  "main_steps xs = length (filter (\<lambda>ev. ev = Main) xs)"

lemma shutting_down_run:
  "shutting_down p \<Longrightarrow> steps_left (p_pc (run_process E xs p)) \<le> steps_left (p_pc p) - main_steps xs"
proof (induction xs arbitrary: p)
  case (Cons ev xs)
  show ?case
  proof (cases "\<exists>st. p_pc p = Ended st")
    case True
    then obtain st where "p_pc p = Ended st" by blast
    then show ?thesis using run_ended [of p st E "ev # xs"] by simp
  next
    case False
    then have alive: "\<And>st. p_pc p \<noteq> Ended st" by blast
    have "shutting_down (process_step E ev p) \<and>
        steps_left (p_pc (process_step E ev p)) \<le> steps_left (p_pc p) - (if ev = Main then 1 else 0)"
      using shutting_down_main [OF Cons.prems] shutting_down_signal [OF Cons.prems] shutting_down_callback [OF Cons.prems]
      by (cases ev) (simp_all add: step_alive [OF alive])
    with Cons.IH [of "process_step E ev p"] show ?thesis by (auto simp: main_steps_def)
  qed
qed (simp add: main_steps_def)

lemma main_finishes:
  assumes "p_shutdown p" "p_pc p = At_Loop \<or> p_pc p = At_Sleep"
  shows "p_pc (run_process E (replicate 5 Main) p) = Ended (Exited 0)"
proof -
  have loop: "p_pc (run_process E (replicate 4 Main) q) = Ended (Exited 0)" if "p_shutdown q" "p_pc q = At_Loop" for q
    using that by (simp add: process_step.simps main_defs eval_nat_numeral)
  show ?thesis
  proof (cases "p_pc p = At_Loop")
    case True
    have "run_process E (replicate 4 Main @ [Main]) p = run_process E (replicate 4 Main) p"
      unfolding run_process_append by (rule run_ended [OF loop [OF assms(1) True]])
    then show ?thesis using loop [OF assms(1) True] by (simp add: eval_nat_numeral)
  next
    case False
    then have "process_step E Main p = p\<lparr>p_pc := At_Loop\<rparr>"
      using assms(2) by (simp add: process_step.simps main_step_def)
    with loop [of "p\<lparr>p_pc := At_Loop\<rparr>"] assms(1) show ?thesis by (simp add: eval_nat_numeral)
  qed
qed

lemma steps_left_0: "steps_left c = 0 \<Longrightarrow> \<exists>st. c = Ended st"
  by (cases c) simp_all

section \<open>Properties\<close>

text \<open>The main thread alone.\<close>

definition main_only :: "('m, 'r) main_env \<Rightarrow> nat \<Rightarrow> log_file option \<Rightarrow> process" where
  "main_only E n entry = run_process E (replicate n Main) (start_process entry)"

text \<open>The directory entry a process may find: no file, or the log of an earlier run of the program.\<close>

definition earlier_log :: "'r report_api \<Rightarrow> session_send \<Rightarrow> log_file option \<Rightarrow> bool" where
  "earlier_log api send entry \<longleftrightarrow> entry = None \<or> (\<exists>g. reachable api send g \<and> entry = Some (close_log (g_log g)))"

lemma earlier_log_ok: "earlier_log api send entry \<Longrightarrow> entry_ok entry"
  using reachable_gw_ok unfolding earlier_log_def entry_ok_def by blast

definition sample_env :: "(sample_report, sample_report) main_env" where
  "sample_env = \<lparr>argc = 2, env_os = \<lparr>open_ok = True, ftruncate_ok = True, mmap_ok = True\<rparr>, env_qf = QF_Started,
     env_crack = (\<lambda>m. Inr (Some m)), env_api = sample_api, env_send = (\<lambda>s m. Send_Returned True)\<rparr>"

definition sample_started :: gateway where
  "sample_started = new_gateway empty_log new_position_tracker new_order_manager (new_risk_checker default_limits)"

lemma sample_started_log [simp]: "g_log sample_started = empty_log"
  by (simp add: sample_started_def new_gateway_def)

lemma sample_startup:
  "startup \<lparr>open_ok = True, ftruncate_ok = True, mmap_ok = True\<rparr> None = Some (Some (close_log empty_log), Inr sample_started)"
  by (simp add: startup_def open_or_create_new pt_replay_foldm om_replay_foldm sample_started_def)

lemma sample_in_loop:
  "run_process sample_env [Main, Main, Main, Main] (start_process None) =
     \<lparr>p_pc = At_Loop, p_shutdown = False, p_gateway = Some sample_started, p_pointer = True,
      p_handled = [SIGTERM, SIGINT], p_initiator = True, p_file = Some (close_log empty_log), p_runs = []\<rparr>"
  by (simp add: process_step.simps main_defs start_process_def sample_env_def sample_startup)

lemma sample_signal:
  "deliver_signal sample_env SIGINT 0 0
     \<lparr>p_pc = At_Loop, p_shutdown = False, p_gateway = Some sample_started, p_pointer = True,
      p_handled = [SIGTERM, SIGINT], p_initiator = True, p_file = Some (close_log empty_log), p_runs = []\<rparr> =
     \<lparr>p_pc = At_Loop, p_shutdown = True, p_gateway = Some sample_started, p_pointer = True,
      p_handled = [SIGTERM, SIGINT], p_initiator = True, p_file = Some (close_log empty_log), p_runs = [(sample_started, [])]\<rparr>"
proof -
  have "gw_ok sample_started" using startup_new(2) [OF sample_startup] .
  moreover have "cancels_of sample_started = []"
    by (simp add: cancels_of_def open_orders_def sample_started_def new_gateway_def new_order_manager_def)
  ultimately obtain r where "signal_handler (\<lambda>s m. Send_Returned True) 0 0 \<lparr>g_shutdown = False, g_gateway = Some sample_started\<rparr> =
      Some (\<lparr>g_shutdown = True, g_gateway = Some sample_started\<rparr>, Some r)" "ks_sent r = []"
    using signal_handler_cancels [of sample_started 0 0 "\<lparr>g_shutdown = False, g_gateway = Some sample_started\<rparr>"] by auto
  then show ?thesis by (simp add: deliver_signal_def sample_env_def)
qed

definition sample_schedule :: "sample_report event list" where
  "sample_schedule = [Main, Main, Main, Main] @ [Signal SIGINT 0 0, Main, Main, Main]"

lemma sample_left:
  "run_process sample_env sample_schedule (start_process None) =
     \<lparr>p_pc = After_Main 0, p_shutdown = True, p_gateway = None, p_pointer = True,
      p_handled = [SIGTERM, SIGINT], p_initiator = False, p_file = Some (close_log empty_log), p_runs = [(sample_started, [])]\<rparr>"
  unfolding sample_schedule_def run_process_append sample_in_loop
  by (simp add: step_alive sample_signal main_defs disk_entry_def)

text \<open>C15. A clean exit is an orderly one: whatever callbacks and signals arrive between the steps of
  \<open>main\<close>, a process that ends with exit code 0 was shut down by a signal, has stopped the initiator, and
  every handler run asked the exchange to cancel exactly the orders open at that moment.\<close>

theorem clean_exit_cancelled_orders:
  assumes "earlier_log (env_api E) (env_send E) entry" "list_all clock_ok xs"
    and "p_pc (run_process E xs (start_process entry)) = Ended (Exited 0)"
  shows "\<exists>p. p = run_process E xs (start_process entry) \<and> p_shutdown p \<and> \<not> p_initiator p \<and> p_runs p \<noteq> [] \<and>
    (\<forall>(g, ms) \<in> set (p_runs p). ms = map (\<lambda>(i, od). cancel_request ''KS'' i od) (enumerate 0 (open_orders (g_orders g))))"
proof -
  have "shutdown_ok (run_process E xs (start_process entry))"
    by (rule run_shutdown [OF start_shutdown start_objects [OF earlier_log_ok [OF assms(1)]] assms(2)])
  with assms(3) show ?thesis by (auto simp: shutdown_ok_def initiator_pc_def cancels_of_def)
qed

theorem clean_exit_cancelled_orders_witness:
  "\<exists>p. p = run_process sample_env (sample_schedule @ [Main]) (start_process None) \<and> p_pc p = Ended (Exited 0) \<and> p_shutdown p"
proof -
  have e: "p_pc (run_process sample_env (sample_schedule @ [Main]) (start_process None)) = Ended (Exited 0)"
    unfolding run_process_append sample_left by (simp add: step_alive main_defs)
  have c: "list_all clock_ok (sample_schedule @ [Main])" by (simp add: sample_schedule_def clock_ok_def)
  have l: "earlier_log (env_api sample_env) (env_send sample_env) None" by (simp add: earlier_log_def)
  from clean_exit_cancelled_orders [OF l c e] e show ?thesis by blast
qed

text \<open>C16. A signal ends the process: from the strategy loop, with a signal delivered, five further steps of
  the main thread end it under every interleaving with callbacks and further signals, and without any
  the exit code is 0.\<close>

theorem signal_ends_process:
  assumes "earlier_log (env_api E) (env_send E) entry" "p = run_process E xs (start_process entry)"
    and "p_pc p = At_Loop \<or> p_pc p = At_Sleep" "0 \<le> t0" "t0 \<le> t1" "int64 t1" "5 \<le> main_steps ys"
  shows "(\<exists>st. p_pc (run_process E (Signal s t0 t1 # ys) p) = Ended st) \<and>
    p_pc (run_process E (Signal s t0 t1 # replicate 5 Main) p) = Ended (Exited 0)"
proof -
  let ?q = "process_step E (Signal s t0 t1) p"
  have ok: "objects_ok p" "handlers_ok p"
    unfolding assms(2) by (intro run_objects start_objects earlier_log_ok [OF assms(1)] run_handlers start_handlers)+
  obtain g where g: "p_gateway p = Some g" "gw_ok g" "p_pointer p" "s \<in> set (p_handled p)"
    by (rule in_loop [OF ok assms(3)])
  obtain r where "signal_handler (env_send E) t0 t1 \<lparr>g_shutdown = p_shutdown p, g_gateway = Some g\<rparr>
      = Some (\<lparr>g_shutdown = True, g_gateway = Some g\<rparr>, Some r)"
    using signal_handler_cancels [OF g(2) assms(4-6), of "\<lparr>g_shutdown = p_shutdown p, g_gateway = Some g\<rparr>"] by auto
  then have q: "?q = p\<lparr>p_shutdown := True, p_runs := p_runs p @ [(g, ks_sent r)]\<rparr>"
    using assms(3) g by (auto simp: process_step.simps deliver_signal_def)
  then have "shutting_down ?q" using assms(3) by (auto simp: shutting_down_def)
  from shutting_down_run [OF this, of E ys] assms(3,7) q have "steps_left (p_pc (run_process E ys ?q)) = 0" by auto
  then have 1: "\<exists>st. p_pc (run_process E (Signal s t0 t1 # ys) p) = Ended st" using steps_left_0 by auto
  have "p_shutdown ?q" "p_pc ?q = p_pc p" unfolding q by simp_all
  then have 2: "p_pc (run_process E (replicate 5 Main) ?q) = Ended (Exited 0)"
    using main_finishes assms(3) by metis
  show ?thesis using 1 2 by simp
qed

theorem signal_ends_process_witness:
  "p_pc (run_process sample_env (Signal SIGTERM 0 5 # replicate 5 Main)
     (run_process sample_env [Main, Main, Main, Main] (start_process None))) = Ended (Exited 0)"
proof -
  have "p_pc (run_process sample_env [Main, Main, Main, Main] (start_process None)) = At_Loop"
    by (simp only: sample_in_loop process.select_convs)
  then show ?thesis
    using signal_ends_process [of sample_env None _ "[Main, Main, Main, Main]" 0 5 "replicate 5 Main" SIGTERM, OF _ refl]
    by (simp add: earlier_log_def int64_def main_steps_def)
qed

text \<open>C17. However the process ends once the gateway was built (return of \<open>main\<close>, exception, default action
  of a signal), short of undefined behaviour, the file it leaves can be started from: the next start
  finds a log it accepts and rebuilds a consistent gateway from it.\<close>

theorem every_end_is_restartable:
  assumes "earlier_log (env_api E) (env_send E) entry" "p = run_process E xs (start_process entry)"
    and "p_pointer p" "p_pc p = Ended st" "st \<noteq> Undefined" "open_ok os" "mmap_ok os"
  shows "\<exists>f g. disk_entry p = Some f \<and> startup os (Some f) = Some (Some f, Inr g) \<and>
    log_ok (g_log g) \<and> projects (g_log g) (g_tracker g) (g_orders g)"
proof -
  have ok: "objects_ok p" unfolding assms(2) by (intro run_objects start_objects earlier_log_ok [OF assms(1)])
  obtain g where g: "gw_ok g" "disk_entry p = Some (close_log (g_log g))"
  proof (cases "p_gateway p")
    case None
    then show thesis using ok assms(3) that unfolding objects_ok_def disk_entry_def by auto
  next
    case (Some g)
    then have "gw_ok g" using ok unfolding objects_ok_def by blast
    then show thesis using that Some by (simp add: disk_entry_def)
  qed
  from restart_same [OF g(1) assms(6,7)] g(2) show ?thesis by (auto simp: gw_ok_def)
qed

theorem every_end_is_restartable_witness:
  "\<exists>f g. disk_entry (run_process sample_env (sample_schedule @ [Main]) (start_process None)) = Some f \<and>
    startup \<lparr>open_ok = True, ftruncate_ok = True, mmap_ok = True\<rparr> (Some f) = Some (Some f, Inr g) \<and> log_ok (g_log g)"
proof -
  have e: "p_pc (run_process sample_env (sample_schedule @ [Main]) (start_process None)) = Ended (Exited 0)"
      "p_pointer (run_process sample_env (sample_schedule @ [Main]) (start_process None))"
    unfolding run_process_append sample_left by (simp_all add: step_alive main_defs)
  from every_end_is_restartable [OF _ refl e(2,1), of "\<lparr>open_ok = True, ftruncate_ok = True, mmap_ok = True\<rparr>"]
  show ?thesis by (auto simp: earlier_log_def)
qed

text \<open>The failures of a start: too few arguments give exit code 1 and leave the file alone; a QuickFIX
  configuration error or exception gives exit code 1 and leaves the closed log; but an exception of the
  log's constructor is outside the \<open>try\<close> block and ends the process uncaught, without an exit code.\<close>

lemma start_failures:
  "(argc E < 2 \<longrightarrow> p_pc (main_only E 3 entry) = Ended (Exited 1) \<and> disk_entry (main_only E 3 entry) = entry) \<and>
    (2 \<le> argc E \<longrightarrow> startup (env_os E) entry = Some (f, Inl ex) \<longrightarrow> p_pc (main_only E 1 entry) = Ended (Uncaught ex)) \<and>
    (2 \<le> argc E \<longrightarrow> startup (env_os E) entry = Some (f, Inr g) \<longrightarrow> env_qf E \<noteq> QF_Started \<longrightarrow>
       p_pc (main_only E 6 entry) = Ended (Exited 1) \<and> disk_entry (main_only E 6 entry) = Some (close_log (g_log g)))"
proof -
  have 1: "argc E < 2 \<Longrightarrow> p_pc (main_only E 3 entry) = Ended (Exited 1) \<and> disk_entry (main_only E 3 entry) = entry"
    by (simp add: main_only_def eval_nat_numeral process_step.simps main_defs start_process_def disk_entry_def)
  have 2: "2 \<le> argc E \<Longrightarrow> startup (env_os E) entry = Some (f, Inl ex) \<Longrightarrow> p_pc (main_only E 1 entry) = Ended (Uncaught ex)"
    by (simp add: main_only_def process_step.simps main_defs start_process_def)
  have 3: "p_pc (main_only E 6 entry) = Ended (Exited 1) \<and> disk_entry (main_only E 6 entry) = Some (close_log (g_log g))"
    if "2 \<le> argc E" "startup (env_os E) entry = Some (f, Inr g)" "env_qf E \<noteq> QF_Started"
  proof -
    have qf: "env_qf E = QF_ConfigError \<or> env_qf E = QF_Exception" using that(3) by (cases "env_qf E") auto
    have "main_only E 4 entry = \<lparr>p_pc = At_Return 1, p_shutdown = False, p_gateway = Some g, p_pointer = True,
        p_handled = [SIGTERM, SIGINT], p_initiator = False, p_file = f, p_runs = []\<rparr>"
      using that(1,2) qf by (auto simp: main_only_def eval_nat_numeral process_step.simps main_defs start_process_def)
    moreover have "main_only E 6 entry = run_process E (replicate 2 Main) (main_only E 4 entry)"
      unfolding main_only_def run_process_append [symmetric] replicate_add [symmetric] by simp
    ultimately show ?thesis
      by (simp add: eval_nat_numeral process_step.simps main_defs disk_entry_def)
  qed
  from 1 2 3 show ?thesis by blast
qed

text \<open>The handlers outlive the gateway: \<open>main\<close> never resets \<open>g_gateway\<close> nor the handlers, so a signal that
  arrives after \<open>main\<close> has destroyed its locals, and before the process is gone, calls a member function
  of a destroyed object.\<close>

lemma signal_after_main_is_undefined:
  assumes "earlier_log (env_api E) (env_send E) entry" "p = run_process E xs (start_process entry)"
    and "p_pc p = After_Main n" "s \<in> set (p_handled p)"
  shows "p_pc (process_step E (Signal s t0 t1) p) = Ended Undefined"
proof -
  have ok: "objects_ok p" "handlers_ok p"
    unfolding assms(2) by (intro run_objects start_objects earlier_log_ok [OF assms(1)] run_handlers start_handlers)+
  have "p_gateway p = None" using ok(2) assms(3) unfolding handlers_ok_def by blast
  moreover have "p_pointer p" using ok(1) assms(4) unfolding objects_ok_def by auto
  ultimately show ?thesis using assms(3,4) by (simp add: process_step.simps deliver_signal_def)
qed

end
