(* ===== verification/Log_Image.thy ===== *)
theory Log_Image
  imports Struct_Layout
begin

text \<open>
  The log of \<open>include/EventLog.h\<close> on bytes: the mapped file is a list of bytes, \<open>header_\<close> points to its
  first byte and \<open>events_\<close> behind the header, and \<open>append\<close>, \<open>read\<close>, \<open>replay\<close> and \<open>open_or_create\<close> load and
  store struct images through these pointers. The operations of \<open>EventLog\<close>, on events and a header
  record, are what these do to the bytes: \<open>rep_log\<close> relates the two levels and every operation keeps
  it, with the same results and the same undefined accesses.
\<close>

section \<open>Memory accesses\<close>

definition peek :: "byte list \<Rightarrow> nat \<Rightarrow> nat \<Rightarrow> byte list option" where
  "peek m off n = (if off + n \<le> length m then Some (take n (drop off m)) else None)"

definition poke :: "byte list \<Rightarrow> nat \<Rightarrow> byte list \<Rightarrow> byte list option" where
  "poke m off bs = (if off + length bs \<le> length m then Some (take off m @ bs @ drop (off + length bs) m) else None)"

lemma poke_Some:
  assumes "poke m off bs = Some m'"
  shows "length m' = length m" "off + length bs \<le> length m"
    "\<And>k. k < length m \<Longrightarrow> m' ! k = (if off \<le> k \<and> k < off + length bs then bs ! (k - off) else m ! k)"
  using assms by (auto simp: poke_def nth_append split: if_splits)

lemma poke_defined: "off + length bs \<le> length m \<Longrightarrow> \<exists>m'. poke m off bs = Some m'"
  by (simp add: poke_def)

lemma peek_nth: "peek m off n = (if off + n \<le> length m then Some (map (\<lambda>k. m ! (off + k)) [0..<n]) else None)"
  by (auto simp: peek_def intro!: nth_equalityI)

lemma peek_poke_same: "poke m off bs = Some m' \<Longrightarrow> peek m' off (length bs) = Some bs"
  by (auto simp: poke_def peek_def split: if_splits)

lemma peek_poke_other:
  assumes "poke m off bs = Some m'" "off' + n \<le> off \<or> off + length bs \<le> off'"
  shows "peek m' off' n = peek m off' n"
  using assms(2) poke_Some [OF assms(1)] by (auto simp: peek_nth)

section \<open>The log on bytes\<close>

record byte_log =
  bl_next_seq :: "64 word"
  bl_mem :: "byte list"

definition slot_offset :: "nat \<Rightarrow> nat" where
  "slot_offset i = struct_size LogHeader_types + i * struct_size OrderEvent_types"

definition next_sequence_offset :: nat where
  "next_sequence_offset = offsets 0 LogHeader_types ! 1"

definition load_header :: "byte list \<Rightarrow> log_header option" where
  "load_header m = map_option header_of_bytes (peek m 0 (struct_size LogHeader_types))"

definition load_event :: "byte list \<Rightarrow> nat \<Rightarrow> order_event option" where
  "load_event m i =
     (if i < MAX_EVENTS then map_option event_of_bytes (peek m (slot_offset i) (struct_size OrderEvent_types)) else None)"

definition store_event :: "byte list \<Rightarrow> nat \<Rightarrow> order_event \<Rightarrow> byte list option" where
  "store_event m i e = (if i < MAX_EVENTS then poke m (slot_offset i) (event_bytes e) else None)"

definition store_next_sequence :: "byte list \<Rightarrow> 64 word \<Rightarrow> byte list option" where
  "store_next_sequence m sq = poke m next_sequence_offset (le_bytes 8 (uint sq))"

definition byte_append :: "timespec \<Rightarrow> order_event \<Rightarrow> byte_log \<Rightarrow> (byte_log \<times> (cpp_exn + 64 word)) option" where
  "byte_append ts evt lg =
     (let sq = bl_next_seq lg in
      if MAX_EVENTS \<le> unat sq then Some (lg, Inl (OverflowError ''EventLog full''))
      else do {
        let evt1 = evt\<lparr>sequence := sq, timestamp_ns := now_ns ts\<rparr>;
        m1 \<leftarrow> store_event (bl_mem lg) (unat sq) evt1;
        m2 \<leftarrow> store_next_sequence m1 (sq + 1);
        Some (\<lparr>bl_next_seq = sq + 1, bl_mem = m2\<rparr>, Inr sq) })"

definition byte_read :: "byte_log \<Rightarrow> 64 word \<Rightarrow> order_event option option" where
  "byte_read lg sq =
     (if bl_next_seq lg \<le> sq then Some None else map_option Some (load_event (bl_mem lg) (unat sq)))"

function byte_replay_loop ::
  "(order_event \<Rightarrow> 's \<Rightarrow> 's option) \<Rightarrow> byte list \<Rightarrow> nat \<Rightarrow> nat \<Rightarrow> 's \<Rightarrow> 's option" where
  "byte_replay_loop fn m i head s =
     (if i < head then do {
        e \<leftarrow> load_event m i;
        s' \<leftarrow> fn e s;
        byte_replay_loop fn m (Suc i) head s' }
      else Some s)"
  by pat_completeness auto
termination
  by (relation "measure (\<lambda>(fn, m, i, head, s). head - i)") auto

declare byte_replay_loop.simps [simp del]

definition byte_replay :: "byte_log \<Rightarrow> (order_event \<Rightarrow> 's \<Rightarrow> 's option) \<Rightarrow> 's \<Rightarrow> 's option" where
  "byte_replay lg fn s = byte_replay_loop fn (bl_mem lg) 0 (unat (bl_next_seq lg)) s"

text \<open>A file that \<open>ftruncate\<close> extends is filled with zero bytes.\<close>

definition byte_open_or_create ::
  "os_env \<Rightarrow> byte list option \<Rightarrow> (byte list option \<times> (cpp_exn + byte_log)) option" where
  "byte_open_or_create os entry =
     (let exists = (entry \<noteq> None) in
      if \<not> open_ok os then Some (entry, Inl (RuntimeError ''EventLog: cannot open ''))
      else let m0 = (case entry of Some m \<Rightarrow> m | None \<Rightarrow> []) in
      if \<not> exists \<and> \<not> ftruncate_ok os then
        Some (Some m0, Inl (RuntimeError ''EventLog: ftruncate failed''))
      else let m1 = (if \<not> exists then replicate FILE_SIZE 0 else m0) in
      if \<not> mmap_ok os then Some (Some m1, Inl (RuntimeError ''EventLog: mmap failed''))
      else if \<not> exists then do {
        m2 \<leftarrow> poke m1 0 (le_bytes 8 (uint LOG_MAGIC));
        m3 \<leftarrow> store_next_sequence m2 0;
        Some (Some m3, Inr \<lparr>bl_next_seq = 0, bl_mem = m3\<rparr>) }
      else do {
        h \<leftarrow> load_header m1;
        if magic h \<noteq> LOG_MAGIC then Some (Some m1, Inl (RuntimeError ''EventLog: corrupt file''))
        else Some (Some m1, Inr \<lparr>bl_next_seq = next_sequence h, bl_mem = m1\<rparr>) })"

section \<open>The two levels\<close>

definition rep_file :: "byte list \<Rightarrow> log_file \<Rightarrow> bool" where
  "rep_file m f \<longleftrightarrow> f_len f = length m \<and>
     load_header m = (if 64 \<le> length m then Some (header f) else None) \<and> (\<forall>i. load_event m i = event_at f i)"

definition rep_log :: "byte_log \<Rightarrow> event_log \<Rightarrow> bool" where
  "rep_log bl lg \<longleftrightarrow> bl_next_seq bl = next_seq lg \<and> rep_file (bl_mem bl) (mapped lg)"

lemma next_sequence_offset [simp]: "next_sequence_offset = 8"
  by code_simp

lemma slot_offset [simp]: "slot_offset i = 64 + i * 64"
  by (simp add: slot_offset_def)

lemma header_of_bytes_eq:
  "header_of_bytes bs = \<lparr>magic = word_of_int (le_uint (take 8 bs)), next_sequence = word_of_int (le_uint (take 8 (drop 8 bs)))\<rparr>"
  by (simp add: header_of_bytes_def LogHeader_types_def padding_def)

text \<open>The loads of the members through \<open>header_\<close>.\<close>

lemma load_header_peek:
  "load_header m = (if 64 \<le> length m then Some \<lparr>magic = word_of_int (le_uint (the (peek m 0 8))),
     next_sequence = word_of_int (le_uint (the (peek m 8 8)))\<rparr> else None)"
  by (simp add: load_header_def peek_def header_of_bytes_eq take_drop min_def)

lemma load_header_store:
  assumes "poke m 8 (le_bytes 8 (uint sq)) = Some m'" "load_header m = Some h"
  shows "load_header m' = Some (h\<lparr>next_sequence := sq\<rparr>)"
  using assms(2) poke_Some(1) [OF assms(1)] peek_poke_same [OF assms(1)] peek_poke_other [OF assms(1), of 0 8]
  by (auto simp: load_header_peek split: if_splits)

lemma load_header_other:
  "poke m off bs = Some m' \<Longrightarrow> 64 \<le> off \<Longrightarrow> load_header m' = load_header m"
  using peek_poke_other [of m off bs m' 0 64] by (simp add: load_header_def)

lemma load_event_header:
  "poke m off bs = Some m' \<Longrightarrow> off + length bs \<le> 64 \<Longrightarrow> load_event m' i = load_event m i"
  using peek_poke_other [of m off bs m' "64 + i * 64" 64] by (simp add: load_event_def)

lemma slot_disjoint: "(i :: nat) \<noteq> j \<Longrightarrow> 64 + i * 64 + 64 \<le> 64 + j * 64 \<or> 64 + j * 64 + 64 \<le> 64 + i * 64"
  by arith

lemma load_event_store:
  assumes "event_typed e" "poke m (64 + j * 64) (event_bytes e) = Some m'" "j < MAX_EVENTS"
  shows "load_event m' i = (if i = j then Some e else load_event m i)"
proof (cases "i = j")
  case True
  have "peek m' (64 + j * 64) 64 = Some (event_bytes e)"
    using peek_poke_same [OF assms(2)] event_codec(1) [OF assms(1)] by simp
  with True assms(3) event_codec(2) [OF assms(1), of "[]"] show ?thesis by (simp add: load_event_def)
next
  case False
  with slot_disjoint [OF this] peek_poke_other [OF assms(2), of "64 + i * 64" 64] event_codec(1) [OF assms(1)]
  show ?thesis by (simp add: load_event_def)
qed

section \<open>Refinement\<close>

lemma event_typed_stamp [simp]: "event_typed (e\<lparr>sequence := sq, timestamp_ns := t\<rparr>) \<longleftrightarrow> event_typed e"
  by (simp add: event_typed_def event_ok_def)

lemma rep_file_store:
  assumes r: "rep_file m f" and e: "event_typed e" and b: "slot_backed f i"
  shows "\<exists>m1 m2. store_event m i e = Some m1 \<and> store_next_sequence m1 sq = Some m2 \<and>
    rep_file m2 (f\<lparr>events := (events f)(i := e), header := (header f)\<lparr>next_sequence := sq\<rparr>\<rparr>)"
proof -
  have i: "i < MAX_EVENTS" and len: "64 + i * 64 + 64 \<le> length m"
    using b r by (auto simp: slot_backed_def rep_file_def)
  obtain m1 where m1: "poke m (64 + i * 64) (event_bytes e) = Some m1"
    using poke_defined [of "64 + i * 64" "event_bytes e" m] len event_codec(1) [OF e] by auto
  obtain m2 where m2: "poke m1 8 (le_bytes 8 (uint sq)) = Some m2"
    using poke_defined [of 8 "le_bytes 8 (uint sq)" m1] poke_Some(1) [OF m1] len by auto
  let ?f = "f\<lparr>events := (events f)(i := e), header := (header f)\<lparr>next_sequence := sq\<rparr>\<rparr>"
  have "load_header m1 = Some (header f)" using load_header_other [OF m1] r len by (simp add: rep_file_def)
  then have "load_header m2 = Some (header ?f)" using load_header_store [OF m2] by simp
  moreover have "load_event m2 j = event_at ?f j" for j
    using load_event_header [OF m2, of j] load_event_store [OF e m1 i, of j] r b
    by (auto simp: rep_file_def event_at_def slot_backed_def)
  ultimately show ?thesis
    using m1 m2 i len poke_Some(1) [OF m1] poke_Some(1) [OF m2] r
    by (auto simp: store_event_def store_next_sequence_def rep_file_def)
qed

lemma byte_append_refines:
  assumes r: "rep_log bl lg" and e: "event_typed evt"
  shows "rel_option (rel_prod rep_log (=)) (byte_append ts evt bl) (log_append ts evt lg)"
proof (cases "unat (next_seq lg) < MAX_EVENTS \<and> slot_backed (mapped lg) (unat (next_seq lg))")
  case True
  let ?sq = "next_seq lg"
  have f: "rep_file (bl_mem bl) (mapped lg)" "bl_next_seq bl = ?sq" using r by (simp_all add: rep_log_def)
  from rep_file_store [OF f(1), of "evt\<lparr>sequence := ?sq, timestamp_ns := now_ns ts\<rparr>" "unat ?sq" "?sq + 1"] e True
  show ?thesis
    using f(2) by (auto simp: byte_append_def log_append_def Let_def rep_log_def)
next
  case False
  then show ?thesis
    using r by (auto simp: byte_append_def log_append_def Let_def rep_log_def rep_file_def store_event_def poke_def
        slot_backed_def event_codec(1) e)
qed

lemma byte_read_refines: "rep_log bl lg \<Longrightarrow> byte_read bl sq = read lg sq"
  by (simp add: byte_read_def read_def rep_log_def rep_file_def)

lemma byte_replay_loop_refines:
  "rep_file m f \<Longrightarrow> byte_replay_loop fn m i head s = replay_loop fn f i head s"
proof (induction fn m i head s rule: byte_replay_loop.induct)
  case (1 fn m i head s)
  have e: "load_event m i = event_at f i" using "1.prems" by (simp add: rep_file_def)
  show ?case
  proof (cases "i < head")
    case True
    have "event_at f i = Some e \<Longrightarrow> fn e s = Some s' \<Longrightarrow>
        byte_replay_loop fn m (Suc i) head s' = replay_loop fn f (Suc i) head s'" for e s'
      using "1.IH" [OF True _ _ "1.prems"] e by simp
    with True e show ?thesis
      by (simp add: byte_replay_loop.simps [of fn m i] replay_loop.simps [of fn f i] cong: Option.bind_cong)
  next
    case False
    then show ?thesis by (simp add: byte_replay_loop.simps [of fn m i] replay_loop.simps [of fn f i])
  qed
qed

lemma byte_replay_refines: "rep_log bl lg \<Longrightarrow> byte_replay bl fn s = replay lg fn s"
  unfolding byte_replay_def replay_def rep_log_def by (metis byte_replay_loop_refines)

text \<open>A file of zero bytes shows events and a header of zeros.\<close>

lemma zero_bytes_event: "event_of_bytes (replicate 64 0) = zero_event"
  by code_simp

lemma zero_bytes_header: "header_of_bytes (replicate 64 0) = \<lparr>magic = 0, next_sequence = 0\<rparr>"
  by code_simp

lemma peek_zeros: "peek (replicate n 0) off k = (if off + k \<le> n then Some (replicate k 0) else None)"
  by (simp add: peek_def)

lemma rep_file_empty: "rep_file [] blank_file"
  by (simp add: rep_file_def blank_file_def load_header_def load_event_def peek_def event_at_def slot_backed_def)

lemma rep_file_truncated: "rep_file (replicate FILE_SIZE 0) (blank_file\<lparr>f_len := FILE_SIZE\<rparr>)"
proof -
  have "64 \<le> FILE_SIZE" "i < MAX_EVENTS \<Longrightarrow> 64 + i * 64 + 64 \<le> FILE_SIZE" for i
    by (simp_all add: FILE_SIZE_def)
  then show ?thesis
    by (auto simp: rep_file_def blank_file_def load_header_def load_event_def peek_zeros zero_bytes_header
        zero_bytes_event event_at_def slot_backed_def ac_simps)
qed

lemma rep_file_created:
  assumes r: "rep_file m f" "128 \<le> length m"
  shows "\<exists>m2 m3. poke m 0 (le_bytes 8 (uint mg)) = Some m2 \<and> store_next_sequence m2 sq = Some m3 \<and>
    rep_file m3 (f\<lparr>header := \<lparr>magic = mg, next_sequence = sq\<rparr>\<rparr>)"
proof -
  obtain m2 where m2: "poke m 0 (le_bytes 8 (uint mg)) = Some m2"
    using poke_defined [of 0 "le_bytes 8 (uint mg)" m] assms(2) by auto
  obtain m3 where m3: "poke m2 8 (le_bytes 8 (uint sq)) = Some m3"
    using poke_defined [of 8 "le_bytes 8 (uint sq)" m2] poke_Some(1) [OF m2] assms(2) by auto
  have h: "header f = \<lparr>magic = word_of_int (le_uint (the (peek m 0 8))), next_sequence = word_of_int (le_uint (the (peek m 8 8)))\<rparr>"
    using r by (simp add: load_header_peek rep_file_def)
  have "load_header m2 = Some ((header f)\<lparr>magic := mg\<rparr>)"
    unfolding h using assms(2) poke_Some(1) [OF m2] peek_poke_same [OF m2] peek_poke_other [OF m2, of 8 8]
    by (simp add: load_header_peek)
  then have "load_header m3 = Some \<lparr>magic = mg, next_sequence = sq\<rparr>"
    using load_header_store [OF m3] by (cases "header f") simp
  moreover have "load_event m3 i = load_event m i" for i
    using load_event_header [OF m3, of i] load_event_header [OF m2, of i] by simp
  ultimately show ?thesis
    using m2 m3 r poke_Some(1) [OF m2] poke_Some(1) [OF m3]
    by (auto simp: store_next_sequence_def rep_file_def event_at_def slot_backed_def)
qed

lemma byte_open_new:
  assumes "open_ok os" "ftruncate_ok os" "mmap_ok os"
  shows "\<exists>m. byte_open_or_create os None = Some (Some m, Inr \<lparr>bl_next_seq = 0, bl_mem = m\<rparr>) \<and>
    rep_file m (close_log empty_log)"
proof -
  have "128 \<le> length (replicate FILE_SIZE (0 :: byte))" by (simp add: FILE_SIZE_def MAX_EVENTS_def)
  from rep_file_created [OF rep_file_truncated this, of LOG_MAGIC 0] show ?thesis
    using assms by (auto simp: byte_open_or_create_def Let_def close_log_def empty_log_def)
qed

lemma byte_open_refines:
  assumes "rel_option rep_file entry entry'"
  shows "rel_option (rel_prod (rel_option rep_file) (rel_sum (=) rep_log)) (byte_open_or_create os entry) (open_or_create os entry')"
proof (cases entry)
  case None
  with assms have e: "entry' = None" by simp
  show ?thesis
  proof (cases "open_ok os \<and> ftruncate_ok os \<and> mmap_ok os")
    case True
    with byte_open_new [of os] open_or_create_new [of os] show ?thesis
      unfolding None e by (auto simp: rep_log_def close_log_def)
  next
    case False
    then show ?thesis
      unfolding None e using rep_file_empty rep_file_truncated
      by (auto simp: byte_open_or_create_def open_or_create_def Let_def)
  qed
next
  case (Some m)
  with assms obtain f where f: "entry' = Some f" "rep_file m f" by (auto simp: option_rel_Some1)
  then have h: "load_header m = (if 64 \<le> f_len f then Some (header f) else None)" by (simp add: rep_file_def)
  show ?thesis
    unfolding Some f(1) using f(2) h
    by (auto simp: byte_open_or_create_def open_or_create_def Let_def rep_log_def)
qed

text \<open>A new file on bytes, and the append of a sample event in the model.\<close>

lemma sample_byte_log:
  obtains m where "byte_open_or_create all_calls_succeed None = Some (Some m, Inr \<lparr>bl_next_seq = 0, bl_mem = m\<rparr>)"
    "rep_file m (close_log empty_log)" "rep_log \<lparr>bl_next_seq = 0, bl_mem = m\<rparr> empty_log" "length m = FILE_SIZE"
proof -
  obtain m where m: "byte_open_or_create all_calls_succeed None = Some (Some m, Inr \<lparr>bl_next_seq = 0, bl_mem = m\<rparr>)"
      "rep_file m (close_log empty_log)"
    using byte_open_new [of all_calls_succeed] by (auto simp: all_calls_succeed_def)
  then have "rep_log \<lparr>bl_next_seq = 0, bl_mem = m\<rparr> empty_log" by (simp add: rep_log_def close_log_def)
  moreover have "length m = FILE_SIZE" using m(2) by (simp add: rep_file_def close_log_def empty_log_def)
  ultimately show thesis using that m by blast
qed

lemma sample_append:
  obtains lg where "log_append ts e empty_log = Some (lg, Inr 0)" "length (log_events lg) = 1"
proof -
  have room: "unat (next_seq empty_log) < MAX_EVENTS" by (simp add: MAX_EVENTS_def)
  obtain lg where "log_append ts e empty_log = Some (lg, Inr (next_seq empty_log))"
      "log_events lg = log_events empty_log @ [e\<lparr>sequence := next_seq empty_log, timestamp_ns := now_ns ts\<rparr>]"
    by (rule log_append_ok [OF empty_log_ok(1) room])
  then have l: "log_append ts e empty_log = Some (lg, Inr 0)"
      "log_events lg = [e\<lparr>sequence := 0, timestamp_ns := now_ns ts\<rparr>]" by simp_all
  show thesis by (rule that [OF l(1)]) (subst l(2), simp)
qed

section \<open>Properties\<close>

text \<open>C13. On bytes, \<open>append\<close> does what the log model says: from related states it returns the same
  sequence number or exception, or makes the same access outside the file, and leaves related states.\<close>

theorem append_refined_by_bytes:
  assumes "rep_log bl lg" "event_typed evt"
  shows "rel_option (rel_prod rep_log (=)) (byte_append ts evt bl) (log_append ts evt lg)"
  using byte_append_refines [OF assms] .

theorem append_refined_by_bytes_witness:
  "\<exists>m bl lg. byte_open_or_create all_calls_succeed None = Some (Some m, Inr \<lparr>bl_next_seq = 0, bl_mem = m\<rparr>) \<and>
    byte_append \<lparr>tv_sec = 1, tv_nsec = 5\<rparr> (sample_fill ''O1'' ''AAPL'' Buy 40 100) \<lparr>bl_next_seq = 0, bl_mem = m\<rparr> = Some (bl, Inr 0) \<and>
    rep_log bl lg \<and> length (log_events lg) = 1"
proof -
  let ?e = "sample_fill ''O1'' ''AAPL'' Buy 40 100" and ?ts = "\<lparr>tv_sec = 1, tv_nsec = 5\<rparr>"
  obtain m where m: "byte_open_or_create all_calls_succeed None = Some (Some m, Inr \<lparr>bl_next_seq = 0, bl_mem = m\<rparr>)"
      "rep_log \<lparr>bl_next_seq = 0, bl_mem = m\<rparr> empty_log" by (rule sample_byte_log)
  obtain lg where lg: "log_append ?ts ?e empty_log = Some (lg, Inr 0)" "length (log_events lg) = 1" by (rule sample_append)
  from append_refined_by_bytes [OF m(2) sample_typed, of ?ts] lg(1) obtain bl where
    "byte_append ?ts ?e \<lparr>bl_next_seq = 0, bl_mem = m\<rparr> = Some (bl, Inr 0)" "rep_log bl lg"
    by (auto simp: option_rel_Some2)
  with m(1) lg(2) show ?thesis by blast
qed

text \<open>C14. Opening, reading and replaying work on the bytes as on the model: from related files the
  constructor gives related logs or the same exception and leaves related files, and on related logs
  every \<open>read\<close> and every \<open>replay\<close> gives the same result, undefined accesses included.\<close>

theorem reopen_refined_by_bytes:
  assumes "rel_option rep_file entry entry'"
  shows "rel_option (rel_prod (rel_option rep_file) (rel_sum (=)
      (\<lambda>bl lg. rep_log bl lg \<and> byte_read bl = read lg \<and> byte_replay bl = (replay lg :: (order_event \<Rightarrow> 's \<Rightarrow> 's option) \<Rightarrow> 's \<Rightarrow> 's option))))
    (byte_open_or_create os entry) (open_or_create os entry')"
proof -
  have le: "rep_log \<le> (\<lambda>bl lg. rep_log bl lg \<and> byte_read bl = read lg \<and>
      byte_replay bl = (replay lg :: (order_event \<Rightarrow> 's \<Rightarrow> 's option) \<Rightarrow> 's \<Rightarrow> 's option))"
    by (intro predicate2I conjI ext) (simp_all add: byte_read_refines byte_replay_refines)
  show ?thesis
    using predicate2D [OF option.rel_mono [OF prod.rel_mono [OF order_refl sum.rel_mono [OF order_refl le]]]]
      byte_open_refines [OF assms] by blast
qed

theorem reopen_refined_by_bytes_witness:
  "\<exists>m bl. rep_file m (close_log empty_log) \<and>
    byte_open_or_create all_calls_succeed (Some m) = Some (Some m, Inr bl) \<and> byte_read bl = read empty_log"
proof -
  obtain m where m: "rep_file m (close_log empty_log)" by (rule sample_byte_log)
  have "open_or_create all_calls_succeed (Some (close_log empty_log)) = Some (Some (close_log empty_log), Inr empty_log)"
    by (rule reopen_closed) (simp_all add: all_calls_succeed_def)
  with reopen_refined_by_bytes [of "Some m" "Some (close_log empty_log)" all_calls_succeed, where ?'s = unit] m
  obtain m' bl where b: "byte_open_or_create all_calls_succeed (Some m) = Some (m', Inr bl)" "byte_read bl = read empty_log"
    by (auto simp: option_rel_Some2 elim!: rel_sum.cases)
  moreover have "m' = Some m"
    using b(1) by (auto simp: byte_open_or_create_def Let_def Option.bind_eq_Some_conv split: if_splits)
  ultimately show ?thesis using m by blast
qed

text \<open>\<open>append\<close> writes 72 bytes: the 64 bytes of its own slot and the eight bytes of \<open>next_sequence\<close>
  in the header. No other byte of the file changes, so no earlier event and no magic number can.\<close>

lemma append_writes_slot_and_sequence:
  assumes "byte_append ts evt bl = Some (bl', Inr sq)" "event_typed evt" "k < length (bl_mem bl)"
  shows "length (bl_mem bl') = length (bl_mem bl) \<and> slot_offset (unat sq) + 64 \<le> length (bl_mem bl) \<and>
    bl_mem bl' ! k =
      (if slot_offset (unat sq) \<le> k \<and> k < slot_offset (unat sq) + 64
       then event_bytes (evt\<lparr>sequence := sq, timestamp_ns := now_ns ts\<rparr>) ! (k - slot_offset (unat sq))
       else if 8 \<le> k \<and> k < 16 then le_bytes 8 (uint (sq + 1)) ! (k - 8)
       else bl_mem bl ! k)"
proof -
  let ?e = "evt\<lparr>sequence := sq, timestamp_ns := now_ns ts\<rparr>"
  from assms(1) obtain m1 where m1: "poke (bl_mem bl) (64 + unat sq * 64) (event_bytes ?e) = Some m1"
    and m2: "poke m1 8 (le_bytes 8 (uint (sq + 1))) = Some (bl_mem bl')"
    by (auto simp: byte_append_def Let_def store_event_def store_next_sequence_def Option.bind_eq_Some_conv split: if_splits)
  have "length (event_bytes ?e) = 64" using event_codec(1) [of ?e] assms(2) by simp
  with poke_Some [OF m1] poke_Some [OF m2] assms(3) show ?thesis by auto
qed

end
