(* ===== verification/Update_Stores.thy ===== *)
theory Update_Stores
  imports Killswitch
begin

text \<open>
  The updates of the two tables store by store. Every handler of \<open>OrderManager\<close> and \<open>PositionTracker\<close> is the
  list of its stores in program order; \<open>om_cut e om n\<close> and \<open>pt_cut e pt n\<close> are the tables after the first \<open>n\<close>
  of them, and all of them together are \<open>apply_event\<close>. The locale \<open>slot_lens\<close> says that stores to one slot
  of a table are stores to its value; both tables interpret it.
\<close>

section \<open>Sequences of stores\<close>

definition run_stores :: "('t \<Rightarrow> 't option) list \<Rightarrow> 't \<Rightarrow> 't option" where
  "run_stores ss t = foldm (\<lambda>s. s) ss t"

lemma run_stores_simps [simp]:
  "run_stores [] t = Some t" "run_stores (s # ss) t = do { t' \<leftarrow> s t; run_stores ss t' }"
  by (simp_all add: run_stores_def)

text \<open>A property of every cut, by running over the stores once.\<close>

definition at_cuts :: "(nat \<Rightarrow> 't \<Rightarrow> bool) \<Rightarrow> ('t \<Rightarrow> 't option) list \<Rightarrow> 't \<Rightarrow> bool" where
  "at_cuts Q ss t \<longleftrightarrow> (\<forall>n x. run_stores (take n ss) t = Some x \<longrightarrow> Q n x)"

lemma at_cutsD: "at_cuts Q ss t \<Longrightarrow> run_stores (take n ss) t = Some x \<Longrightarrow> Q n x"
  by (simp add: at_cuts_def)

lemma at_cuts_Nil [simp]: "at_cuts Q [] t \<longleftrightarrow> (\<forall>n. Q n t)"
  by (simp add: at_cuts_def)

lemma at_cuts_Cons [simp]:
  "at_cuts Q (s # ss) t \<longleftrightarrow> Q 0 t \<and> (\<forall>t'. s t = Some t' \<longrightarrow> at_cuts (\<lambda>n. Q (Suc n)) ss t')"
proof -
  have "at_cuts Q (s # ss) t \<longleftrightarrow> Q 0 t \<and> (\<forall>n x. run_stores (take (Suc n) (s # ss)) t = Some x \<longrightarrow> Q (Suc n) x)"
    unfolding at_cuts_def
  proof (intro iffI allI impI conjI)
    fix n x
    assume "Q 0 t \<and> (\<forall>n x. run_stores (take (Suc n) (s # ss)) t = Some x \<longrightarrow> Q (Suc n) x)"
      and "run_stores (take n (s # ss)) t = Some x"
    then show "Q n x" by (cases n) auto
  qed (auto dest: spec [where x = 0])
  then show ?thesis by (auto simp: at_cuts_def Option.bind_eq_Some_conv)
qed

text \<open>Stores to one slot of a table are stores to the value of the slot.\<close>

locale slot_lens =
  fixes valid :: "'t \<Rightarrow> bool" and sget :: "'t \<Rightarrow> 's" and sput :: "'s \<Rightarrow> 't \<Rightarrow> 't"
    and lifted :: "('s \<Rightarrow> 's option) \<Rightarrow> 't \<Rightarrow> 't option"
  assumes lifted_eq: "valid t \<Longrightarrow> lifted f t = map_option (\<lambda>s. sput s t) (f (sget t))"
    and get_put: "valid t \<Longrightarrow> sget (sput s t) = s"
    and put_put: "valid t \<Longrightarrow> sput s (sput s' t) = sput s t"
    and put_get: "valid t \<Longrightarrow> sput (sget t) t = t"
    and valid_put: "valid t \<Longrightarrow> valid (sput s t)"
begin

lemma run_lifted:
  "valid t \<Longrightarrow> run_stores (map lifted fs) t = map_option (\<lambda>s. sput s t) (run_stores fs (sget t))"
proof (induction fs arbitrary: t)
  case Nil
  then show ?case by (simp add: put_get)
next
  case (Cons f fs)
  show ?case
  proof (cases "f (sget t)")
    case None
    with Cons.prems show ?thesis by (simp add: lifted_eq)
  next
    case (Some s)
    with Cons.IH [OF valid_put [OF Cons.prems]] Cons.prems show ?thesis
      by (simp add: lifted_eq get_put put_put)
  qed
qed

lemma run_lifted_take:
  "valid t \<Longrightarrow> run_stores (take m (map lifted fs)) t = map_option (\<lambda>s. sput s t) (run_stores (take m fs) (sget t))"
  using run_lifted [of t "take m fs"] by (simp add: take_map)

end

section \<open>The stores of the order table\<close>

definition om_put :: "nat \<Rightarrow> (order \<Rightarrow> order option) \<Rightarrow> order_manager \<Rightarrow> order_manager option" where
  "om_put i f om = do {
     od \<leftarrow> at_index (om_slots om) i;
     od' \<leftarrow> f od;
     Some (om\<lparr>om_slots := (om_slots om)[i := od']\<rparr>) }"

definition om_bump :: "order_manager \<Rightarrow> order_manager option" where
  "om_bump om = Some (om\<lparr>om_count := Suc (om_count om)\<rparr>)"

interpretation oml: slot_lens "\<lambda>om. i < length (om_slots om)" "\<lambda>om. om_slots om ! i"
  "\<lambda>od om. om\<lparr>om_slots := (om_slots om)[i := od]\<rparr>" "om_put i" for i
  by unfold_locales (auto simp: om_put_def at_index_def map_conv_bind_option o_def)

text \<open>\<open>get_or_create\<close> on a free slot: the count first, then \<open>memset\<close>, then the id.\<close>

definition create_stores :: "char list \<Rightarrow> (order \<Rightarrow> order option) list" where
  "create_stores k = [\<lambda>od. Some zero_order, \<lambda>od. do { bs \<leftarrow> strncpy k 8; Some (od\<lparr>o_order_id := bs\<rparr>) }]"

definition new_stores :: "order_event \<Rightarrow> (order \<Rightarrow> order option) list" where
  "new_stores e =
     [\<lambda>od. do { s \<leftarrow> strncpy (symbol e) 8; Some (od\<lparr>o_symbol := s\<rparr>) },
      \<lambda>od. Some (od\<lparr>o_state := Pending\<rparr>),
      \<lambda>od. Some (od\<lparr>o_side := side e\<rparr>),
      \<lambda>od. Some (od\<lparr>limit_price := price e\<rparr>),
      \<lambda>od. Some (od\<lparr>original_qty := qty e\<rparr>),
      \<lambda>od. Some (od\<lparr>filled_qty := 0\<rparr>),
      \<lambda>od. Some (od\<lparr>avg_fill_price := 0\<rparr>),
      \<lambda>od. Some (od\<lparr>opened_seq := sequence e\<rparr>),
      \<lambda>od. Some (od\<lparr>last_seq := sequence e\<rparr>)]"

text \<open>The stores of \<open>handle_fill\<close>; the local variables are computed from the order as it was found.\<close>

definition fill_stores :: "order_event \<Rightarrow> order \<Rightarrow> (order \<Rightarrow> order option) list option" where
  "fill_stores e od = do {
     prev_cost \<leftarrow> i64 (avg_fill_price od * filled_qty od);
     fill_cost \<leftarrow> i64 (fill_price e * fill_qty e);
     new_filled \<leftarrow> i32 (filled_qty od + fill_qty e);
     avg \<leftarrow> (if new_filled > 0 then do {
              total \<leftarrow> i64 (prev_cost + fill_cost);
              i64 (total sdiv new_filled) }
            else Some 0);
     Some
       [\<lambda>od. Some (od\<lparr>avg_fill_price := avg\<rparr>),
        \<lambda>od. Some (od\<lparr>filled_qty := new_filled\<rparr>),
        \<lambda>od. Some (od\<lparr>last_seq := sequence e\<rparr>),
        \<lambda>od. do { rem \<leftarrow> remaining_qty od; Some (od\<lparr>o_state := (if rem \<le> 0 then Filled else PartiallyFilled)\<rparr>) }] }"

definition state_stores :: "order_state \<Rightarrow> order_event \<Rightarrow> (order \<Rightarrow> order option) list" where
  "state_stores st e = [\<lambda>od. Some (od\<lparr>o_state := st\<rparr>), \<lambda>od. Some (od\<lparr>last_seq := sequence e\<rparr>)]"

definition amend_stores :: "order_event \<Rightarrow> (order \<Rightarrow> order option) list" where
  "amend_stores e =
     (if qty e > 0 then [\<lambda>od. Some (od\<lparr>original_qty := qty e\<rparr>)] else []) @
     (if price e > 0 then [\<lambda>od. Some (od\<lparr>limit_price := price e\<rparr>)] else []) @
     [\<lambda>od. Some (od\<lparr>last_seq := sequence e\<rparr>)]"

text \<open>The handlers for an order that is in the table, and all of \<open>apply_event\<close>. The lookup is made at once, on the
  table as the handler finds it: this is what a handler does that nothing else writes under. When another thread
  adds an order in the meantime the lookup races with it on \<open>count_\<close>, and the execution is undefined
  (\<open>Concurrent_Booking\<close>).\<close>

definition known_stores :: "order_event \<Rightarrow> order \<Rightarrow> (order \<Rightarrow> order option) list option" where
  "known_stores e od =
     (case etype e of
        NewOrder \<Rightarrow> Some (new_stores e)
      | PartialFill \<Rightarrow> fill_stores e od
      | FullFill \<Rightarrow> fill_stores e od
      | Cancel \<Rightarrow> Some (state_stores Cancelled e)
      | Reject \<Rightarrow> Some (state_stores Rejected e)
      | Amend \<Rightarrow> Some (amend_stores e)
      | EventType_other _ \<Rightarrow> Some [])"

definition om_stores :: "order_event \<Rightarrow> order_manager \<Rightarrow> (order_manager \<Rightarrow> order_manager option) list option" where
  "om_stores e om = do {
     p \<leftarrow> om_find om (order_id_view e);
     case p of
       Some i \<Rightarrow> do { od \<leftarrow> at_index (om_slots om) i; ss \<leftarrow> known_stores e od; Some (map (om_put i) ss) }
     | None \<Rightarrow>
         if etype e = NewOrder \<and> om_count om < MAX_ORDERS
         then Some (om_bump # map (om_put (om_count om)) (create_stores (order_id e) @ new_stores e))
         else Some [] }"

definition om_cut :: "order_event \<Rightarrow> order_manager \<Rightarrow> nat \<Rightarrow> order_manager option" where
  "om_cut e om n = do { ss \<leftarrow> om_stores e om; run_stores (take n ss) om }"

definition known_body :: "order_event \<Rightarrow> order \<Rightarrow> order option" where
  "known_body e od =
     (case etype e of
        NewOrder \<Rightarrow> open_order e od
      | PartialFill \<Rightarrow> fill_order e od
      | FullFill \<Rightarrow> fill_order e od
      | Cancel \<Rightarrow> Some (od\<lparr>o_state := Cancelled, last_seq := sequence e\<rparr>)
      | Reject \<Rightarrow> Some (od\<lparr>o_state := Rejected, last_seq := sequence e\<rparr>)
      | Amend \<Rightarrow> Some (amend_order e od)
      | EventType_other _ \<Rightarrow> Some od)"

definition fill_writes :: "order_event \<Rightarrow> int \<Rightarrow> int \<Rightarrow> (order \<Rightarrow> order option) list" where
  "fill_writes e avg new_filled =
     [\<lambda>od. Some (od\<lparr>avg_fill_price := avg\<rparr>),
      \<lambda>od. Some (od\<lparr>filled_qty := new_filled\<rparr>),
      \<lambda>od. Some (od\<lparr>last_seq := sequence e\<rparr>),
      \<lambda>od. do { rem \<leftarrow> remaining_qty od; Some (od\<lparr>o_state := (if rem \<le> 0 then Filled else PartiallyFilled)\<rparr>) }]"

lemma fill_stores_Some:
  assumes "fill_stores e od = Some ss"
  obtains avg where "ss = fill_writes e avg (filled_qty od + fill_qty e)"
  using assms by (auto simp: fill_stores_def fill_writes_def Option.bind_eq_Some_conv split: if_splits)

lemma known_stores_cases:
  assumes "known_stores e od = Some ss" "etype e \<noteq> NewOrder"
  obtains (fill) avg where "is_fill e" "ss = fill_writes e avg (filled_qty od + fill_qty e)"
    | (state) st where "st = Cancelled \<or> st = Rejected" "ss = state_stores st e"
    | (amend) "ss = amend_stores e"
    | (nothing) "ss = []"
  using assms by (auto simp: known_stores_def is_fill_def elim: fill_stores_Some split: event_type.splits)

lemma run_fill_stores: "do { ss \<leftarrow> fill_stores e od; run_stores ss od } = fill_order e od"
  by (simp add: fill_stores_def fill_order_def Let_def)

lemma run_known_stores: "do { ss \<leftarrow> known_stores e od; run_stores ss od } = known_body e od"
  using run_fill_stores [of e od]
  by (auto simp: known_stores_def known_body_def new_stores_def open_order_def state_stores_def amend_stores_def
      amend_order_def Let_def split: event_type.split)

text \<open>A lookup in a well-formed table.\<close>

lemma om_find_cases:
  assumes "om_ok om" "event_ok e"
  obtains (hit) i where "om_find om (order_id_view e) = Some (Some i)" "i < om_count om" "i < length (om_slots om)"
      "om_map om (event_oid e) = Some (om_slots om ! i)"
    | (miss) "om_find om (order_id_view e) = Some None" "om_map om (event_oid e) = None"
proof (rule omt.scan_cases [OF om_okD(1) [OF assms(1)] event_okD(6) [OF assms(2)]])
  fix j
  assume "om_find_loop (om_slots om) (order_id e) 0 (om_count om) = Some (Some j)" "j < om_count om"
    and "table_map o_order_id (om_slots om) (om_count om) (cstr 8 (order_id e)) = Some (om_slots om ! j)"
  then show ?thesis using that(1) [of j] om_okD(3,4) [OF assms(1)]
    by (simp add: om_find_def om_map_def event_oid_def)
next
  assume "om_find_loop (om_slots om) (order_id e) 0 (om_count om) = Some None"
    and "table_map o_order_id (om_slots om) (om_count om) (cstr 8 (order_id e)) = None"
  then show ?thesis using that(2) by (simp add: om_find_def om_map_def event_oid_def)
qed

lemma om_apply_event_found:
  assumes "om_find om (order_id_view e) = Some (Some i)" "i < length (om_slots om)"
  shows "om_apply_event e om = map_option (\<lambda>od. om\<lparr>om_slots := (om_slots om)[i := od]\<rparr>) (known_body e (om_slots om ! i))"
  using assms
  by (auto simp: om_apply_event_def known_body_def handle_new_def om_get_or_create_def handle_fill_def handle_cancel_def
      handle_reject_def handle_amend_def om_with_order_def at_index_def map_conv_bind_option o_def
      split: event_type.split)

lemma om_stores_found:
  assumes "om_find om (order_id_view e) = Some (Some i)" "i < length (om_slots om)"
  shows "om_stores e om = map_option (map (om_put i)) (known_stores e (om_slots om ! i))"
  using assms by (simp add: om_stores_def at_index_def map_conv_bind_option o_def)

lemma om_cut_found:
  assumes "om_find om (order_id_view e) = Some (Some i)" "i < length (om_slots om)"
  shows "om_cut e om n = do { ss \<leftarrow> known_stores e (om_slots om ! i); od \<leftarrow> run_stores (take n ss) (om_slots om ! i);
    Some (om\<lparr>om_slots := (om_slots om)[i := od]\<rparr>) }"
  using assms by (simp add: om_cut_def om_stores_found oml.run_lifted_take map_conv_bind_option o_def)

lemma om_cut_created:
  assumes "om_find om (order_id_view e) = Some None" "etype e = NewOrder" "om_count om < MAX_ORDERS"
    and "om_count om < length (om_slots om)"
  shows "om_cut e om 0 = Some om"
    "om_cut e om (Suc n) = do {
       od \<leftarrow> run_stores (take n (create_stores (order_id e) @ new_stores e)) (om_slots om ! om_count om);
       Some (om\<lparr>om_count := Suc (om_count om), om_slots := (om_slots om)[om_count om := od]\<rparr>) }"
proof -
  show "om_cut e om 0 = Some om" using assms by (simp add: om_cut_def om_stores_def)
  show "om_cut e om (Suc n) = do {
       od \<leftarrow> run_stores (take n (create_stores (order_id e) @ new_stores e)) (om_slots om ! om_count om);
       Some (om\<lparr>om_count := Suc (om_count om), om_slots := (om_slots om)[om_count om := od]\<rparr>) }"
    using assms oml.run_lifted_take [of "om_count om" "om\<lparr>om_count := Suc (om_count om)\<rparr>" n "create_stores (order_id e) @ new_stores e"]
    by (simp add: om_cut_def om_stores_def om_bump_def map_conv_bind_option o_def)
qed

text \<open>A new order makes twelve stores. The order after the first \<open>n\<close> of those to its slot.\<close>

lemma run_created:
  assumes "event_ok e"
  shows "run_stores (create_stores (order_id e) @ new_stores e) od = Some (opened_order e)"
  using event_okD(5,6) [OF assms]
  by (simp add: create_stores_def new_stores_def strncpy_eq opened_order_def zero_order_def event_oid_def event_symbol_def)

lemma om_apply_event_created:
  assumes "om_find om (order_id_view e) = Some None" "etype e = NewOrder" "om_count om < MAX_ORDERS"
    and "om_count om < length (om_slots om)" "event_ok e"
  shows "om_apply_event e om =
    Some (om\<lparr>om_count := Suc (om_count om), om_slots := (om_slots om)[om_count om := opened_order e]\<rparr>)"
  using assms event_okD(5,6) [OF assms(5)]
  by (simp add: om_apply_event_def handle_new_def om_get_or_create_def at_index_def strncpy_eq open_order_def
      opened_order_def zero_order_def event_oid_def event_symbol_def)

lemma om_apply_event_unknown:
  assumes "om_find om (order_id_view e) = Some None" "\<not> (etype e = NewOrder \<and> om_count om < MAX_ORDERS)"
  shows "om_apply_event e om = Some om" "om_stores e om = Some []"
  using assms
  by (auto simp: om_stores_def om_apply_event_def handle_new_def om_get_or_create_def handle_fill_def handle_cancel_def
      handle_reject_def handle_amend_def om_with_order_def split: event_type.split)

lemma om_stores_apply:
  assumes "om_ok om" "event_ok e"
  shows "do { ss \<leftarrow> om_stores e om; run_stores ss om } = om_apply_event e om"
  using assms
proof (cases rule: om_find_cases)
  case (hit i)
  have "do { ss \<leftarrow> om_stores e om; run_stores ss om } =
      map_option (\<lambda>od. om\<lparr>om_slots := (om_slots om)[i := od]\<rparr>)
        (do { ss \<leftarrow> known_stores e (om_slots om ! i); run_stores ss (om_slots om ! i) })"
    using hit(3) by (simp add: om_stores_found [OF hit(1,3)] oml.run_lifted map_conv_bind_option o_def)
  then show ?thesis by (simp add: run_known_stores om_apply_event_found [OF hit(1,3)])
next
  case miss
  show ?thesis
  proof (cases "etype e = NewOrder \<and> om_count om < MAX_ORDERS")
    case False
    with om_apply_event_unknown [OF miss(1)] show ?thesis by simp
  next
    case True
    have len: "om_count om < length (om_slots om)" using True om_okD(4) [OF assms(1)] by simp
    have "run_stores (map (om_put (om_count om)) (create_stores (order_id e) @ new_stores e)) (om\<lparr>om_count := Suc (om_count om)\<rparr>)
        = Some (om\<lparr>om_count := Suc (om_count om), om_slots := (om_slots om)[om_count om := opened_order e]\<rparr>)"
      using oml.run_lifted [of "om_count om" "om\<lparr>om_count := Suc (om_count om)\<rparr>"] len run_created [OF assms(2)]
      by (simp del: map_append)
    with True miss(1) om_apply_event_created [OF miss(1) _ _ len assms(2)] show ?thesis
      by (simp add: om_stores_def om_bump_def)
  qed
qed

section \<open>The stores of the position table\<close>

definition pt_put :: "nat \<Rightarrow> (position \<Rightarrow> position option) \<Rightarrow> position_tracker \<Rightarrow> position_tracker option" where
  "pt_put i f pt = do {
     p \<leftarrow> at_index (pt_slots pt) i;
     p' \<leftarrow> f p;
     Some (pt\<lparr>pt_slots := (pt_slots pt)[i := p']\<rparr>) }"

definition pt_bump :: "position_tracker \<Rightarrow> position_tracker option" where
  "pt_bump pt = Some (pt\<lparr>pt_count := Suc (pt_count pt)\<rparr>)"

interpretation ptl: slot_lens "\<lambda>pt. i < length (pt_slots pt)" "\<lambda>pt. pt_slots pt ! i"
  "\<lambda>p pt. pt\<lparr>pt_slots := (pt_slots pt)[i := p]\<rparr>" "pt_put i" for i
  by unfold_locales (auto simp: pt_put_def at_index_def map_conv_bind_option o_def)

definition pt_create_stores :: "char list \<Rightarrow> (position \<Rightarrow> position option) list" where
  "pt_create_stores k = [\<lambda>p. Some zero_position, \<lambda>p. do { bs \<leftarrow> strncpy k 8; Some (p\<lparr>p_symbol := bs\<rparr>) }]"

text \<open>The stores of \<open>apply_buy\<close> and \<open>apply_sell\<close>: the total, the two branches, the unrealized result, the
  sequence number. The branch is taken on the net quantity before the fill.\<close>

definition open_stores :: "int \<Rightarrow> int \<Rightarrow> (position \<Rightarrow> position option) list" where
  "open_stores avg n = [\<lambda>p. Some (p\<lparr>avg_entry_price := avg\<rparr>), \<lambda>p. Some (p\<lparr>net_qty := n\<rparr>)]"

definition close_stores :: "int \<Rightarrow> int \<Rightarrow> bool \<Rightarrow> int \<Rightarrow> (position \<Rightarrow> position option) list" where
  "close_stores r n flips px =
     [\<lambda>p. Some (p\<lparr>realized_pnl := r\<rparr>), \<lambda>p. Some (p\<lparr>net_qty := n\<rparr>)] @
     (if flips then [\<lambda>p. Some (p\<lparr>avg_entry_price := px\<rparr>)]
      else if n = 0 then [\<lambda>p. Some (p\<lparr>avg_entry_price := 0\<rparr>)] else [])"

definition end_stores :: "64 word \<Rightarrow> (position \<Rightarrow> position option) list" where
  "end_stores sq = [refresh_unrealized, \<lambda>p. Some (p\<lparr>last_updated_seq := u64_to_i64 sq\<rparr>)]"

definition buy_stores :: "position \<Rightarrow> int \<Rightarrow> int \<Rightarrow> 64 word \<Rightarrow> (position \<Rightarrow> position option) list option" where
  "buy_stores p q px sq = do {
     tb \<leftarrow> i32 (total_buy_qty p + q);
     ss \<leftarrow> (if net_qty p \<ge> 0 then do {
              new_qty \<leftarrow> i64 (net_qty p + q);
              c1 \<leftarrow> i64 (avg_entry_price p * net_qty p);
              c2 \<leftarrow> i64 (px * q);
              new_cost \<leftarrow> i64 (c1 + c2);
              avg \<leftarrow> (if new_qty > 0 then i64 (new_cost sdiv new_qty) else Some 0);
              Some (open_stores avg new_qty) }
            else do {
              neg \<leftarrow> i64 (- net_qty p);
              let cover = (if q \<le> neg then q else neg);
              d \<leftarrow> i64 (avg_entry_price p - px);
              g \<leftarrow> i64 (d * cover);
              r \<leftarrow> i64 (realized_pnl p + g);
              n \<leftarrow> i64 (net_qty p + q);
              Some (close_stores r n (n > 0) px) });
     Some ([\<lambda>p. Some (p\<lparr>total_buy_qty := tb\<rparr>)] @ ss @ end_stores sq) }"

definition sell_stores :: "position \<Rightarrow> int \<Rightarrow> int \<Rightarrow> 64 word \<Rightarrow> (position \<Rightarrow> position option) list option" where
  "sell_stores p q px sq = do {
     tsq \<leftarrow> i32 (total_sell_qty p + q);
     ss \<leftarrow> (if net_qty p > 0 then do {
              let cl = (if q \<le> net_qty p then q else net_qty p);
              d \<leftarrow> i64 (px - avg_entry_price p);
              g \<leftarrow> i64 (d * cl);
              r \<leftarrow> i64 (realized_pnl p + g);
              n \<leftarrow> i64 (net_qty p - q);
              Some (close_stores r n (n < 0) px) }
            else do {
              neg \<leftarrow> i64 (- net_qty p);
              new_qty \<leftarrow> i64 (neg + q);
              c1 \<leftarrow> i64 (avg_entry_price p * neg);
              c2 \<leftarrow> i64 (px * q);
              new_cost \<leftarrow> i64 (c1 + c2);
              avg \<leftarrow> (if new_qty > 0 then i64 (new_cost sdiv new_qty) else Some 0);
              n \<leftarrow> i64 (net_qty p - q);
              Some (open_stores avg n) });
     Some ([\<lambda>p. Some (p\<lparr>total_sell_qty := tsq\<rparr>)] @ ss @ end_stores sq) }"

definition position_stores :: "order_event \<Rightarrow> position \<Rightarrow> (position \<Rightarrow> position option) list option" where
  "position_stores e p =
     (if side e = Buy then buy_stores p (fill_qty e) (fill_price e) (sequence e)
      else sell_stores p (fill_qty e) (fill_price e) (sequence e))"

lemma run_stores_append: "run_stores (xs @ ys) t = do { t' \<leftarrow> run_stores xs t; run_stores ys t' }"
  by (simp add: run_stores_def foldm_append)

lemma run_branch_stores:
  "run_stores (open_stores avg n @ end_stores sq) p = do {
     p' \<leftarrow> refresh_unrealized (p\<lparr>avg_entry_price := avg, net_qty := n\<rparr>); Some (p'\<lparr>last_updated_seq := u64_to_i64 sq\<rparr>) }"
  "run_stores (close_stores r n b px @ end_stores sq) p = do {
     p' \<leftarrow> refresh_unrealized (if b then p\<lparr>realized_pnl := r, net_qty := n, avg_entry_price := px\<rparr>
       else if n = 0 then p\<lparr>realized_pnl := r, net_qty := n, avg_entry_price := 0\<rparr> else p\<lparr>realized_pnl := r, net_qty := n\<rparr>);
     Some (p'\<lparr>last_updated_seq := u64_to_i64 sq\<rparr>) }"
  by (simp_all add: open_stores_def close_stores_def end_stores_def)

lemma run_buy_stores: "do { ss \<leftarrow> buy_stores p q px sq; run_stores ss p } = apply_buy p q px sq"
  by (simp add: buy_stores_def apply_buy_def run_branch_stores Let_def cong: Option.bind_cong if_cong)

lemma run_sell_stores: "do { ss \<leftarrow> sell_stores p q px sq; run_stores ss p } = apply_sell p q px sq"
  by (simp add: sell_stores_def apply_sell_def run_branch_stores Let_def cong: Option.bind_cong if_cong)

lemma run_position_stores: "do { ss \<leftarrow> position_stores e p; run_stores ss p } = fill_position e p"
  by (simp add: position_stores_def fill_position_def run_buy_stores run_sell_stores)

definition pt_stores :: "order_event \<Rightarrow> position_tracker \<Rightarrow> (position_tracker \<Rightarrow> position_tracker option) list option" where
  "pt_stores e pt =
     (if \<not> is_fill e then Some []
      else do {
        f \<leftarrow> pt_find pt (symbol_view e);
        case f of
          Some i \<Rightarrow> do { p \<leftarrow> at_index (pt_slots pt) i; ss \<leftarrow> position_stores e p; Some (map (pt_put i) ss) }
        | None \<Rightarrow>
            if pt_count pt < MAX_SYMBOLS then do {
              p \<leftarrow> run_stores (pt_create_stores (symbol e)) zero_position;
              ss \<leftarrow> position_stores e p;
              Some (pt_bump # map (pt_put (pt_count pt)) (pt_create_stores (symbol e) @ ss)) }
            else Some [] })"

definition pt_cut :: "order_event \<Rightarrow> position_tracker \<Rightarrow> nat \<Rightarrow> position_tracker option" where
  "pt_cut e pt n = do { ss \<leftarrow> pt_stores e pt; run_stores (take n ss) pt }"

lemma pt_find_cases:
  assumes "pt_ok pt" "event_ok e"
  obtains (hit) i where "pt_find pt (symbol_view e) = Some (Some i)" "i < pt_count pt" "i < length (pt_slots pt)"
      "pt_map pt (event_symbol e) = Some (pt_slots pt ! i)"
    | (miss) "pt_find pt (symbol_view e) = Some None" "pt_map pt (event_symbol e) = None"
proof (rule ptt.scan_cases [OF pt_okD(1) [OF assms(1)] event_okD(5) [OF assms(2)]])
  fix j
  assume "pt_find_loop (pt_slots pt) (symbol e) 0 (pt_count pt) = Some (Some j)" "j < pt_count pt"
    and "table_map p_symbol (pt_slots pt) (pt_count pt) (cstr 8 (symbol e)) = Some (pt_slots pt ! j)"
  then show ?thesis using that(1) [of j] pt_okD(3,4) [OF assms(1)]
    by (simp add: pt_find_def pt_map_def event_symbol_def)
next
  assume "pt_find_loop (pt_slots pt) (symbol e) 0 (pt_count pt) = Some None"
    and "table_map p_symbol (pt_slots pt) (pt_count pt) (cstr 8 (symbol e)) = None"
  then show ?thesis using that(2) by (simp add: pt_find_def pt_map_def event_symbol_def)
qed

text \<open>What each lookup result means for the whole call and for its cuts.\<close>

lemma pt_found:
  assumes "pt_find pt (symbol_view e) = Some (Some i)" "i < length (pt_slots pt)" "is_fill e"
  shows "pt_apply_event e pt = map_option (\<lambda>p. pt\<lparr>pt_slots := (pt_slots pt)[i := p]\<rparr>) (fill_position e (pt_slots pt ! i))"
    "pt_stores e pt = map_option (map (pt_put i)) (position_stores e (pt_slots pt ! i))"
    "pt_cut e pt n = do { ss \<leftarrow> position_stores e (pt_slots pt ! i); p \<leftarrow> run_stores (take n ss) (pt_slots pt ! i);
       Some (pt\<lparr>pt_slots := (pt_slots pt)[i := p]\<rparr>) }"
  using assms
  by (simp_all add: pt_apply_event_def pt_get_or_create_def pt_cut_def pt_stores_def at_index_def ptl.run_lifted_take
      map_conv_bind_option o_def)

lemma run_pt_create: "event_ok e \<Longrightarrow> run_stores (pt_create_stores (symbol e)) p = Some (fresh_position (event_symbol e))"
  using event_okD(5) [of e] by (simp add: pt_create_stores_def strncpy_eq fresh_position_def event_symbol_def)

lemma pt_created:
  assumes "pt_find pt (symbol_view e) = Some None" "pt_count pt < MAX_SYMBOLS" "pt_count pt < length (pt_slots pt)"
    and "is_fill e" "event_ok e"
  shows "pt_apply_event e pt = map_option (\<lambda>p. pt\<lparr>pt_count := Suc (pt_count pt), pt_slots := (pt_slots pt)[pt_count pt := p]\<rparr>)
      (fill_position e (fresh_position (event_symbol e)))"
    "pt_stores e pt = map_option (\<lambda>ss. pt_bump # map (pt_put (pt_count pt)) (pt_create_stores (symbol e) @ ss))
      (position_stores e (fresh_position (event_symbol e)))"
    "pt_cut e pt 0 = Some pt \<or> pt_cut e pt 0 = None"
    "pt_cut e pt (Suc n) = do { ss \<leftarrow> position_stores e (fresh_position (event_symbol e));
       p \<leftarrow> run_stores (take n (pt_create_stores (symbol e) @ ss)) (pt_slots pt ! pt_count pt);
       Some (pt\<lparr>pt_count := Suc (pt_count pt), pt_slots := (pt_slots pt)[pt_count pt := p]\<rparr>) }"
proof -
  show s: "pt_stores e pt = map_option (\<lambda>ss. pt_bump # map (pt_put (pt_count pt)) (pt_create_stores (symbol e) @ ss))
      (position_stores e (fresh_position (event_symbol e)))"
    using assms by (simp add: pt_stores_def run_pt_create map_conv_bind_option o_def)
  show "pt_apply_event e pt = map_option (\<lambda>p. pt\<lparr>pt_count := Suc (pt_count pt), pt_slots := (pt_slots pt)[pt_count pt := p]\<rparr>)
      (fill_position e (fresh_position (event_symbol e)))"
    using assms event_okD(5) [OF assms(5)]
    by (cases pt) (simp add: pt_apply_event_def pt_get_or_create_def at_index_def strncpy_eq fresh_position_def event_symbol_def
        map_conv_bind_option o_def)
  show "pt_cut e pt 0 = Some pt \<or> pt_cut e pt 0 = None"
    by (cases "position_stores e (fresh_position (event_symbol e))") (simp_all add: pt_cut_def s)
  show "pt_cut e pt (Suc n) = do { ss \<leftarrow> position_stores e (fresh_position (event_symbol e));
       p \<leftarrow> run_stores (take n (pt_create_stores (symbol e) @ ss)) (pt_slots pt ! pt_count pt);
       Some (pt\<lparr>pt_count := Suc (pt_count pt), pt_slots := (pt_slots pt)[pt_count pt := p]\<rparr>) }"
    using ptl.run_lifted_take [of "pt_count pt" "pt\<lparr>pt_count := Suc (pt_count pt)\<rparr>" n] assms(3)
    by (simp add: pt_cut_def s pt_bump_def map_conv_bind_option o_def del: map_append take_append)
qed

lemma pt_unknown:
  assumes "pt_find pt (symbol_view e) = Some None" "\<not> pt_count pt < MAX_SYMBOLS \<or> \<not> is_fill e"
  shows "pt_apply_event e pt = Some pt" "pt_stores e pt = Some []"
  using assms by (auto simp: pt_stores_def pt_apply_event_def pt_get_or_create_def)

lemma pt_stores_apply:
  assumes "pt_ok pt" "event_ok e"
  shows "do { ss \<leftarrow> pt_stores e pt; run_stores ss pt } = pt_apply_event e pt"
proof (cases "is_fill e")
  case fill: True
  show ?thesis
    using assms
  proof (cases rule: pt_find_cases)
    case (hit i)
    have "do { ss \<leftarrow> pt_stores e pt; run_stores ss pt } =
        map_option (\<lambda>p. pt\<lparr>pt_slots := (pt_slots pt)[i := p]\<rparr>)
          (do { ss \<leftarrow> position_stores e (pt_slots pt ! i); run_stores ss (pt_slots pt ! i) })"
      using hit(3) by (simp add: pt_found(2) [OF hit(1,3) fill] ptl.run_lifted map_conv_bind_option o_def)
    then show ?thesis by (simp add: run_position_stores pt_found(1) [OF hit(1,3) fill])
  next
    case miss
    show ?thesis
    proof (cases "pt_count pt < MAX_SYMBOLS")
      case False
      with pt_unknown [OF miss(1)] show ?thesis by simp
    next
      case True
      have len: "pt_count pt < length (pt_slots pt)" using True pt_okD(4) [OF assms(1)] by simp
      note c = pt_created [OF miss(1) True len fill assms(2)]
      let ?p = "fresh_position (event_symbol e)"
      have "do { ss \<leftarrow> pt_stores e pt; run_stores ss pt } =
          map_option (\<lambda>p. pt\<lparr>pt_count := Suc (pt_count pt), pt_slots := (pt_slots pt)[pt_count pt := p]\<rparr>)
            (do { ss \<leftarrow> position_stores e ?p; run_stores ss ?p })"
        using ptl.run_lifted [of "pt_count pt" "pt\<lparr>pt_count := Suc (pt_count pt)\<rparr>"] len
        by (simp add: c(2) pt_bump_def run_stores_append run_pt_create [OF assms(2)] map_conv_bind_option o_def del: map_append)
      then show ?thesis by (simp add: run_position_stores c(1))
    qed
  qed
qed (simp add: pt_stores_def pt_apply_event_def)

section \<open>All stores together\<close>

lemma run_stores_prefix: "run_stores ss t = Some t' \<Longrightarrow> \<exists>x. run_stores (take n ss) t = Some x"
  using run_stores_append [of "take n ss" "drop n ss" t] by (cases "run_stores (take n ss) t") simp_all

lemma om_cut_defined:
  assumes "om_ok om" "event_ok e" "om_apply_event e om = Some om'"
  shows "\<exists>omi. om_cut e om n = Some omi"
  using om_stores_apply [OF assms(1,2)] assms(3) run_stores_prefix by (auto simp: om_cut_def Option.bind_eq_Some_conv)

lemma pt_cut_defined:
  assumes "pt_ok pt" "event_ok e" "pt_apply_event e pt = Some pt'"
  shows "\<exists>pti. pt_cut e pt n = Some pti"
  using pt_stores_apply [OF assms(1,2)] assms(3) run_stores_prefix by (auto simp: pt_cut_def Option.bind_eq_Some_conv)

end
