(* ===== verification/Interrupted_Updates.thy ===== *)
theory Interrupted_Updates
  imports Update_Stores Recovery
begin

text \<open>
  A signal can interrupt a thread inside \<open>apply_event\<close>; its handler then reads the tables as the stores made
  so far have left them (\<open>Update_Stores\<close>). What a reader takes from a table is a list of pieces, one list
  per slot (\<open>seen\<close>). For the emergency path and for the open exposure the pieces at every cut are those
  from before or from after the event, with exceptions for new orders: in a free slot the state is stored before
  the side, and an order under an id of the table takes over the slot of the earlier one member by member.
\<close>

section \<open>What a reader sees\<close>

definition seen :: "('s \<Rightarrow> 'v list) \<Rightarrow> 's list \<Rightarrow> nat \<Rightarrow> 'v list" where
  "seen view sl n = concat (map view (take n sl))"

lemma seen_update:
  assumes "i < n" "n \<le> length sl" "view s = view s'"
  shows "seen view (sl[i := s]) n = seen view (sl[i := s']) n"
proof -
  have "map view (take n (sl[i := s])) = map view (take n (sl[i := s']))"
    using assms by (simp add: take_update_swap map_update)
  then show ?thesis by (simp add: seen_def)
qed

lemma seen_same: "i < n \<Longrightarrow> n \<le> length sl \<Longrightarrow> view s = view (sl ! i) \<Longrightarrow> seen view (sl[i := s]) n = seen view sl n"
  using seen_update [of i n sl view s "sl ! i"] by simp

lemma seen_append: "n < length sl \<Longrightarrow> seen view (sl[n := s]) (Suc n) = seen view sl n @ view s"
  by (simp add: seen_def take_Suc_conv_app_nth)

text \<open>A loop over the slots that uses only the pieces is a loop over the pieces.\<close>

lemma foldm_seen:
  assumes step: "\<And>x s. x \<in> set (take n sl) \<Longrightarrow> P s \<Longrightarrow> f x s = foldm g (view x) s"
    and keep: "\<And>v s s'. P s \<Longrightarrow> g v s = Some s' \<Longrightarrow> P s'" and start: "P s"
  shows "foldm f (take n sl) s = foldm g (seen view sl n) s"
proof -
  have "foldm f xs s = foldm g (concat (map view xs)) s" if "set xs \<subseteq> set (take n sl)" "P s" for xs s
    using that
  proof (induction xs arbitrary: s)
    case (Cons x xs)
    have "P s'" if "foldm g (view x) s = Some s'" for s'
      by (rule foldm_invariant [where P = P, OF that Cons.prems(2) keep])
    with Cons show ?case
      by (auto simp: foldm_append step intro!: Option.bind_cong)
  qed simp
  then show ?thesis using start by (simp add: seen_def)
qed

subsection \<open>The cancel requests\<close>

text \<open>What a cancel request takes from an order.\<close>

definition cancel_view :: "order \<Rightarrow> order_event list" where
  "cancel_view od = (if is_open od then [(cancel_ref od)\<lparr>side := (if o_side od = Buy then Buy else Sell)\<rparr>] else [])"

definition cancel_piece :: "session_send \<Rightarrow> string \<Rightarrow> string \<Rightarrow> order_event \<Rightarrow> ks_run \<Rightarrow> ks_run option" where
  "cancel_piece send sid pre ref r =
     (let r1 = r\<lparr>ks_count := ks_count r + 1\<rparr>;
          cancel_id = pre @ to_dec (unat (ks_count r1))
      in Some (ks_send send sid (to_cancel_request ref cancel_id) cancel_id r1))"

lemma cancel_one_piece:
  "cancel_one send sid pre od =
     cancel_piece send sid pre ((cancel_ref od)\<lparr>side := (if o_side od = Buy then Buy else Sell)\<rparr>)"
  by (auto simp: cancel_one_def cancel_piece_def to_cancel_request_def cancel_ref_def fix_side_def
      order_id_view_def symbol_view_def Let_def fun_eq_iff)

lemma foldm_Nil [simp]: "foldm f [] = Some"
  by (simp add: fun_eq_iff)

lemma cancel_all_seen:
  assumes "om_count om \<le> length (om_slots om)"
  shows "cancel_all send ks pre om =
    foldm (cancel_piece send (ks_session ks) pre) (seen cancel_view (om_slots om) (om_count om)) ks_start"
proof -
  let ?f = "cancel_one send (ks_session ks) pre"
  have "cancel_all send ks pre om = foldm (\<lambda>od s. if is_open od then ?f od s else Some s) (take (om_count om) (om_slots om)) ks_start"
    unfolding cancel_all_def om_for_each_open_def
    using foldm_indices [of "om_count om" "om_slots om" "\<lambda>od s. if is_open od then ?f od s else Some s"] assms by simp
  also have "\<dots> = foldm (cancel_piece send (ks_session ks) pre) (seen cancel_view (om_slots om) (om_count om)) ks_start"
    by (rule foldm_seen [where P = "\<lambda>_. True"]) (simp_all add: cancel_view_def cancel_one_piece)
  finally show ?thesis .
qed

lemma cancel_view_updates [simp]:
  "cancel_view (od\<lparr>avg_fill_price := a\<rparr>) = cancel_view od" "cancel_view (od\<lparr>filled_qty := b\<rparr>) = cancel_view od"
  "cancel_view (od\<lparr>last_seq := c\<rparr>) = cancel_view od" "cancel_view (od\<lparr>original_qty := b\<rparr>) = cancel_view od"
  "cancel_view (od\<lparr>limit_price := a\<rparr>) = cancel_view od" "cancel_view (od\<lparr>opened_seq := c\<rparr>) = cancel_view od"
  by (simp_all add: cancel_view_def cancel_ref_def is_open_def)

lemma known_cut_cancel:
  assumes "etype e \<noteq> NewOrder" "known_stores e od = Some ss" "run_stores (take n ss) od = Some x" "run_stores ss od = Some y"
  shows "cancel_view x = cancel_view od \<or> cancel_view x = cancel_view y"
proof -
  from assms(2,1) have "at_cuts (\<lambda>n x. cancel_view x = cancel_view od \<or> cancel_view x = cancel_view y) ss od"
  proof (cases rule: known_stores_cases)
    case (fill avg)
    with assms(4) show ?thesis
      by (auto simp: fill_writes_def)
  next
    case (state st)
    with assms(4) show ?thesis by (auto simp: state_stores_def)
  next
    case amend
    with assms(4) show ?thesis by (auto simp: amend_stores_def)
  qed simp
  then show ?thesis using assms(3) by (rule at_cutsD)
qed

text \<open>A new order that reuses the slot of an order stores its symbol and state before its side: in between,
  the open order has the new symbol and the old side.\<close>

lemma reused_cut_cancel:
  assumes "etype e = NewOrder" "known_stores e od = Some ss" "run_stores (take n ss) od = Some x" "run_stores ss od = Some y"
    and "n \<noteq> 1" "n \<noteq> 2"
  shows "cancel_view x = cancel_view od \<or> cancel_view x = cancel_view y"
proof -
  have ss: "ss = new_stores e" using assms(1,2) by (simp add: known_stores_def)
  obtain s where s: "strncpy (symbol e) 8 = Some s" and y: "y = od\<lparr>o_symbol := s, o_state := Pending, o_side := side e,
      limit_price := price e, original_qty := qty e, filled_qty := 0, avg_fill_price := 0, opened_seq := sequence e,
      last_seq := sequence e\<rparr>"
    using assms(4) unfolding ss by (auto simp: new_stores_def Option.bind_eq_Some_conv)
  have "at_cuts (\<lambda>n x. n \<noteq> 1 \<and> n \<noteq> 2 \<longrightarrow> cancel_view x = cancel_view od \<or> cancel_view x = cancel_view y) ss od"
    unfolding ss y new_stores_def by (simp add: s)
  then show ?thesis using assms(3,5,6) unfolding at_cuts_def by blast
qed

lemma reused_cut_mixed:
  assumes "event_ok e" "run_stores (take 2 (new_stores e)) od = Some x"
  shows "cancel_view x = [zero_event\<lparr>order_id := o_order_id od, symbol := pad_name 8 (event_symbol e),
    side := (if o_side od = Buy then Buy else Sell)\<rparr>]"
  using assms(2) event_okD(5) [OF assms(1)]
  by (auto simp: new_stores_def eval_nat_numeral strncpy_eq cancel_view_def cancel_ref_def is_open_def event_symbol_def)

text \<open>A new order in a free slot: the state is stored before the side.\<close>

lemma created_cut_cancel:
  assumes "event_ok e" "run_stores (take n (create_stores (order_id e) @ new_stores e)) zero_order = Some x"
  shows "cancel_view x = (if n < 4 then [] else if n = 4 then cancel_view ((opened_order e)\<lparr>o_side := Side_other 0\<rparr>)
    else cancel_view (opened_order e))"
proof -
  have "at_cuts (\<lambda>n x. cancel_view x = (if n < 4 then [] else if n = 4 then cancel_view ((opened_order e)\<lparr>o_side := Side_other 0\<rparr>)
    else cancel_view (opened_order e))) (create_stores (order_id e) @ new_stores e) zero_order"
    using event_okD(5,6) [OF assms(1)]
    by (simp add: create_stores_def new_stores_def strncpy_eq cancel_view_def cancel_ref_def is_open_def opened_order_def
        zero_order_def event_oid_def event_symbol_def eval_nat_numeral)
  then show ?thesis using assms(2) by (rule at_cutsD)
qed

subsection \<open>The open exposure\<close>

text \<open>What \<open>open_exposure\<close> takes from an order. An open order with nothing left open adds nothing.\<close>

definition exposure_view :: "order \<Rightarrow> (char list \<times> bool \<times> int) list" where
  "exposure_view od =
     (if is_open od \<and> original_qty od \<noteq> filled_qty od
      then [(o_symbol od, o_side od = Buy, original_qty od - filled_qty od)] else [])"

fun exposure_piece :: "char list \<Rightarrow> char list \<times> bool \<times> int \<Rightarrow> int \<Rightarrow> int option" where
  "exposure_piece symb (s, buy, v) ex = do {
     c \<leftarrow> strncmp s symb 8;
     if c \<noteq> 0 then Some ex
     else do {
       rem \<leftarrow> i32 v;
       d \<leftarrow> (if buy then Some rem else i32 (- rem));
       i32 (ex + d) } }"

lemma exposure_step_view:
  assumes "length (o_symbol od) = 8" "readable 8 symb" "int32 ex"
  shows "exposure_step symb od ex = foldm (exposure_piece symb) (exposure_view od) ex"
proof -
  obtain c where c: "strncmp (o_symbol od) symb 8 = Some c"
    using strncmp_total [of 8 "o_symbol od" symb] assms(1,2) by (auto simp: readable_def)
  show ?thesis
  proof (cases "original_qty od = filled_qty od")
    case True
    with assms(3) show ?thesis by (simp add: exposure_step_def exposure_view_def c remaining_qty_def i32_def int32_def)
  qed (simp add: exposure_step_def exposure_view_def c remaining_qty_def)
qed

lemma open_exposure_seen:
  assumes "om_count om \<le> length (om_slots om)" "\<forall>od \<in> set (take (om_count om) (om_slots om)). length (o_symbol od) = 8"
    and "readable 8 (sv_data symb)"
  shows "open_exposure om symb = foldm (exposure_piece (sv_data symb)) (seen exposure_view (om_slots om) (om_count om)) 0"
proof -
  have "open_exposure om symb = foldm (exposure_step (sv_data symb)) (take (om_count om) (om_slots om)) 0"
    unfolding open_exposure_def exposure_step_def [symmetric]
    using foldm_indices [of "om_count om" "om_slots om" "exposure_step (sv_data symb)" 0] assms(1) by simp
  also have "\<dots> = foldm (exposure_piece (sv_data symb)) (seen exposure_view (om_slots om) (om_count om)) 0"
    by (rule foldm_seen [where P = int32])
      (use assms(2,3) exposure_step_view in \<open>auto simp: int32_def Option.bind_eq_Some_conv split: if_splits\<close>)
  finally show ?thesis .
qed

lemma exposure_view_updates [simp]:
  "exposure_view (od\<lparr>avg_fill_price := a\<rparr>) = exposure_view od" "exposure_view (od\<lparr>last_seq := c\<rparr>) = exposure_view od"
  "exposure_view (od\<lparr>limit_price := a\<rparr>) = exposure_view od" "exposure_view (od\<lparr>opened_seq := c\<rparr>) = exposure_view od"
  by (simp_all add: exposure_view_def is_open_def)

lemma known_cut_exposure:
  assumes "etype e \<noteq> NewOrder" "known_stores e od = Some ss" "run_stores (take n ss) od = Some x" "run_stores ss od = Some y"
    and fits: "is_fill e \<Longrightarrow> is_open od \<Longrightarrow> fill_qty e \<le> original_qty od - filled_qty od"
  shows "exposure_view x = exposure_view od \<or> exposure_view x = exposure_view y"
proof -
  from assms(2,1) have "at_cuts (\<lambda>n x. exposure_view x = exposure_view od \<or> exposure_view x = exposure_view y) ss od"
  proof (cases rule: known_stores_cases)
    case (fill avg)
    let ?q = "filled_qty od + fill_qty e"
    from fill(2) assms(4) have y: "y = od\<lparr>avg_fill_price := avg, filled_qty := ?q, last_seq := sequence e,
        o_state := (if original_qty od - ?q \<le> 0 then Filled else PartiallyFilled)\<rparr>"
      by (auto simp: fill_writes_def remaining_qty_def Option.bind_eq_Some_conv)
    have v: "exposure_view (od\<lparr>avg_fill_price := avg, filled_qty := ?q\<rparr>) =
        (if is_open od \<and> original_qty od \<noteq> ?q then [(o_symbol od, o_side od = Buy, original_qty od - ?q)] else [])"
      "exposure_view y = (if original_qty od - ?q > 0 then [(o_symbol od, o_side od = Buy, original_qty od - ?q)] else [])"
      by (simp_all add: y exposure_view_def is_open_def)
    have "exposure_view (od\<lparr>avg_fill_price := avg, filled_qty := ?q\<rparr>) \<in> {exposure_view od, exposure_view y}"
      unfolding v using fits [OF fill(1)] by (cases "is_open od") (auto simp: exposure_view_def)
    then show ?thesis using assms(4) fill(2) by (auto simp: fill_writes_def)
  next
    case (state st)
    with assms(4) show ?thesis by (auto simp: state_stores_def exposure_view_def is_open_def)
  next
    case amend
    with assms(4) show ?thesis
      by (cases "qty e > 0"; cases "price e > 0") (auto simp: amend_stores_def)
  qed simp
  then show ?thesis using assms(3) by (rule at_cutsD)
qed

lemma reused_cut_exposure:
  assumes "etype e = NewOrder" "known_stores e od = Some ss" "run_stores (take n ss) od = Some x" "run_stores ss od = Some y"
    and "n = 0 \<or> 5 < n"
  shows "exposure_view x = exposure_view od \<or> exposure_view x = exposure_view y"
proof -
  have ss: "ss = new_stores e" using assms(1,2) by (simp add: known_stores_def)
  obtain s where s: "strncpy (symbol e) 8 = Some s" and y: "y = od\<lparr>o_symbol := s, o_state := Pending, o_side := side e,
      limit_price := price e, original_qty := qty e, filled_qty := 0, avg_fill_price := 0, opened_seq := sequence e,
      last_seq := sequence e\<rparr>"
    using assms(4) unfolding ss by (auto simp: new_stores_def Option.bind_eq_Some_conv)
  have "at_cuts (\<lambda>n x. n = 0 \<or> 5 < n \<longrightarrow> exposure_view x = exposure_view od \<or> exposure_view x = exposure_view y) ss od"
    unfolding ss y new_stores_def by (simp add: s)
  then show ?thesis using assms(3,5) unfolding at_cuts_def by blast
qed

text \<open>In between, the reader takes the quantities of the old order for the new symbol and side: with 100 left to
  buy and a new order to sell, 100 to sell.\<close>

lemma reused_cut_mixed_exposure:
  assumes "event_ok e" "run_stores (take 3 (new_stores e)) od = Some x" "original_qty od \<noteq> filled_qty od"
  shows "exposure_view x = [(pad_name 8 (event_symbol e), side e = Buy, original_qty od - filled_qty od)]"
  using assms(2,3) event_okD(5) [OF assms(1)]
  by (auto simp: new_stores_def eval_nat_numeral strncpy_eq exposure_view_def is_open_def event_symbol_def)

lemma created_cut_exposure:
  assumes "event_ok e" "run_stores (take n (create_stores (order_id e) @ new_stores e)) zero_order = Some x"
  shows "exposure_view x = (if n < 7 then [] else exposure_view (opened_order e))"
proof -
  have "at_cuts (\<lambda>n x. exposure_view x = (if n < 7 then [] else exposure_view (opened_order e)))
      (create_stores (order_id e) @ new_stores e) zero_order"
    using event_okD(5,6) [OF assms(1)]
    by (simp add: create_stores_def new_stores_def strncpy_eq exposure_view_def is_open_def opened_order_def
        zero_order_def event_oid_def event_symbol_def eval_nat_numeral)
  then show ?thesis using assms(2) by (rule at_cutsD)
qed

text \<open>The symbols of the slots keep their eight bytes.\<close>

lemma known_cut_symbol:
  assumes "event_ok e" "known_stores e od = Some ss" "run_stores (take n ss) od = Some x" "length (o_symbol od) = 8"
  shows "length (o_symbol x) = 8"
proof -
  have "at_cuts (\<lambda>n x. length (o_symbol x) = 8) ss od"
  proof (cases "etype e = NewOrder")
    case True
    with assms(2,4) event_okD(5) [OF assms(1)] show ?thesis
      by (auto simp: known_stores_def new_stores_def strncpy_eq length_pad_name length_cstr)
  next
    case False
    from assms(2) False show ?thesis
      by (cases rule: known_stores_cases)
        (use assms(4) in \<open>auto simp: fill_writes_def state_stores_def amend_stores_def Option.bind_eq_Some_conv\<close>)
  qed
  then show ?thesis using assms(3) by (rule at_cutsD)
qed

lemma created_cut_symbol:
  assumes "event_ok e" "run_stores (take n (create_stores (order_id e) @ new_stores e)) zero_order = Some x"
  shows "length (o_symbol x) = 8"
proof -
  have "at_cuts (\<lambda>n x. length (o_symbol x) = 8) (create_stores (order_id e) @ new_stores e) zero_order"
    using event_okD(5,6) [OF assms(1)]
    by (simp add: create_stores_def new_stores_def strncpy_eq zero_order_def length_pad_name length_cstr)
  then show ?thesis using assms(2) by (rule at_cutsD)
qed

section \<open>Cuts of the whole table\<close>

text \<open>The slots that are not in use are zero: nothing writes to them before \<open>count_\<close> includes them.\<close>

definition om_free :: "order_manager \<Rightarrow> bool" where
  "om_free om \<longleftrightarrow> (\<forall>i. om_count om \<le> i \<longrightarrow> i < length (om_slots om) \<longrightarrow> om_slots om ! i = zero_order)"

lemma om_free_new: "om_free new_order_manager"
  by (simp add: om_free_def new_order_manager_def)

text \<open>A new order under an id of the table overwrites the slot of the earlier order.\<close>

definition reuses_id :: "order_event \<Rightarrow> order_manager \<Rightarrow> bool" where
  "reuses_id e om \<longleftrightarrow> etype e = NewOrder \<and> om_map om (event_oid e) \<noteq> None"

definition fill_fits :: "order_event \<Rightarrow> order_manager \<Rightarrow> bool" where
  "fill_fits e om \<longleftrightarrow>
     (case om_map om (event_oid e) of
        None \<Rightarrow> True
      | Some od \<Rightarrow> is_fill e \<and> is_open od \<longrightarrow> fill_qty e \<le> original_qty od - filled_qty od)"

lemma om_cut_cases:
  assumes ok: "om_ok om" "event_ok e" and free: "om_free om"
    and cut: "om_cut e om n = Some omi" and all: "om_apply_event e om = Some om'"
  obtains (same) "omi = om"
    | (known) i ss x y where "i < om_count om" "om_count om \<le> length (om_slots om)" "etype e = NewOrder \<longleftrightarrow> reuses_id e om"
        "om_map om (event_oid e) = Some (om_slots om ! i)"
        "known_stores e (om_slots om ! i) = Some ss" "run_stores (take n ss) (om_slots om ! i) = Some x"
        "run_stores ss (om_slots om ! i) = Some y"
        "omi = om\<lparr>om_slots := (om_slots om)[i := x]\<rparr>" "om' = om\<lparr>om_slots := (om_slots om)[i := y]\<rparr>"
    | (created) m x where "n = Suc m" "etype e = NewOrder" "\<not> reuses_id e om" "om_count om < length (om_slots om)"
        "run_stores (take m (create_stores (order_id e) @ new_stores e)) zero_order = Some x"
        "omi = om\<lparr>om_count := Suc (om_count om), om_slots := (om_slots om)[om_count om := x]\<rparr>"
        "om' = om\<lparr>om_count := Suc (om_count om), om_slots := (om_slots om)[om_count om := opened_order e]\<rparr>"
  using ok
proof (cases rule: om_find_cases)
  case (hit i)
  note cut = cut [unfolded om_cut_found [OF hit(1,3)]] and all = all [unfolded om_apply_event_found [OF hit(1,3)] run_known_stores [symmetric]]
  from cut all obtain ss x y where "known_stores e (om_slots om ! i) = Some ss" "run_stores (take n ss) (om_slots om ! i) = Some x"
      "run_stores ss (om_slots om ! i) = Some y" "omi = om\<lparr>om_slots := (om_slots om)[i := x]\<rparr>"
      "om' = om\<lparr>om_slots := (om_slots om)[i := y]\<rparr>"
    by (auto simp: Option.bind_eq_Some_conv)
  moreover have "etype e = NewOrder \<longleftrightarrow> reuses_id e om" using hit(4) by (simp add: reuses_id_def)
  ultimately show thesis using known hit(2-4) om_okD(3,4) [OF ok(1)] by auto
next
  case miss
  show thesis
  proof (cases "etype e = NewOrder \<and> om_count om < MAX_ORDERS")
    case False
    with om_apply_event_unknown [OF miss(1)] cut same show thesis by (simp add: om_cut_def)
  next
    case True
    have len: "om_count om < length (om_slots om)" using True om_okD(4) [OF ok(1)] by simp
    have z: "om_slots om ! om_count om = zero_order" using free len by (simp add: om_free_def)
    note c = om_cut_created [OF miss(1) _ _ len, unfolded z] and a = om_apply_event_created [OF miss(1) _ _ len ok(2)]
    show thesis
    proof (cases n)
      case 0
      with c(1) cut True same show thesis by simp
    next
      case (Suc m)
      have "\<not> reuses_id e om" using miss(2) by (simp add: reuses_id_def)
      with Suc c(2) [of m] cut a all True len created [of m] show thesis by (auto simp: Option.bind_eq_Some_conv)
    qed
  qed
qed

lemma om_free_apply:
  assumes "om_ok om" "event_ok e" "om_free om" "om_apply_event e om = Some om'"
  shows "om_free om'"
  using assms(1,2)
proof (cases rule: om_find_cases)
  case (hit i)
  with assms(3,4) om_apply_event_found [OF hit(1,3)] show ?thesis by (auto simp: om_free_def nth_list_update)
next
  case miss
  show ?thesis
  proof (cases "etype e = NewOrder \<and> om_count om < MAX_ORDERS")
    case False
    with om_apply_event_unknown(1) [OF miss(1)] assms(3,4) show ?thesis by simp
  next
    case True
    then have "om_count om < length (om_slots om)" using om_okD(4) [OF assms(1)] by simp
    with True om_apply_event_created [OF miss(1) _ _ _ assms(2)] assms(3,4) show ?thesis by (auto simp: om_free_def)
  qed
qed

lemma om_cut_cancel_all:
  assumes "om_ok om" "event_ok e" "om_free om" "om_cut e om n = Some omi" "om_apply_event e om = Some om'"
    and "\<not> (etype e = NewOrder \<and> \<not> reuses_id e om \<and> side e = Buy \<and> n = 5)" "\<not> (reuses_id e om \<and> (n = 1 \<or> n = 2))"
  shows "cancel_all send ks pre omi = cancel_all send ks pre om \<or> cancel_all send ks pre omi = cancel_all send ks pre om'"
  using assms(1-5)
proof (cases rule: om_cut_cases)
  case same
  then show ?thesis by simp
next
  case (known i ss x y)
  have "cancel_view x = cancel_view (om_slots om ! i) \<or> cancel_view x = cancel_view y"
    using known_cut_cancel [OF _ known(5-7)] reused_cut_cancel [OF _ known(5-7)] known(3) assms(7) by blast
  with known show ?thesis
    using seen_same [of i "om_count om" "om_slots om" cancel_view x] seen_update [of i "om_count om" "om_slots om" cancel_view x y]
    by (auto simp: cancel_all_seen)
next
  case (created m x)
  have "cancel_view ((opened_order e)\<lparr>o_side := Side_other 0\<rparr>) = cancel_view (opened_order e)" if "side e \<noteq> Buy"
    using that by (simp add: cancel_view_def cancel_ref_def is_open_def opened_order_def)
  with created(1-3) assms(6) have "cancel_view x = [] \<or> cancel_view x = cancel_view (opened_order e)"
    using created_cut_cancel [OF assms(2) created(5)] by (auto split: if_splits)
  with created show ?thesis
    using seen_append [of "om_count om" "om_slots om" cancel_view] by (auto simp: cancel_all_seen)
qed

lemma om_cut_exposure:
  assumes "om_ok om" "event_ok e" "om_free om" "om_cut e om n = Some omi" "om_apply_event e om = Some om'"
    and fits: "fill_fits e om" and once: "\<not> (reuses_id e om \<and> 1 \<le> n \<and> n \<le> 5)" and r: "readable 8 (sv_data symb)"
  shows "open_exposure omi symb = open_exposure om symb \<or> open_exposure omi symb = open_exposure om' symb"
proof -
  have ok': "om_ok om'" by (rule om_apply_event_ok [OF assms(1,2,5)])
  have sym: "\<forall>od \<in> set (take (om_count t) (om_slots t)). length (o_symbol od) = 8" if "om_ok t" for t
    using om_slots_ok [OF that] by (auto simp: order_ok_def)
  note ex = open_exposure_seen [OF _ _ r] and lens = om_okD(3,4) [OF assms(1)] om_okD(3,4) [OF ok']
  show ?thesis
    using assms(1-5)
  proof (cases rule: om_cut_cases)
    case same
    then show ?thesis by simp
  next
    case (known i ss x y)
    have x: "length (o_symbol x) = 8"
      by (rule known_cut_symbol [OF assms(2) known(5,6)]) (use sym [OF assms(1)] known(1,2) in \<open>simp add: nth_mem_take\<close>)
    have "exposure_view x = exposure_view (om_slots om ! i) \<or> exposure_view x = exposure_view y"
    proof (cases "etype e = NewOrder")
      case True
      with known(3) once have "n = 0 \<or> 5 < n" by auto
      then show ?thesis by (rule reused_cut_exposure [OF True known(5-7)])
    next
      case False
      then show ?thesis by (rule known_cut_exposure [OF _ known(5-7)]) (use fits known(4) in \<open>simp add: fill_fits_def\<close>)
    qed
    moreover have "\<forall>od \<in> set (take (om_count om) ((om_slots om)[i := x])). length (o_symbol od) = 8"
      using x sym [OF assms(1)] by (auto simp: take_update_swap dest!: set_update_subset_insert [THEN subsetD])
    ultimately show ?thesis
      using seen_same [of i "om_count om" "om_slots om" exposure_view x] seen_update [of i "om_count om" "om_slots om" exposure_view x y]
        known sym [OF assms(1)] sym [OF ok'] lens by (auto simp: ex)
  next
    case (created m x)
    have x: "length (o_symbol x) = 8" by (rule created_cut_symbol [OF assms(2) created(5)])
    have "exposure_view x = [] \<or> exposure_view x = exposure_view (opened_order e)"
      using created_cut_exposure [OF assms(2) created(5)] by simp
    with created x sym [OF assms(1)] sym [OF ok'] lens show ?thesis
      using seen_append [of "om_count om" "om_slots om" exposure_view]
      by (auto simp: ex take_Suc_conv_app_nth)
  qed
qed

section \<open>Flattening inside an update\<close>

definition flatten_view :: "position \<Rightarrow> (char list \<times> int) list" where
  "flatten_view p = (if is_flat p then [] else [(p_symbol p, net_qty p)])"

definition flatten_piece :: "session_send \<Rightarrow> string \<Rightarrow> string \<Rightarrow> char list \<times> int \<Rightarrow> ks_run \<Rightarrow> ks_run option" where
  "flatten_piece send sid pre v = flatten_one send sid pre (zero_position\<lparr>p_symbol := fst v, net_qty := snd v\<rparr>)"

lemma flatten_one_view: "flatten_one send sid pre p r = foldm (flatten_piece send sid pre) (flatten_view p) r"
  by (simp add: flatten_view_def flatten_piece_def flatten_one_def is_flat_def flat_event_def)

lemma flatten_seen:
  assumes "pt_count pt \<le> length (pt_slots pt)"
  shows "flatten send ks pre pt =
    foldm (flatten_piece send (ks_session ks) pre) (seen flatten_view (pt_slots pt) (pt_count pt)) ks_start"
proof -
  let ?f = "flatten_one send (ks_session ks) pre"
  have "flatten send ks pre pt = foldm ?f (take (pt_count pt) (pt_slots pt)) ks_start"
    unfolding flatten_def pt_for_each_def using foldm_indices [of "pt_count pt" "pt_slots pt" ?f] assms by simp
  also have "\<dots> = foldm (flatten_piece send (ks_session ks) pre) (seen flatten_view (pt_slots pt) (pt_count pt)) ks_start"
    by (rule foldm_seen [where P = "\<lambda>_. True"]) (simp_all add: flatten_one_view)
  finally show ?thesis .
qed

lemma flatten_view_updates [simp]:
  "flatten_view (p\<lparr>total_buy_qty := a\<rparr>) = flatten_view p" "flatten_view (p\<lparr>total_sell_qty := a\<rparr>) = flatten_view p"
  "flatten_view (p\<lparr>avg_entry_price := a\<rparr>) = flatten_view p" "flatten_view (p\<lparr>realized_pnl := a\<rparr>) = flatten_view p"
  "flatten_view (p\<lparr>unrealized_pnl := a\<rparr>) = flatten_view p" "flatten_view (p\<lparr>last_updated_seq := a\<rparr>) = flatten_view p"
  "flatten_view (p\<lparr>net_qty := a\<rparr>) = (if a = 0 then [] else [(p_symbol p, a)])"
  by (simp_all add: flatten_view_def is_flat_def)

lemma flatten_view_refresh: "refresh_unrealized p = Some p' \<Longrightarrow> flatten_view p' = flatten_view p"
  by (auto simp: refresh_unrealized_Some)

lemma position_stores_cases:
  assumes "position_stores e p = Some ss"
  obtains f avg n where "ss = f # open_stores avg n @ end_stores (sequence e)"
      "\<And>p. \<exists>p'. f p = Some p' \<and> flatten_view p' = flatten_view p \<and> p_symbol p' = p_symbol p"
    | f r n b px where "ss = f # close_stores r n b px @ end_stores (sequence e)"
      "\<And>p. \<exists>p'. f p = Some p' \<and> flatten_view p' = flatten_view p \<and> p_symbol p' = p_symbol p"
  using assms
  by (auto simp: position_stores_def buy_stores_def sell_stores_def Let_def Option.bind_eq_Some_conv split: if_splits)

lemma position_cut_flatten:
  assumes ss: "position_stores e p = Some ss" and x: "run_stores (take n ss) p = Some x" and y: "run_stores ss p = Some y"
  shows "flatten_view x = flatten_view p \<or> flatten_view x = flatten_view y"
proof -
  let ?Q = "\<lambda>n x. flatten_view x = flatten_view p \<or> flatten_view x = flatten_view y"
  from ss have "at_cuts ?Q ss p"
  proof (cases rule: position_stores_cases)
    case (1 f avg n)
    obtain p1 where f: "f p = Some p1" "flatten_view p1 = flatten_view p" using 1(2) by blast
    with y 1(1) obtain p2 where "refresh_unrealized (p1\<lparr>avg_entry_price := avg, net_qty := n\<rparr>) = Some p2" "y = p2\<lparr>last_updated_seq := u64_to_i64 (sequence e)\<rparr>"
      by (auto simp: run_branch_stores Option.bind_eq_Some_conv)
    with f 1(1) show ?thesis
      by (auto simp: open_stores_def end_stores_def dest!: flatten_view_refresh)
  next
    case (2 f r n b px)
    obtain p1 where f: "f p = Some p1" "flatten_view p1 = flatten_view p" using 2(2) by blast
    define p3 where "p3 = (if b then p1\<lparr>realized_pnl := r, net_qty := n, avg_entry_price := px\<rparr>
       else if n = 0 then p1\<lparr>realized_pnl := r, net_qty := n, avg_entry_price := 0\<rparr> else p1\<lparr>realized_pnl := r, net_qty := n\<rparr>)"
    from f y 2(1) obtain p2 where p2: "refresh_unrealized p3 = Some p2" "y = p2\<lparr>last_updated_seq := u64_to_i64 (sequence e)\<rparr>"
      by (auto simp: run_branch_stores p3_def [symmetric] Option.bind_eq_Some_conv)
    have "flatten_view p3 = flatten_view (p1\<lparr>net_qty := n\<rparr>)" by (simp add: p3_def)
    with p2 flatten_view_refresh [OF p2(1)] f 2(1) show ?thesis
      by (cases b; cases "n = 0") (auto simp: close_stores_def end_stores_def p3_def dest!: flatten_view_refresh)
  qed
  then show ?thesis using x by (rule at_cutsD)
qed

lemma created_cut_flatten:
  assumes e: "event_ok e" and ss: "position_stores e (fresh_position (event_symbol e)) = Some ss"
    and x: "run_stores (take n (pt_create_stores (symbol e) @ ss)) zero_position = Some x"
    and y: "run_stores ss (fresh_position (event_symbol e)) = Some y"
  shows "flatten_view x = [] \<or> flatten_view x = flatten_view y"
proof -
  let ?p = "fresh_position (event_symbol e)" and ?Q = "\<lambda>x. flatten_view x = [] \<or> flatten_view x = flatten_view y"
  have z: "flatten_view zero_position = []" "flatten_view ?p = []"
    by (simp_all add: flatten_view_def is_flat_def zero_position_def fresh_position_def)
  have "at_cuts (\<lambda>n. ?Q) ss ?p"
    unfolding at_cuts_def using position_cut_flatten [OF ss _ y] z(2) by metis
  with z event_okD(5) [OF e] have "at_cuts (\<lambda>n. ?Q) (pt_create_stores (symbol e) @ ss) zero_position"
    by (simp add: pt_create_stores_def strncpy_eq fresh_position_def event_symbol_def)
  then show ?thesis using x by (rule at_cutsD)
qed

definition pt_free :: "position_tracker \<Rightarrow> bool" where
  "pt_free pt \<longleftrightarrow> (\<forall>i. pt_count pt \<le> i \<longrightarrow> i < length (pt_slots pt) \<longrightarrow> pt_slots pt ! i = zero_position)"

lemma pt_free_new: "pt_free new_position_tracker"
  by (simp add: pt_free_def new_position_tracker_def)

lemma pt_cut_flatten:
  assumes ok: "pt_ok pt" "event_ok e" and free: "pt_free pt"
    and cut: "pt_cut e pt n = Some pti" and all: "pt_apply_event e pt = Some pt'"
  shows "flatten send ks pre pti = flatten send ks pre pt \<or> flatten send ks pre pti = flatten send ks pre pt'"
proof (cases "is_fill e")
  case fill: True
  note lens = pt_okD(3,4) [OF ok(1)]
  show ?thesis
    using ok
  proof (cases rule: pt_find_cases)
    case (hit i)
    from cut all obtain ss x y where c: "position_stores e (pt_slots pt ! i) = Some ss"
        "run_stores (take n ss) (pt_slots pt ! i) = Some x" "run_stores ss (pt_slots pt ! i) = Some y"
        "pti = pt\<lparr>pt_slots := (pt_slots pt)[i := x]\<rparr>" "pt' = pt\<lparr>pt_slots := (pt_slots pt)[i := y]\<rparr>"
      using run_position_stores [of e "pt_slots pt ! i"]
      by (auto simp: pt_found [OF hit(1,3) fill] Option.bind_eq_Some_conv)
    from position_cut_flatten [OF c(1-3)] c hit(2) lens show ?thesis
      using seen_same [of i "pt_count pt" "pt_slots pt" flatten_view x] seen_update [of i "pt_count pt" "pt_slots pt" flatten_view x y]
      by (auto simp: flatten_seen)
  next
    case miss
    show ?thesis
    proof (cases "pt_count pt < MAX_SYMBOLS")
      case False
      with pt_unknown [OF miss(1)] cut show ?thesis by (simp add: pt_cut_def)
    next
      case True
      have len: "pt_count pt < length (pt_slots pt)" using True lens by simp
      have z: "pt_slots pt ! pt_count pt = zero_position" using free len by (simp add: pt_free_def)
      note c = pt_created [OF miss(1) True len fill ok(2), unfolded z]
      show ?thesis
      proof (cases n)
        case 0
        with c(3) cut show ?thesis by auto
      next
        case (Suc m)
        from cut all Suc obtain ss x y where d: "position_stores e (fresh_position (event_symbol e)) = Some ss"
            "run_stores (take m (pt_create_stores (symbol e) @ ss)) zero_position = Some x"
            "run_stores ss (fresh_position (event_symbol e)) = Some y"
            "pti = pt\<lparr>pt_count := Suc (pt_count pt), pt_slots := (pt_slots pt)[pt_count pt := x]\<rparr>"
            "pt' = pt\<lparr>pt_count := Suc (pt_count pt), pt_slots := (pt_slots pt)[pt_count pt := y]\<rparr>"
          using run_position_stores [of e "fresh_position (event_symbol e)"]
          by (auto simp: c(1,4) Option.bind_eq_Some_conv)
        from created_cut_flatten [OF ok(2) d(1-3)] d len show ?thesis
          using seen_append [of "pt_count pt" "pt_slots pt" flatten_view] by (auto simp: flatten_seen)
      qed
    qed
  qed
qed (use cut in \<open>simp add: pt_cut_def pt_stores_def\<close>)

lemma pt_free_apply:
  assumes "pt_ok pt" "event_ok e" "pt_free pt" "pt_apply_event e pt = Some pt'"
  shows "pt_free pt'"
proof (cases "is_fill e")
  case fill: True
  show ?thesis
    using assms(1,2)
  proof (cases rule: pt_find_cases)
    case (hit i)
    with assms(3,4) pt_found(1) [OF hit(1,3) fill] show ?thesis by (auto simp: pt_free_def nth_list_update)
  next
    case miss
    show ?thesis
    proof (cases "pt_count pt < MAX_SYMBOLS")
      case False
      with pt_unknown(1) [OF miss(1)] assms(3,4) show ?thesis by simp
    next
      case True
      then have "pt_count pt < length (pt_slots pt)" using pt_okD(4) [OF assms(1)] by simp
      from pt_created(1) [OF miss(1) True this fill assms(2)] assms(4) obtain p where
        "pt' = pt\<lparr>pt_count := Suc (pt_count pt), pt_slots := (pt_slots pt)[pt_count pt := p]\<rparr>"
        by (auto simp: map_option_case split: option.splits)
      with assms(3) show ?thesis by (auto simp: pt_free_def)
    qed
  qed
qed (use assms in \<open>simp add: pt_apply_event_def\<close>)

text \<open>The other fields of a position are not in step at every cut: after the first store of a fill the net
  quantity is no longer what was bought minus what was sold, which holds for every position at rest.\<close>

lemma torn_position:
  assumes "pt_ok pt" "event_ok e" "is_fill e" "pt_map pt (event_symbol e) = Some p" "fill_qty e \<noteq> 0"
    and "pt_apply_event e pt = Some pt'"
  shows "\<exists>pti p1. pt_cut e pt 1 = Some pti \<and> p1 \<in> set (take (pt_count pti) (pt_slots pti)) \<and>
    net_qty p1 \<noteq> total_buy_qty p1 - total_sell_qty p1"
  using assms(1,2)
proof (cases rule: pt_find_cases)
  case (hit i)
  have p: "net_qty p = total_buy_qty p - total_sell_qty p" "pt_slots pt ! i = p"
    using pt_okD(2) [OF assms(1,4)] hit(4) assms(4) by (simp_all add: position_ok_def)
  obtain ss where ss: "position_stores e p = Some ss"
    using assms(6) run_position_stores [of e p] by (cases "position_stores e p") (auto simp: pt_found(1) [OF hit(1,3) assms(3)] p(2))
  then have "\<exists>p1. run_stores (take 1 ss) p = Some p1 \<and> net_qty p1 \<noteq> total_buy_qty p1 - total_sell_qty p1"
    using p(1) assms(5)
    by (auto simp: position_stores_def buy_stores_def sell_stores_def Let_def Option.bind_eq_Some_conv split: if_splits)
  then obtain p1 where p1: "run_stores (take 1 ss) p = Some p1" "net_qty p1 \<noteq> total_buy_qty p1 - total_sell_qty p1" by blast
  have "p1 \<in> set (take (pt_count pt) ((pt_slots pt)[i := p1]))"
    using hit(2,3) pt_okD(3,4) [OF assms(1)] nth_mem_take [of i "pt_count pt" "(pt_slots pt)[i := p1]"] by simp
  with p1 ss p(2) show ?thesis by (auto simp: pt_found(3) [OF hit(1,3) assms(3)])
qed (use assms(4) in simp)

section \<open>Reachable gateways\<close>

definition tables_free :: "gateway \<Rightarrow> bool" where
  "tables_free g \<longleftrightarrow> om_free (g_orders g) \<and> pt_free (g_tracker g)"

lemma gw_step_free:
  assumes "gw_step api send g g'" "gw_ok g" "tables_free g"
  shows "tables_free g'"
  using assms
proof (induction rule: gw_step.induct)
  case (report ts r g g')
  from report.hyps show ?case
  proof (cases rule: onMessage_cases)
    case ack
    with report.prems show ?thesis by simp
  next
    case (booked evt lg sq pt om)
    note e = from_execution_report_ok(1) [OF booked(1)]
    from booked report.prems om_free_apply [OF _ e _ booked(4)] pt_free_apply [OF _ e _ booked(3)] show ?thesis
      by (simp add: tables_free_def gw_ok_def)
  qed
next
  case (order ts symb sd q px g g' ms res)
  from order.hyps(1) show ?case
  proof (cases rule: send_order_cases)
    case (booked evt lg sq om)
    have e: "event_ok evt" using make_new_order_fields(10) [OF booked(3)] order.hyps by simp
    from booked order.prems om_free_apply [OF _ e _ booked(5)] show ?thesis by (simp add: tables_free_def gw_ok_def)
  qed (use order.prems in \<open>simp_all add: tables_free_def\<close>)
qed (simp_all add: tables_free_def onCreate_def onLogon_def onLogout_def)

lemma om_run_free:
  assumes "foldm om_apply_event es om = Some om'" "om_ok om" "om_free om" "\<forall>e \<in> set es. event_ok e"
  shows "om_free om'"
proof -
  have "om_ok om' \<and> om_free om'"
    by (rule foldm_invariant [where P = "\<lambda>om. om_ok om \<and> om_free om", OF assms(1)])
      (use assms(2-4) om_apply_event_ok om_free_apply in blast)+
  then show ?thesis ..
qed

lemma pt_run_free:
  assumes "foldm pt_apply_event es pt = Some pt'" "pt_ok pt" "pt_free pt" "\<forall>e \<in> set es. event_ok e"
  shows "pt_free pt'"
proof -
  have "pt_ok pt' \<and> pt_free pt'"
    by (rule foldm_invariant [where P = "\<lambda>pt. pt_ok pt \<and> pt_free pt", OF assms(1)])
      (use assms(2-4) pt_apply_event_spec(2) pt_free_apply in blast)+
  then show ?thesis ..
qed

lemma reachable_free: "reachable api send g \<Longrightarrow> tables_free g"
proof (induction rule: reachable.induct)
  case (fresh os entry g)
  from startup_new(1) [OF this] show ?case by (simp add: tables_free_def new_gateway_def om_free_new pt_free_new)
next
  case (call g g')
  then show ?case using gw_step_free reachable_gw_ok by blast
next
  case (restarted g os entry g')
  have lg: "log_ok (g_log g)" "\<forall>e \<in> set (log_events (g_log g)). event_ok e"
    using reachable_gw_ok [OF restarted.hyps(1)] by (simp_all add: gw_ok_def)
  have os: "open_ok os" "mmap_ok os" using startup_Inr_ok [OF restarted.hyps(2)] by simp_all
  from restarted.hyps(2) obtain pt om where f: "foldm pt_apply_event (log_events (g_log g)) new_position_tracker = Some pt"
      "foldm om_apply_event (log_events (g_log g)) new_order_manager = Some om"
      "g' = new_gateway (g_log g) pt om (new_risk_checker default_limits)"
    by (auto simp: startup_def reopen_closed [OF lg(1) os] pt_replay_foldm om_replay_foldm lg Option.bind_eq_Some_conv)
  then show ?case
    using om_run_free [OF f(2)] pt_run_free [OF f(1)] lg(2) om_free_new pt_free_new
    by (simp add: tables_free_def new_gateway_def)
qed

section \<open>Properties\<close>

text \<open>The handler of a signal on a gateway whose order table is \<open>om\<close>.\<close>

lemma signal_handler_table:
  assumes "cancel_all send (new_killswitch (session_id g)) ''KS'' omi = cancel_all send (new_killswitch (session_id g)) ''KS'' om"
    and "om_ok om" "0 \<le> t0" "t0 \<le> t1" "int64 t1"
  shows "\<exists>r. signal_handler send t0 t1 \<lparr>g_shutdown = b, g_gateway = Some (g\<lparr>g_orders := omi\<rparr>)\<rparr> =
      Some (\<lparr>g_shutdown = True, g_gateway = Some (g\<lparr>g_orders := omi\<rparr>)\<rparr>, Some r) \<and>
    ks_sent r = map (\<lambda>(i, od). cancel_request ''KS'' i od) (enumerate 0 (open_orders om))"
proof -
  obtain r where r: "cancel_all send (new_killswitch (session_id g)) ''KS'' om = Some r"
      "ks_sent r = map (\<lambda>(i, od). cancel_request ''KS'' i od) (enumerate 0 (open_orders om))"
    using cancel_all_sends [OF assms(2)] by blast
  have "int64 (t1 - t0)" using assms(3-5) by (simp add: int64_def)
  with r assms(1) show ?thesis
    by (simp add: signal_handler_def emergency_cancel_all_def execute_def Let_def i64_def)
qed

text \<open>A first order on the sample gateway.\<close>

lemma sample_new_books:
  obtains om' where "om_apply_event (sample_new ''O1'' ''AAPL'' Buy 100 175) (g_orders sample_gateway) = Some om'"
    "event_ok (sample_new ''O1'' ''AAPL'' Buy 100 175)" "etype (sample_new ''O1'' ''AAPL'' Buy 100 175) = NewOrder"
    "side (sample_new ''O1'' ''AAPL'' Buy 100 175) = Buy"
    "\<not> reuses_id (sample_new ''O1'' ''AAPL'' Buy 100 175) (g_orders sample_gateway)"
    "fill_fits (sample_new ''O1'' ''AAPL'' Buy 100 175) (g_orders sample_gateway)"
    "om_map (g_orders sample_gateway) (event_oid (sample_new ''O1'' ''AAPL'' Buy 100 175)) = None"
    "order_count (g_orders sample_gateway) < MAX_ORDERS"
proof -
  let ?e = "sample_new ''O1'' ''AAPL'' Buy 100 175"
  have g: "g_orders sample_gateway = new_order_manager" by (simp add: sample_gateway_def new_gateway_def onLogon_def onCreate_def)
  have e: "event_ok ?e" "etype ?e = NewOrder" "event_oid ?e = ''O1''" "side ?e = Buy" by code_simp+
  have "om_spec ?e (om_map new_order_manager) = Some [''O1'' \<mapsto> opened_order ?e]"
    by (simp add: om_spec_def e(2,3) MAX_ORDERS_def)
  then obtain om' where "om_apply_event ?e (g_orders sample_gateway) = Some om'"
    using om_apply_event_obtain [OF om_ok_new(1) e(1)] g by metis
  moreover have "order_count (g_orders sample_gateway) < MAX_ORDERS" unfolding g by code_simp
  ultimately show thesis using that e by (simp add: reuses_id_def fill_fits_def g)
qed

text \<open>C18. An emergency cancel inside an update of the order table sees the orders from before or from
  after the update: whatever event a thread is applying (the update defined) when a signal interrupts it,
  after \<open>n\<close> of its stores, the handler requests the cancel of exactly the orders open before the event or of
  exactly those open after it. There are two exceptions, in each of which the side is stored too late: a new buy
  order in a free slot after its fifth store (\<open>interrupted_new_order_wrong_side\<close> says what happens), and a new
  order under an id of the table after its first two (symbol and state, \<open>reused_cut_mixed\<close>).\<close>

theorem interrupted_cancel_all:
  assumes "reachable api send g" "event_ok e" "om_apply_event e (g_orders g) = Some om'"
    and "\<not> (etype e = NewOrder \<and> \<not> reuses_id e (g_orders g) \<and> side e = Buy \<and> n = 5)"
    and "\<not> (reuses_id e (g_orders g) \<and> (n = 1 \<or> n = 2))" "0 \<le> t0" "t0 \<le> t1" "int64 t1"
  shows "\<exists>omi r om. om_cut e (g_orders g) n = Some omi \<and>
    signal_handler send t0 t1 \<lparr>g_shutdown = b, g_gateway = Some (g\<lparr>g_orders := omi\<rparr>)\<rparr> =
      Some (\<lparr>g_shutdown = True, g_gateway = Some (g\<lparr>g_orders := omi\<rparr>)\<rparr>, Some r) \<and>
    (om = g_orders g \<or> om = om') \<and>
    ks_sent r = map (\<lambda>(i, od). cancel_request ''KS'' i od) (enumerate 0 (open_orders om))"
proof -
  have ok: "om_ok (g_orders g)" "om_free (g_orders g)"
    using reachable_gw_ok [OF assms(1)] reachable_free [OF assms(1)] by (simp_all add: gw_ok_def tables_free_def)
  have ok': "om_ok om'" by (rule om_apply_event_ok [OF ok(1) assms(2,3)])
  obtain omi where omi: "om_cut e (g_orders g) n = Some omi" using om_cut_defined [OF ok(1) assms(2,3)] by blast
  from om_cut_cancel_all [OF ok(1) assms(2) ok(2) omi assms(3-5)] show ?thesis
    using signal_handler_table [OF _ ok(1) assms(6-8)] signal_handler_table [OF _ ok' assms(6-8)] omi by blast
qed

theorem interrupted_cancel_all_witness:
  "\<exists>omi r. om_cut (sample_new ''O1'' ''AAPL'' Buy 100 175) (g_orders sample_gateway) 8 = Some omi \<and>
    signal_handler (\<lambda>s m. Send_Returned True) 0 5 \<lparr>g_shutdown = False, g_gateway = Some (sample_gateway\<lparr>g_orders := omi\<rparr>)\<rparr> =
      Some (\<lparr>g_shutdown = True, g_gateway = Some (sample_gateway\<lparr>g_orders := omi\<rparr>)\<rparr>, Some r)"
proof -
  let ?e = "sample_new ''O1'' ''AAPL'' Buy 100 175" and ?send = "\<lambda>s m. Send_Returned True"
  obtain om' where a: "om_apply_event ?e (g_orders sample_gateway) = Some om'" and e: "event_ok ?e" "etype ?e = NewOrder" "side ?e = Buy"
    and f: "\<not> reuses_id ?e (g_orders sample_gateway)" "fill_fits ?e (g_orders sample_gateway)" "om_map (g_orders sample_gateway) (event_oid ?e) = None"
      "order_count (g_orders sample_gateway) < MAX_ORDERS"
    by (rule sample_new_books)
  have n: "\<not> (etype ?e = NewOrder \<and> \<not> reuses_id ?e (g_orders sample_gateway) \<and> side ?e = Buy \<and> 8 = (5 :: nat))"
      "\<not> (reuses_id ?e (g_orders sample_gateway) \<and> (8 = (1 :: nat) \<or> 8 = (2 :: nat)))" "(0 :: int) \<le> 5" "int64 5"
    by (simp_all add: int64_def)
  from interrupted_cancel_all [OF sample_reachable [of sample_api ?send] e(1) a n(1,2) order_refl n(3,4)]
  show ?thesis by blast
qed

text \<open>C38. The exception: a new buy order interrupted after its fifth store is open but has no side yet, and
  the cancel request for it goes out for the sell side.\<close>

theorem interrupted_new_order_wrong_side:
  assumes "reachable api send g" "event_ok e" "etype e = NewOrder" "side e = Buy"
    and "om_map (g_orders g) (event_oid e) = None" "order_count (g_orders g) < MAX_ORDERS"
    and "0 \<le> t0" "t0 \<le> t1" "int64 t1"
  shows "\<exists>omi r m. om_cut e (g_orders g) 5 = Some omi \<and>
    signal_handler send t0 t1 \<lparr>g_shutdown = b, g_gateway = Some (g\<lparr>g_orders := omi\<rparr>)\<rparr> =
      Some (\<lparr>g_shutdown = True, g_gateway = Some (g\<lparr>g_orders := omi\<rparr>)\<rparr>, Some r) \<and>
    ks_sent r = map (\<lambda>(i, od). cancel_request ''KS'' i od) (enumerate 0 (open_orders (g_orders g))) @ [m] \<and>
    msg_fields m 41 = Some (F_String (event_oid e)) \<and> msg_fields m 54 = Some (F_Char CHR ''2'')"
proof -
  let ?om = "g_orders g" and ?e = "e\<lparr>side := Side_other 0, price := 0, qty := 0, sequence := 0\<rparr>"
  have ok: "om_ok ?om" "om_free ?om"
    using reachable_gw_ok [OF assms(1)] reachable_free [OF assms(1)] by (simp_all add: gw_ok_def tables_free_def)
  have e': "event_ok ?e" "order_id_view ?e = order_id_view e" "etype ?e = NewOrder"
    using assms(2,3) by (simp_all add: event_ok_def order_id_view_def int32_def int64_def)
  have find: "om_find ?om (order_id_view e) = Some None"
    using ok(1) assms(2) by (cases rule: om_find_cases) (simp_all add: assms(5))
  have c: "om_count ?om < MAX_ORDERS" "om_count ?om < length (om_slots ?om)"
    using assms(6) om_okD(4) [OF ok(1)] by (simp_all add: order_count_def)
  have z: "om_slots ?om ! om_count ?om = zero_order" using ok(2) c(2) by (simp add: om_free_def)
  let ?omi = "?om\<lparr>om_count := Suc (om_count ?om), om_slots := (om_slots ?om)[om_count ?om := opened_order ?e]\<rparr>"
  have "run_stores (take 4 (create_stores (order_id e) @ new_stores e)) zero_order = Some (opened_order ?e)"
    using event_okD(5,6) [OF assms(2)]
    by (simp add: create_stores_def new_stores_def strncpy_eq opened_order_def zero_order_def event_oid_def event_symbol_def
        eval_nat_numeral)
  then have cut: "om_cut e ?om 5 = Some ?omi"
    using om_cut_created(2) [OF find assms(3) c, of 4] z by simp
  have "om_apply_event ?e ?om = Some ?omi"
    using om_apply_event_created [of ?om ?e] find e' c by simp
  then have oki: "om_ok ?omi" by (rule om_apply_event_ok [OF ok(1) e'(1)])
  have "open_orders ?omi = open_orders ?om @ [opened_order ?e]"
    using c(2) by (simp add: open_orders_def take_Suc_conv_app_nth is_open_def opened_order_def)
  with cut signal_handler_table [OF refl oki assms(7-9), where g = g and b = b and send = send] show ?thesis
    by (auto simp: enumerate_append_eq cancel_request_fields opened_order_def fix_side_def event_oid_def cstr_pad_name length_cstr)
qed

theorem interrupted_new_order_wrong_side_witness:
  "\<exists>omi r m. om_cut (sample_new ''O1'' ''AAPL'' Buy 100 175) (g_orders sample_gateway) 5 = Some omi \<and>
    signal_handler (\<lambda>s m. Send_Returned True) 0 5 \<lparr>g_shutdown = False, g_gateway = Some (sample_gateway\<lparr>g_orders := omi\<rparr>)\<rparr> =
      Some (\<lparr>g_shutdown = True, g_gateway = Some (sample_gateway\<lparr>g_orders := omi\<rparr>)\<rparr>, Some r) \<and>
    m \<in> set (ks_sent r) \<and> msg_fields m 54 = Some (F_Char CHR ''2'')"
proof -
  let ?e = "sample_new ''O1'' ''AAPL'' Buy 100 175" and ?send = "\<lambda>s m. Send_Returned True"
  obtain om' where a: "om_apply_event ?e (g_orders sample_gateway) = Some om'" and e: "event_ok ?e" "etype ?e = NewOrder" "side ?e = Buy"
    and f: "\<not> reuses_id ?e (g_orders sample_gateway)" "fill_fits ?e (g_orders sample_gateway)" "om_map (g_orders sample_gateway) (event_oid ?e) = None"
      "order_count (g_orders sample_gateway) < MAX_ORDERS"
    by (rule sample_new_books)
  have n: "(0 :: int) \<le> 5" "int64 5" by (simp_all add: int64_def)
  from interrupted_new_order_wrong_side [OF sample_reachable [of sample_api ?send] e f(3,4) order_refl n]
  show ?thesis by fastforce
qed

text \<open>C19. The open exposure is exact at the stores of an update: whatever new order, fill within the open
  quantity, cancel, reject or amendment is being booked (the update defined), a reader that interrupts it after
  \<open>n\<close> of its stores computes the exposure from before or from after the event. The exception is a new order
  under an id of the table, as the first orders after a restart are, after one to five of its stores: it takes
  over the slot member by member (\<open>reused_cut_mixed_exposure\<close>).\<close>

theorem interrupted_exposure:
  assumes "reachable api send g" "event_ok e" "\<not> (reuses_id e (g_orders g) \<and> 1 \<le> n \<and> n \<le> 5)" "fill_fits e (g_orders g)"
    and "om_apply_event e (g_orders g) = Some om'" "readable 8 (sv_data symb)"
  shows "\<exists>omi. om_cut e (g_orders g) n = Some omi \<and>
    (open_exposure omi symb = open_exposure (g_orders g) symb \<or> open_exposure omi symb = open_exposure om' symb)"
proof -
  have ok: "om_ok (g_orders g)" "om_free (g_orders g)"
    using reachable_gw_ok [OF assms(1)] reachable_free [OF assms(1)] by (simp_all add: gw_ok_def tables_free_def)
  obtain omi where omi: "om_cut e (g_orders g) n = Some omi" using om_cut_defined [OF ok(1) assms(2,5)] by blast
  with om_cut_exposure [OF ok(1) assms(2) ok(2) omi assms(5,4,3,6)] show ?thesis by blast
qed

theorem interrupted_exposure_witness:
  "\<exists>omi om'. om_cut (sample_new ''O1'' ''AAPL'' Buy 100 175) (g_orders sample_gateway) 8 = Some omi \<and>
    om_apply_event (sample_new ''O1'' ''AAPL'' Buy 100 175) (g_orders sample_gateway) = Some om' \<and>
    (open_exposure omi (sv_of ''AAPL'') = open_exposure (g_orders sample_gateway) (sv_of ''AAPL'') \<or>
     open_exposure omi (sv_of ''AAPL'') = open_exposure om' (sv_of ''AAPL''))"
proof -
  let ?e = "sample_new ''O1'' ''AAPL'' Buy 100 175" and ?send = "\<lambda>s m. Send_Returned True"
  obtain om' where a: "om_apply_event ?e (g_orders sample_gateway) = Some om'" and e: "event_ok ?e" "etype ?e = NewOrder" "side ?e = Buy"
    and f: "\<not> reuses_id ?e (g_orders sample_gateway)" "fill_fits ?e (g_orders sample_gateway)" "om_map (g_orders sample_gateway) (event_oid ?e) = None"
      "order_count (g_orders sample_gateway) < MAX_ORDERS"
    by (rule sample_new_books)
  have r: "readable 8 (sv_data (sv_of ''AAPL''))" by code_simp
  have n: "\<not> (reuses_id ?e (g_orders sample_gateway) \<and> 1 \<le> (8 :: nat) \<and> 8 \<le> (5 :: nat))" by simp
  from interrupted_exposure [OF sample_reachable [of sample_api ?send] e(1) n f(2) a r] a show ?thesis by blast
qed

text \<open>C28. Flattening inside an update of the position table closes the positions from before or from after
  the fill: the net quantity is stored once, and a new slot is flat until then.\<close>

theorem interrupted_flatten:
  assumes "reachable api send g" "event_ok e" "pt_apply_event e (g_tracker g) = Some pt'"
  shows "\<exists>pti. pt_cut e (g_tracker g) n = Some pti \<and>
    (flatten send ks pre pti = flatten send ks pre (g_tracker g) \<or> flatten send ks pre pti = flatten send ks pre pt')"
proof -
  have ok: "pt_ok (g_tracker g)" "pt_free (g_tracker g)"
    using reachable_gw_ok [OF assms(1)] reachable_free [OF assms(1)] by (simp_all add: gw_ok_def tables_free_def)
  obtain pti where pti: "pt_cut e (g_tracker g) n = Some pti" using pt_cut_defined [OF ok(1) assms(2,3)] by blast
  with pt_cut_flatten [OF ok(1) assms(2) ok(2) pti assms(3)] show ?thesis by blast
qed

theorem interrupted_flatten_witness:
  "\<exists>pti pt'. pt_cut (sample_fill ''O1'' ''AAPL'' Buy 40 100) (g_tracker sample_gateway) 5 = Some pti \<and>
    pt_apply_event (sample_fill ''O1'' ''AAPL'' Buy 40 100) (g_tracker sample_gateway) = Some pt' \<and>
    (flatten (\<lambda>s m. Send_Returned True) (new_killswitch ''S'') ''FL'' pti = flatten (\<lambda>s m. Send_Returned True) (new_killswitch ''S'') ''FL'' (g_tracker sample_gateway) \<or>
     flatten (\<lambda>s m. Send_Returned True) (new_killswitch ''S'') ''FL'' pti = flatten (\<lambda>s m. Send_Returned True) (new_killswitch ''S'') ''FL'' pt')"
proof -
  let ?e = "sample_fill ''O1'' ''AAPL'' Buy 40 100" and ?send = "\<lambda>s m. Send_Returned True"
  have g: "g_tracker sample_gateway = new_position_tracker" by (simp add: sample_gateway_def new_gateway_def onLogon_def onCreate_def)
  have e: "event_ok ?e" "is_fill ?e" "event_symbol ?e = ''AAPL''" "fill_position ?e (fresh_position ''AAPL'') \<noteq> None" by code_simp+
  have "pt_spec ?e (pt_map new_position_tracker) \<noteq> None"
    using e(2-4) by (simp add: pt_spec_def MAX_SYMBOLS_def)
  then obtain pt' where a: "pt_apply_event ?e (g_tracker sample_gateway) = Some pt'"
    using pt_apply_event_obtain [OF pt_ok_new(1) e(1)] g by fastforce
  from interrupted_flatten [OF sample_reachable [of sample_api ?send] e(1) a] a show ?thesis by blast
qed

end
