(* ===== verification/Concurrent_Booking.thy ===== *)
theory Concurrent_Booking
  imports Interrupted_Updates
begin

text \<open>
  The strategy thread books the order it sent in \<open>send_order\<close> while the I/O thread books a report in
  \<open>onMessage\<close>: both write to the order table, without a lock and with plain accesses. The file lists the memory
  accesses of the handlers (\<open>booking_accesses\<close>). Two bookings that access one member, one of them writing, are a
  data race, undefined in C++: the table has \<open>count_\<close> in common, so a booking that adds an order races with
  every other booking. Where no member is in conflict, an execution of the two handlers is an interleaving of
  their stores (\<open>Update_Stores\<close>), and whatever the interleaving, the table is the one either order of the two
  events gives.
\<close>

section \<open>Stores that commute\<close>

definition commuting :: "('t \<Rightarrow> 't option) \<Rightarrow> ('t \<Rightarrow> 't option) \<Rightarrow> bool" where
  "commuting f g \<longleftrightarrow> (\<forall>t. do { t' \<leftarrow> f t; g t' } = do { t' \<leftarrow> g t; f t' })"

lemma commuting_sym: "commuting f g \<Longrightarrow> commuting g f"
  by (simp add: commuting_def)

lemma run_past:
  assumes "\<And>x. x \<in> set xs \<Longrightarrow> commuting x y"
  shows "do { t' \<leftarrow> y t; run_stores (xs @ ys) t' } = run_stores (xs @ y # ys) t"
  using assms
proof (induction xs arbitrary: t)
  case (Cons x xs)
  have "do { t' \<leftarrow> y t; run_stores ((x # xs) @ ys) t' } = do { t' \<leftarrow> do { t1 \<leftarrow> y t; x t1 }; run_stores (xs @ ys) t' }"
    by simp
  also have "\<dots> = do { t' \<leftarrow> do { t1 \<leftarrow> x t; y t1 }; run_stores (xs @ ys) t' }"
    using Cons.prems [of x] by (simp only: commuting_def list.set_intros(1) simp_thms)
  also have "\<dots> = run_stores ((x # xs) @ y # ys) t"
    using Cons by simp
  finally show ?case .
qed simp

text \<open>Every interleaving of two sequences of commuting stores does what one after the other does.\<close>

lemma run_shuffle:
  assumes "zs \<in> shuffles xs ys" "\<And>x y. x \<in> set xs \<Longrightarrow> y \<in> set ys \<Longrightarrow> commuting x y"
  shows "run_stores zs t = run_stores (xs @ ys) t"
  using assms
proof (induction xs ys arbitrary: zs t rule: shuffles.induct)
  case (3 x xs y ys)
  from "3.prems"(1) consider (left) zs' where "zs = x # zs'" "zs' \<in> shuffles xs (y # ys)"
    | (right) zs' where "zs = y # zs'" "zs' \<in> shuffles (x # xs) ys"
    by auto
  then show ?case
  proof cases
    case left
    with "3.IH"(1) [OF left(2)] "3.prems"(2) show ?thesis by simp
  next
    case right
    have "run_stores zs t = do { t' \<leftarrow> y t; run_stores ((x # xs) @ ys) t' }"
      using right "3.IH"(2) [OF right(2)] "3.prems"(2) by simp
    also have "\<dots> = run_stores ((x # xs) @ y # ys) t"
      by (rule run_past) (use "3.prems"(2) in simp)
    finally show ?thesis .
  qed
qed simp_all

lemma commuting_put: "i \<noteq> j \<Longrightarrow> commuting (om_put i f) (om_put j g)"
  unfolding commuting_def om_put_def at_index_def
  by (auto simp: list_update_swap Option.bind_eq_Some_conv split: Option.bind_splits)

lemma commuting_bump: "commuting om_bump (om_put j g)"
  unfolding commuting_def om_put_def om_bump_def at_index_def by (auto split: Option.bind_splits)

section \<open>Lookups while another slot is written\<close>

context scan_loop
begin

lemma scan_same_keys:
  assumes "length sl' = length sl" "\<And>m. m < length sl \<Longrightarrow> key (sl' ! m) = key (sl ! m)"
  shows "scan sl' k i n = scan sl k i n"
proof (induction "n - i" arbitrary: i)
  case (Suc m)
  have "scan sl' k (Suc i) n = scan sl k (Suc i) n" using Suc.hyps(2) by (intro Suc.hyps(1)) simp
  with assms show ?case by (simp add: scan_step [of sl' k i] scan_step [of sl k i] at_index_def cong: if_cong)
qed (simp add: scan_step [of sl' k] scan_step [of sl k])

lemma scan_hit_longer:
  assumes "scan sl k i n = Some (Some j)" "n \<le> n'" "length sl' = length sl" "\<And>m. m < n \<Longrightarrow> sl' ! m = sl ! m"
  shows "scan sl' k i n' = Some (Some j)"
  using assms(1)
proof (induction "n - i" arbitrary: i)
  case (Suc m)
  from Suc.hyps(2) have i: "i < n" "m = n - Suc i" by simp_all
  with Suc.prems Suc.hyps(1) [OF i(2)] assms(2-4) show ?case
    by (auto simp: scan_step [of sl' k i] scan_step [of sl k i] at_index_def Option.bind_eq_Some_conv split: if_splits)
qed (simp add: scan_step [of sl k])

end

lemma known_cut_order_id:
  assumes "known_stores e od = Some ss" "run_stores (take n ss) od = Some x"
  shows "o_order_id x = o_order_id od"
proof -
  have "at_cuts (\<lambda>n x. o_order_id x = o_order_id od) ss od"
  proof (cases "etype e = NewOrder")
    case True
    with assms(1) show ?thesis by (auto simp: known_stores_def new_stores_def Option.bind_eq_Some_conv)
  next
    case False
    with assms(1) show ?thesis
      by (cases rule: known_stores_cases)
        (auto simp: fill_writes_def state_stores_def amend_stores_def Option.bind_eq_Some_conv)
  qed
  then show ?thesis using assms(2) by (rule at_cutsD)
qed

section \<open>Two handlers on different orders\<close>

text \<open>Where the lookup of an event found an order, it finds it again while another slot is written or added.\<close>

lemma om_find_written:
  assumes "om_find om oid = Some r" "j < length (om_slots om)" "o_order_id x = o_order_id (om_slots om ! j)"
  shows "om_find (om\<lparr>om_slots := (om_slots om)[j := x]\<rparr>) oid = Some r"
  using assms omt.scan_same_keys [of "(om_slots om)[j := x]" "om_slots om"]
  by (simp add: om_find_def nth_list_update)

lemma om_find_added:
  assumes "om_find om oid = Some (Some i)"
  shows "om_find (om\<lparr>om_count := Suc (om_count om), om_slots := (om_slots om)[om_count om := x]\<rparr>) oid = Some (Some i)"
  using assms omt.scan_hit_longer [of "om_slots om" "sv_data oid" 0 "om_count om" i "Suc (om_count om)" "(om_slots om)[om_count om := x]"]
  by (simp add: om_find_def)

lemma om_stores_other_slot:
  assumes "om_find om (order_id_view e) = Some (Some i)" "i \<noteq> j" "i < length (om_slots om)" "om_slots om' = (om_slots om)[j := x]"
    and "om_find om' (order_id_view e) = Some (Some i)"
  shows "om_stores e om' = om_stores e om"
  using assms by (simp add: om_stores_found)

text \<open>Two events are independent when each makes the same stores on every table the other passes through, and
  the stores of one commute with those of the other.\<close>

definition undisturbed :: "order_event \<Rightarrow> order_event \<Rightarrow> order_manager \<Rightarrow> bool" where
  "undisturbed a b om \<longleftrightarrow> (\<forall>n omi. om_cut b om n = Some omi \<longrightarrow> om_stores a omi = om_stores a om)"

definition independent :: "order_event \<Rightarrow> order_event \<Rightarrow> order_manager \<Rightarrow> bool" where
  "independent a b om \<longleftrightarrow> undisturbed a b om \<and> undisturbed b a om \<and>
     (\<forall>ss1 ss2. om_stores a om = Some ss1 \<longrightarrow> om_stores b om = Some ss2 \<longrightarrow> (\<forall>x \<in> set ss1. \<forall>y \<in> set ss2. commuting x y))"

lemma undisturbedD: "undisturbed a b om \<Longrightarrow> om_cut b om n = Some omi \<Longrightarrow> om_stores a omi = om_stores a om"
  by (simp add: undisturbed_def)

lemma om_cut_known:
  assumes "om_find om (order_id_view e) = Some (Some i)" "i < length (om_slots om)" "om_cut e om n = Some omi"
  obtains x where "omi = om\<lparr>om_slots := (om_slots om)[i := x]\<rparr>"
    "\<And>oid r. om_find om oid = Some r \<Longrightarrow> om_find omi oid = Some r"
proof -
  from assms(3) obtain ss x where x: "known_stores e (om_slots om ! i) = Some ss" "run_stores (take n ss) (om_slots om ! i) = Some x"
      "omi = om\<lparr>om_slots := (om_slots om)[i := x]\<rparr>"
    by (auto simp: om_cut_found [OF assms(1,2)] Option.bind_eq_Some_conv)
  with om_find_written [OF _ assms(2) known_cut_order_id [OF x(1,2)]] that show thesis by blast
qed

lemma undisturbed_known:
  assumes "om_find om (order_id_view a) = Some (Some i)" "i < length (om_slots om)"
    and "om_find om (order_id_view b) = Some (Some j)" "j < length (om_slots om)" "i \<noteq> j"
  shows "undisturbed a b om"
  unfolding undisturbed_def
proof (intro allI impI)
  fix n omi
  assume "om_cut b om n = Some omi"
  with assms(3,4) show "om_stores a omi = om_stores a om"
  proof (rule om_cut_known)
    fix x
    assume x: "omi = om\<lparr>om_slots := (om_slots om)[j := x]\<rparr>" "\<And>oid r. om_find om oid = Some r \<Longrightarrow> om_find omi oid = Some r"
    show ?thesis by (rule om_stores_other_slot [OF assms(1,5,2)]) (use x assms(1) in simp_all)
  qed
qed

lemma independent_known:
  assumes "om_find om (order_id_view a) = Some (Some i)" "i < length (om_slots om)"
    and "om_find om (order_id_view b) = Some (Some j)" "j < length (om_slots om)" "i \<noteq> j"
  shows "independent a b om"
  using undisturbed_known [OF assms] undisturbed_known [OF assms(3,4,1,2) assms(5) [symmetric]] commuting_put [OF assms(5)]
  by (auto simp: independent_def om_stores_found [OF assms(1,2)] om_stores_found [OF assms(3,4)])

text \<open>An event that finds no order looks only at the count.\<close>

lemma undisturbed_unknown:
  assumes "om_find om (order_id_view a) = Some None"
    and "om_find om (order_id_view b) = Some (Some j)" "j < length (om_slots om)"
  shows "undisturbed a b om"
  unfolding undisturbed_def
proof (intro allI impI)
  fix n omi
  assume "om_cut b om n = Some omi"
  with assms(2,3) show "om_stores a omi = om_stores a om"
  proof (rule om_cut_known)
    fix x
    assume "omi = om\<lparr>om_slots := (om_slots om)[j := x]\<rparr>" "\<And>oid r. om_find om oid = Some r \<Longrightarrow> om_find omi oid = Some r"
    with assms(1) show ?thesis by (simp add: om_stores_def)
  qed
qed

lemma independent_unknown:
  assumes ok: "om_ok om" and a: "om_find om (order_id_view a) = Some None"
    and b: "om_find om (order_id_view b) = Some (Some j)" "j < om_count om"
  shows "independent a b om"
proof -
  have jl: "j < length (om_slots om)" using b(2) om_okD(3,4) [OF ok] by simp
  note ab = undisturbed_unknown [OF a b(1) jl]
  show ?thesis
  proof (cases "etype a = NewOrder \<and> om_count om < MAX_ORDERS")
    case False
    with ab om_apply_event_unknown(2) [OF a False] show ?thesis
      by (auto simp: independent_def undisturbed_def om_cut_def)
  next
    case True
    have len: "om_count om < length (om_slots om)" and nj: "om_count om \<noteq> j" using True om_okD(4) [OF ok] b(2) by simp_all
    have ss: "om_stores a om = Some (om_bump # map (om_put (om_count om)) (create_stores (order_id a) @ new_stores a))"
      using a True by (simp add: om_stores_def)
    have "om_stores b omi = om_stores b om" if c: "om_cut a om n = Some omi" for n omi
    proof (cases n)
      case 0
      with c ss show ?thesis by (simp add: om_cut_def)
    next
      case (Suc m)
      with c obtain x where x: "omi = om\<lparr>om_count := Suc (om_count om), om_slots := (om_slots om)[om_count om := x]\<rparr>"
        using om_cut_created(2) [OF a _ _ len] True by (auto simp: Option.bind_eq_Some_conv)
      show ?thesis unfolding x
        by (rule om_stores_other_slot [OF b(1) nj [symmetric] jl]) (simp_all add: om_find_added [OF b(1)])
    qed
    then show ?thesis
      using ab commuting_put [OF nj] commuting_bump
      by (auto simp: independent_def undisturbed_def ss om_stores_found [OF b(1) jl] simp del: map_append)
  qed
qed

lemma bookings_independent:
  assumes ok: "om_ok om" "event_ok a" "event_ok b" and ids: "event_oid a \<noteq> event_oid b" and known: "om_map om (event_oid b) \<noteq> None"
  shows "independent a b om"
  using ok(1,3)
proof (cases rule: om_find_cases)
  case b: (hit j)
  show ?thesis
    using ok(1,2)
  proof (cases rule: om_find_cases)
    case (hit i)
    have "i \<noteq> j" using om_okD(6) [OF ok(1) hit(4)] om_okD(6) [OF ok(1) b(4)] ids by auto
    then show ?thesis by (rule independent_known [OF hit(1,3) b(1,3)])
  next
    case miss
    show ?thesis by (rule independent_unknown [OF ok(1) miss(1) b(1,2)])
  qed
qed (use known in simp)

lemma independent_sym: "independent a b om \<Longrightarrow> independent b a om"
  by (auto simp: independent_def intro: commuting_sym)

lemma independent_run:
  assumes ok: "om_ok om" "event_ok a" "event_ok b" and ind: "independent a b om"
    and ss: "om_stores a om = Some ss1" "om_stores b om = Some ss2" and zs: "zs \<in> shuffles ss1 ss2"
  shows "run_stores zs om = do { om' \<leftarrow> om_apply_event a om; om_apply_event b om' }"
proof -
  have "run_stores zs om = run_stores (ss1 @ ss2) om"
    using zs by (rule run_shuffle) (use ind ss in \<open>auto simp: independent_def\<close>)
  also have "\<dots> = do { om' \<leftarrow> om_apply_event a om; run_stores ss2 om' }"
    using om_stores_apply [OF ok(1,2)] ss(1) by (simp add: run_stores_append)
  also have "\<dots> = do { om' \<leftarrow> om_apply_event a om; om_apply_event b om' }"
  proof (rule Option.bind_cong [OF refl])
    fix om'
    assume a: "om_apply_event a om = Some om'"
    with om_stores_apply [OF ok(1,2)] ss(1) have "om_cut a om (length ss1) = Some om'" by (simp add: om_cut_def)
    with ind ss(2) have "om_stores b om' = Some ss2" by (auto simp: independent_def dest: undisturbedD)
    with om_stores_apply [OF om_apply_event_ok [OF ok(1,2) a] ok(3)] show "run_stores ss2 om' = om_apply_event b om'" by simp
  qed
  finally show ?thesis .
qed

section \<open>Memory accesses and data races\<close>

text \<open>The members of an \<open>Order\<close>, the memory of the table, and a plain read or write of it. The padding of an
  order is written with its members when a slot is cleared, and never read.\<close>

datatype order_member = Mem_order_id | Mem_symbol | Mem_state | Mem_side | Mem_limit_price | Mem_original_qty
  | Mem_filled_qty | Mem_avg_fill_price | Mem_opened_seq | Mem_last_seq

datatype table_location = Count_Loc | Slot_Loc nat order_member

datatype access = Rd table_location | Wr table_location

fun location :: "access \<Rightarrow> table_location" where
  "location (Rd l) = l"
| "location (Wr l) = l"

fun writes :: "access \<Rightarrow> bool" where
  "writes (Rd _) = False"
| "writes (Wr _) = True"

text \<open>\<open>find\<close>: each round of the loop reads \<open>count_\<close> and, while it goes on, the id of a slot.\<close>

definition find_accesses :: "order_manager \<Rightarrow> string_view \<Rightarrow> access list option" where
  "find_accesses om oid = do {
     r \<leftarrow> om_find om oid;
     let rounds = (\<lambda>n. concat (map (\<lambda>i. [Rd Count_Loc, Rd (Slot_Loc i Mem_order_id)]) [0..<n]));
     Some (case r of
         Some i \<Rightarrow> rounds (Suc i)
       | None \<Rightarrow> rounds (om_count om) @ [Rd Count_Loc]) }"

text \<open>What the handlers do to the slot \<open>i\<close> of their order.\<close>

definition known_accesses :: "order_event \<Rightarrow> nat \<Rightarrow> access list" where
  "known_accesses e i =
     (let rd = (\<lambda>m. Rd (Slot_Loc i m)); wr = (\<lambda>m. Wr (Slot_Loc i m));
          fill = [rd Mem_avg_fill_price, rd Mem_filled_qty, rd Mem_filled_qty, wr Mem_avg_fill_price, wr Mem_filled_qty,
                  wr Mem_last_seq, rd Mem_original_qty, rd Mem_filled_qty, wr Mem_state]
      in case etype e of
        NewOrder \<Rightarrow> [wr Mem_symbol, wr Mem_state, wr Mem_side, wr Mem_limit_price, wr Mem_original_qty,
                     wr Mem_filled_qty, wr Mem_avg_fill_price, wr Mem_opened_seq, wr Mem_last_seq]
      | PartialFill \<Rightarrow> fill
      | FullFill \<Rightarrow> fill
      | Cancel \<Rightarrow> [wr Mem_state, wr Mem_last_seq]
      | Reject \<Rightarrow> [wr Mem_state, wr Mem_last_seq]
      | Amend \<Rightarrow> (if qty e > 0 then [wr Mem_original_qty] else []) @
                 (if price e > 0 then [wr Mem_limit_price] else []) @ [wr Mem_last_seq]
      | EventType_other _ \<Rightarrow> [])"

text \<open>The new slot of \<open>get_or_create\<close>: the test and the increment of \<open>count_\<close>, \<open>memset\<close> and the copy of the id.\<close>

definition create_accesses :: "nat \<Rightarrow> access list" where
  "create_accesses i =
     Wr Count_Loc # map (\<lambda>m. Wr (Slot_Loc i m))
       [Mem_order_id, Mem_symbol, Mem_limit_price, Mem_avg_fill_price, Mem_opened_seq, Mem_last_seq,
        Mem_original_qty, Mem_filled_qty, Mem_state, Mem_side, Mem_order_id]"

definition booking_accesses :: "order_event \<Rightarrow> order_manager \<Rightarrow> access list option" where
  "booking_accesses e om =
     (case etype e of EventType_other _ \<Rightarrow> Some [] | _ \<Rightarrow> do {
        fs \<leftarrow> find_accesses om (order_id_view e);
        r \<leftarrow> om_find om (order_id_view e);
        Some (fs @ (case r of
            Some i \<Rightarrow> known_accesses e i
          | None \<Rightarrow>
              if etype e = NewOrder
              then Rd Count_Loc #
                (if om_count om < MAX_ORDERS
                 then Rd Count_Loc # create_accesses (om_count om) @ known_accesses e (om_count om) else [])
              else [])) })"

definition conflict :: "access \<Rightarrow> access \<Rightarrow> bool" where
  "conflict x y \<longleftrightarrow> location x = location y \<and> (writes x \<or> writes y)"

definition races :: "access list \<Rightarrow> access list \<Rightarrow> bool" where
  "races xs ys \<longleftrightarrow> (\<exists>x \<in> set xs. \<exists>y \<in> set ys. conflict x y)"

text \<open>The accesses of a lookup, and of a handler in its slot, as sets.\<close>

lemma find_accesses_set:
  assumes "find_accesses om oid = Some fs"
  shows "Rd Count_Loc \<in> set fs" "set fs \<subseteq> insert (Rd Count_Loc) (range (\<lambda>i. Rd (Slot_Loc i Mem_order_id)))"
  using assms by (auto simp: find_accesses_def Let_def Option.bind_eq_Some_conv split: option.splits if_splits)

lemma known_accesses_slot:
  "x \<in> set (known_accesses e i) \<Longrightarrow> \<exists>m. m \<noteq> Mem_order_id \<and> location x = Slot_Loc i m"
  by (auto simp: known_accesses_def Let_def split: event_type.splits if_splits)

lemma booking_accesses_known:
  assumes "om_find om (order_id_view e) = Some (Some i)" "booking_accesses e om = Some as" "x \<in> set as"
  shows "x = Rd Count_Loc \<or> (\<exists>k. x = Rd (Slot_Loc k Mem_order_id)) \<or> (\<exists>m. m \<noteq> Mem_order_id \<and> location x = Slot_Loc i m)"
proof (cases "\<exists>w. etype e = EventType_other w")
  case False
  with assms obtain fs where fs: "find_accesses om (order_id_view e) = Some fs" "as = fs @ known_accesses e i"
    by (cases "etype e") (auto simp: booking_accesses_def Option.bind_eq_Some_conv)
  with assms(3) find_accesses_set(2) [OF fs(1)] known_accesses_slot [of x e i] show ?thesis by auto
qed (use assms in \<open>auto simp: booking_accesses_def\<close>)

lemma booking_accesses_ignored:
  assumes "om_find om (order_id_view e) = Some None" "\<not> (etype e = NewOrder \<and> om_count om < MAX_ORDERS)"
    and "booking_accesses e om = Some as" "x \<in> set as"
  shows "x = Rd Count_Loc \<or> (\<exists>k. x = Rd (Slot_Loc k Mem_order_id))"
proof (cases "\<exists>w. etype e = EventType_other w")
  case False
  with assms obtain fs where fs: "find_accesses om (order_id_view e) = Some fs" "set as \<subseteq> insert (Rd Count_Loc) (set fs)"
    by (cases "etype e") (auto simp: booking_accesses_def Option.bind_eq_Some_conv)
  with assms(4) find_accesses_set(2) [OF fs(1)] show ?thesis by auto
qed (use assms in \<open>auto simp: booking_accesses_def\<close>)

lemma booking_accesses_total:
  assumes "om_ok om" "event_ok e"
  obtains as where "booking_accesses e om = Some as"
  using assms by (cases rule: om_find_cases; cases "etype e") (auto simp: booking_accesses_def find_accesses_def Let_def)

text \<open>The lists agree with the stores: wherever an update is interrupted, a member it does not list as written
  is as it was.\<close>

fun same_member :: "order_member \<Rightarrow> order \<Rightarrow> order \<Rightarrow> bool" where
  "same_member Mem_order_id x y = (o_order_id x = o_order_id y)"
| "same_member Mem_symbol x y = (o_symbol x = o_symbol y)"
| "same_member Mem_state x y = (o_state x = o_state y)"
| "same_member Mem_side x y = (o_side x = o_side y)"
| "same_member Mem_limit_price x y = (limit_price x = limit_price y)"
| "same_member Mem_original_qty x y = (original_qty x = original_qty y)"
| "same_member Mem_filled_qty x y = (filled_qty x = filled_qty y)"
| "same_member Mem_avg_fill_price x y = (avg_fill_price x = avg_fill_price y)"
| "same_member Mem_opened_seq x y = (opened_seq x = opened_seq y)"
| "same_member Mem_last_seq x y = (last_seq x = last_seq y)"

lemma same_member_refl [simp]: "same_member m x x"
  by (cases m) simp_all

lemma known_cut_member:
  assumes "known_stores e od = Some ss" "run_stores (take n ss) od = Some x" "Wr (Slot_Loc i m) \<notin> set (known_accesses e i)"
  shows "same_member m x od"
proof (cases "etype e = NewOrder")
  case True
  with assms(3) have "m = Mem_order_id" by (cases m) (simp_all add: known_accesses_def)
  with known_cut_order_id [OF assms(1,2)] show ?thesis by simp
next
  case False
  have fill: "at_cuts (\<lambda>n x. same_member m x od) (fill_writes e avg q) od" if "is_fill e" for avg q
  proof -
    have "m \<notin> {Mem_avg_fill_price, Mem_filled_qty, Mem_last_seq, Mem_state}"
      using that assms(3) by (auto simp: known_accesses_def is_fill_def Let_def)
    then show ?thesis by (cases m) (auto simp: fill_writes_def remaining_qty_def Option.bind_eq_Some_conv)
  qed
  have "at_cuts (\<lambda>n x. same_member m x od) ss od"
  proof (cases "is_fill e")
    case True
    with assms(1) have "fill_stores e od = Some ss" by (auto simp: known_stores_def is_fill_def)
    then obtain avg where "ss = fill_writes e avg (filled_qty od + fill_qty e)" by (rule fill_stores_Some)
    with fill [OF True] show ?thesis by simp
  next
    case unfilled: False
    with False assms(1) consider "etype e = Cancel \<or> etype e = Reject" "\<exists>st. ss = state_stores st e"
      | "etype e = Amend" "ss = amend_stores e" | "ss = []"
      by (cases "etype e") (auto simp: known_stores_def is_fill_def)
    then show ?thesis
    proof cases
      case 1
      with assms(3) show ?thesis by (cases m) (auto simp: state_stores_def known_accesses_def Let_def)
    next
      case 2
      with assms(3) show ?thesis by (cases m) (auto simp: amend_stores_def known_accesses_def Let_def)
    qed simp
  qed
  then show ?thesis using assms(2) by (rule at_cutsD)
qed

lemma create_accesses_all: "Wr (Slot_Loc i m) \<in> set (create_accesses i)" "Wr Count_Loc \<in> set (create_accesses i)"
  by (cases m) (simp_all add: create_accesses_def)

lemma unwritten_unchanged:
  assumes ok: "om_ok om" "event_ok e" and as: "booking_accesses e om = Some as" and cut: "om_cut e om n = Some omi"
  shows "Wr Count_Loc \<notin> set as \<Longrightarrow> om_count omi = om_count om"
    and "Wr (Slot_Loc k m) \<notin> set as \<Longrightarrow> k < length (om_slots om) \<Longrightarrow> same_member m (om_slots omi ! k) (om_slots om ! k)"
proof -
  have "(Wr Count_Loc \<notin> set as \<longrightarrow> om_count omi = om_count om) \<and>
    (Wr (Slot_Loc k m) \<notin> set as \<longrightarrow> k < length (om_slots om) \<longrightarrow> same_member m (om_slots omi ! k) (om_slots om ! k))"
    using ok
  proof (cases rule: om_find_cases)
    case (hit i)
    from cut obtain ss x where x: "known_stores e (om_slots om ! i) = Some ss" "run_stores (take n ss) (om_slots om ! i) = Some x"
        "omi = om\<lparr>om_slots := (om_slots om)[i := x]\<rparr>"
      by (auto simp: om_cut_found [OF hit(1,3)] Option.bind_eq_Some_conv)
    have "set (known_accesses e i) \<subseteq> set as"
      using as hit(1) by (auto simp: booking_accesses_def known_accesses_def Option.bind_eq_Some_conv split: event_type.splits)
    with x known_cut_member [OF x(1,2), of i m] show ?thesis by (cases "k = i") auto
  next
    case miss
    show ?thesis
    proof (cases "etype e = NewOrder \<and> om_count om < MAX_ORDERS")
      case False
      with om_apply_event_unknown(2) [OF miss(1) False] cut show ?thesis by (simp add: om_cut_def)
    next
      case True
      have len: "om_count om < length (om_slots om)" using True om_okD(4) [OF ok(1)] by simp
      have sub: "set (create_accesses (om_count om)) \<subseteq> set as"
        using as True miss(1) by (auto simp: booking_accesses_def Option.bind_eq_Some_conv)
      show ?thesis
      proof (cases n)
        case 0
        with cut om_cut_created(1) [OF miss(1) _ _ len] True show ?thesis by simp
      next
        case (Suc l)
        with cut om_cut_created(2) [OF miss(1) _ _ len] True sub create_accesses_all [of "om_count om"] show ?thesis
          by (cases "k = om_count om") (auto simp: Option.bind_eq_Some_conv)
      qed
    qed
  qed
  then show "Wr Count_Loc \<notin> set as \<Longrightarrow> om_count omi = om_count om"
    and "Wr (Slot_Loc k m) \<notin> set as \<Longrightarrow> k < length (om_slots om) \<Longrightarrow> same_member m (om_slots omi ! k) (om_slots om ! k)"
    by simp_all
qed

section \<open>Which bookings race\<close>

definition adds_order :: "order_event \<Rightarrow> order_manager \<Rightarrow> bool" where
  "adds_order e om \<longleftrightarrow> etype e = NewOrder \<and> om_map om (event_oid e) = None \<and> order_count om < MAX_ORDERS"

text \<open>An event that is handled looks its order up, and reads \<open>count_\<close>.\<close>

lemma booking_reads_count:
  assumes "booking_accesses e om = Some as" "\<forall>w. etype e \<noteq> EventType_other w"
  shows "Rd Count_Loc \<in> set as"
  using assms find_accesses_set(1)
  by (cases "etype e") (auto simp: booking_accesses_def Option.bind_eq_Some_conv)

lemma adding_writes_count:
  assumes "om_ok om" "event_ok e" "adds_order e om" "booking_accesses e om = Some as"
  shows "Wr Count_Loc \<in> set as"
  using assms(1,2)
proof (cases rule: om_find_cases)
  case miss
  with assms(3,4) create_accesses_all(2) show ?thesis
    by (auto simp: adds_order_def order_count_def booking_accesses_def Option.bind_eq_Some_conv)
qed (use assms(3) in \<open>simp add: adds_order_def\<close>)

text \<open>The accesses of a booking that adds no order, and those of a booking of a known order.\<close>

lemma quiet_accesses:
  assumes ok: "om_ok om" "event_ok e" "\<not> adds_order e om" and as: "booking_accesses e om = Some as" and x: "x \<in> set as"
  shows "x = Rd Count_Loc \<or> (\<exists>k. x = Rd (Slot_Loc k Mem_order_id)) \<or>
    (\<exists>k m. om_find om (order_id_view e) = Some (Some k) \<and> m \<noteq> Mem_order_id \<and> location x = Slot_Loc k m)"
  using ok(1,2)
proof (cases rule: om_find_cases)
  case (hit i)
  with booking_accesses_known [OF hit(1) as x] show ?thesis by auto
next
  case miss
  with ok(3) have "\<not> (etype e = NewOrder \<and> om_count om < MAX_ORDERS)" by (simp add: adds_order_def order_count_def)
  from booking_accesses_ignored [OF miss(1) this as x] show ?thesis by auto
qed

lemma different_slots:
  assumes "om_ok om" "event_ok a" "event_ok b" "event_oid a \<noteq> event_oid b"
    and "om_find om (order_id_view a) = Some (Some i)" "om_find om (order_id_view b) = Some (Some j)"
  shows "i \<noteq> j"
proof -
  obtain od where od: "i < om_count om" "om_map om (event_oid a) = Some (om_slots om ! i)"
    using assms(1,2) by (cases rule: om_find_cases) (use assms(5) in simp_all)
  have "om_map om (event_oid b) = Some (om_slots om ! j)"
    using assms(1,3) by (cases rule: om_find_cases) (use assms(6) in simp_all)
  with od om_okD(6) [OF assms(1)] assms(4) show ?thesis by metis
qed

lemma bookings_race_iff:
  assumes ok: "om_ok om" "event_ok a" "event_ok b" "event_oid a \<noteq> event_oid b"
    and known: "om_map om (event_oid b) \<noteq> None" "\<forall>w. etype b \<noteq> EventType_other w"
    and acc: "booking_accesses a om = Some as" "booking_accesses b om = Some bs"
  shows "races as bs \<longleftrightarrow> adds_order a om"
proof
  assume "adds_order a om"
  then have "Wr Count_Loc \<in> set as" by (rule adding_writes_count [OF ok(1,2) _ acc(1)])
  moreover have "conflict (Wr Count_Loc) (Rd Count_Loc)" by (simp add: conflict_def)
  ultimately show "races as bs" using booking_reads_count [OF acc(2) known(2)] unfolding races_def by blast
next
  assume r: "races as bs"
  show "adds_order a om"
  proof (rule ccontr)
    assume na: "\<not> adds_order a om"
    have nb: "\<not> adds_order b om" using known(1) by (simp add: adds_order_def)
    from r obtain x y where xy: "x \<in> set as" "y \<in> set bs" "location x = location y" "writes x \<or> writes y"
      by (auto simp: races_def conflict_def)
    from quiet_accesses [OF ok(1,2) na acc(1) xy(1)] quiet_accesses [OF ok(1,3) nb acc(2) xy(2)] xy(3,4)
      different_slots [OF ok]
    show False by auto
  qed
qed

text \<open>A booking that adds no order changes neither what another event looks up nor what it then accesses.\<close>

lemma accesses_undisturbed:
  assumes ok: "om_ok om" "event_ok a" "event_ok b" "\<not> adds_order b om" and cut: "om_cut b om n = Some omi"
  shows "booking_accesses a omi = booking_accesses a om"
  using ok(1,3)
proof (cases rule: om_find_cases)
  case (hit j)
  obtain r where r: "om_find om (order_id_view a) = Some r" using ok(1,2) by (cases rule: om_find_cases) auto
  from hit(1,3) cut show ?thesis
  proof (rule om_cut_known)
    fix x
    assume "omi = om\<lparr>om_slots := (om_slots om)[j := x]\<rparr>" "\<And>oid r. om_find om oid = Some r \<Longrightarrow> om_find omi oid = Some r"
    with r show ?thesis by (cases r; cases "etype a") (simp_all add: booking_accesses_def find_accesses_def)
  qed
next
  case miss
  with ok(4) have "\<not> (etype b = NewOrder \<and> om_count om < MAX_ORDERS)" by (simp add: adds_order_def order_count_def)
  from om_apply_event_unknown(2) [OF miss(1) this] cut show ?thesis by (simp add: om_cut_def)
qed

section \<open>The property\<close>

text \<open>C20. Two threads in the order table at once: the booking of an event \<open>a\<close> and the booking of a report
  \<open>b\<close> on another, known order are a data race exactly when \<open>a\<close> adds a new order, which then writes \<open>count_\<close>
  while the other lookup reads it. When they do not race, neither changes, wherever it is in its update, what
  the other stores or accesses, and every interleaving of the stores leaves the order table that either order
  of the two events gives.\<close>

theorem concurrent_bookings_race_or_serialize:
  assumes "om_ok om" "event_ok a" "event_ok b" "event_oid a \<noteq> event_oid b" "om_map om (event_oid b) \<noteq> None"
    and "\<forall>w. etype b \<noteq> EventType_other w"
  shows "\<exists>as bs. booking_accesses a om = Some as \<and> booking_accesses b om = Some bs \<and>
    (races as bs \<longleftrightarrow> etype a = NewOrder \<and> om_map om (event_oid a) = None \<and> order_count om < MAX_ORDERS) \<and>
    (\<not> races as bs \<longrightarrow>
      (\<forall>n omi. om_cut b om n = Some omi \<longrightarrow> om_stores a omi = om_stores a om \<and> booking_accesses a omi = Some as) \<and>
      (\<forall>n omi. om_cut a om n = Some omi \<longrightarrow> om_stores b omi = om_stores b om \<and> booking_accesses b omi = Some bs) \<and>
      (\<forall>ss1 ss2 zs. om_stores a om = Some ss1 \<longrightarrow> om_stores b om = Some ss2 \<longrightarrow> zs \<in> shuffles ss1 ss2 \<longrightarrow>
        run_stores zs om = do { om' \<leftarrow> om_apply_event a om; om_apply_event b om' } \<and>
        run_stores zs om = do { om' \<leftarrow> om_apply_event b om; om_apply_event a om' }))"
proof -
  obtain as where as: "booking_accesses a om = Some as" by (rule booking_accesses_total [OF assms(1,2)])
  obtain bs where bs: "booking_accesses b om = Some bs" by (rule booking_accesses_total [OF assms(1,3)])
  have r: "races as bs \<longleftrightarrow> adds_order a om" by (rule bookings_race_iff [OF assms as bs])
  have nb: "\<not> adds_order b om" using assms(5) by (simp add: adds_order_def)
  have ind: "independent a b om" by (rule bookings_independent [OF assms(1-5)])
  have serial: "run_stores zs om = do { om' \<leftarrow> om_apply_event a om; om_apply_event b om' } \<and>
      run_stores zs om = do { om' \<leftarrow> om_apply_event b om; om_apply_event a om' }"
    if ss: "om_stores a om = Some ss1" "om_stores b om = Some ss2" and zs: "zs \<in> shuffles ss1 ss2" for ss1 ss2 zs
    using independent_run [OF assms(1-3) ind ss zs]
      independent_run [OF assms(1,3,2) independent_sym [OF ind] ss(2,1)] zs by (simp add: shuffles_commutes)
  have fa: "om_stores a omi = om_stores a om \<and> booking_accesses a omi = Some as" if "om_cut b om n = Some omi" for n omi
    using that ind accesses_undisturbed [OF assms(1-3) nb that] as by (auto simp: independent_def dest: undisturbedD)
  have fb: "om_stores b omi = om_stores b om \<and> booking_accesses b omi = Some bs"
    if "om_cut a om n = Some omi" "\<not> races as bs" for n omi
    using that ind accesses_undisturbed [OF assms(1,3,2) _ that(1)] bs r by (auto simp: independent_def dest: undisturbedD)
  show ?thesis
  proof (rule exI [of _ as], rule exI [of _ bs], intro conjI impI)
    show "races as bs \<longleftrightarrow> etype a = NewOrder \<and> om_map om (event_oid a) = None \<and> order_count om < MAX_ORDERS"
      using r by (simp add: adds_order_def)
  qed (use as bs fa fb serial in blast)+
qed

text \<open>Two orders are in the table: fills of both may be booked at once, a third order may not.\<close>

lemma om_stores_total:
  assumes "om_ok om" "event_ok e" "om_apply_event e om = Some om'"
  obtains ss where "om_stores e om = Some ss"
  using om_stores_apply [OF assms(1,2)] assms(3) by (auto simp: Option.bind_eq_Some_conv)

theorem concurrent_bookings_race_or_serialize_witness:
  "\<exists>om as bs cs ss1 ss2 om' od1 od2.
    om_map om = [''O1'' \<mapsto> opened_order (sample_new ''O1'' ''AAPL'' Buy 100 175),
                 ''O2'' \<mapsto> opened_order (sample_new ''O2'' ''MSFT'' Sell 50 300)] \<and>
    booking_accesses (sample_fill ''O2'' ''MSFT'' Sell 20 300) om = Some as \<and>
    booking_accesses (sample_fill ''O1'' ''AAPL'' Buy 40 175) om = Some bs \<and> \<not> races as bs \<and>
    om_stores (sample_fill ''O2'' ''MSFT'' Sell 20 300) om = Some ss1 \<and>
    om_stores (sample_fill ''O1'' ''AAPL'' Buy 40 175) om = Some ss2 \<and> run_stores (splice ss1 ss2) om = Some om' \<and>
    fill_order (sample_fill ''O1'' ''AAPL'' Buy 40 175) (opened_order (sample_new ''O1'' ''AAPL'' Buy 100 175)) = Some od1 \<and>
    fill_order (sample_fill ''O2'' ''MSFT'' Sell 20 300) (opened_order (sample_new ''O2'' ''MSFT'' Sell 50 300)) = Some od2 \<and>
    om_map om' = [''O1'' \<mapsto> od1, ''O2'' \<mapsto> od2] \<and>
    booking_accesses (sample_new ''O3'' ''AAPL'' Buy 10 175) om = Some cs \<and> races cs bs"
proof -
  let ?n1 = "sample_new ''O1'' ''AAPL'' Buy 100 175" and ?n2 = "sample_new ''O2'' ''MSFT'' Sell 50 300"
    and ?c = "sample_new ''O3'' ''AAPL'' Buy 10 175"
    and ?a = "sample_fill ''O2'' ''MSFT'' Sell 20 300" and ?b = "sample_fill ''O1'' ''AAPL'' Buy 40 175"
  have n: "event_ok ?n1" "etype ?n1 = NewOrder" "event_oid ?n1 = ''O1''" "event_ok ?n2" "etype ?n2 = NewOrder" "event_oid ?n2 = ''O2''"
    and c: "event_ok ?c" "etype ?c = NewOrder" "event_oid ?c = ''O3''" by code_simp+
  have a: "event_ok ?a" "etype ?a = PartialFill" "event_oid ?a = ''O2''" "fill_order ?a (opened_order ?n2) \<noteq> None"
    and b: "event_ok ?b" "etype ?b = PartialFill" "event_oid ?b = ''O1''" "fill_order ?b (opened_order ?n1) \<noteq> None" by code_simp+
  obtain od1 where od1: "fill_order ?b (opened_order ?n1) = Some od1" using b(4) by auto
  obtain od2 where od2: "fill_order ?a (opened_order ?n2) = Some od2" using a(4) by auto
  have "om_spec ?n1 (om_map new_order_manager) = Some [''O1'' \<mapsto> opened_order ?n1]"
    by (simp add: om_spec_def n(2,3) MAX_ORDERS_def)
  then obtain om0 where om0: "om_ok om0" "om_map om0 = [''O1'' \<mapsto> opened_order ?n1]"
    using om_apply_event_obtain [OF om_ok_new(1) n(1)] by metis
  have "om_spec ?n2 (om_map om0) = Some [''O1'' \<mapsto> opened_order ?n1, ''O2'' \<mapsto> opened_order ?n2]"
    by (simp add: om_spec_def n(5,6) om0(2) MAX_ORDERS_def)
  then obtain om where om: "om_ok om" "om_map om = [''O1'' \<mapsto> opened_order ?n1, ''O2'' \<mapsto> opened_order ?n2]"
    using om_apply_event_obtain [OF om0(1) n(4)] by metis
  have "om_spec ?a (om_map om) = Some [''O1'' \<mapsto> opened_order ?n1, ''O2'' \<mapsto> od2]"
    by (simp add: om_spec_def a(2,3) om(2) update_existing_def od2)
  then obtain om1 where om1: "om_apply_event ?a om = Some om1" "om_ok om1" "om_map om1 = [''O1'' \<mapsto> opened_order ?n1, ''O2'' \<mapsto> od2]"
    using om_apply_event_obtain [OF om(1) a(1)] by metis
  have "om_spec ?b (om_map om1) = Some [''O1'' \<mapsto> od1, ''O2'' \<mapsto> od2]"
    by (simp add: om_spec_def b(2,3) om1(3) update_existing_def od1 fun_upd_twist)
  then obtain om2 where om2: "om_apply_event ?b om1 = Some om2" "om_map om2 = [''O1'' \<mapsto> od1, ''O2'' \<mapsto> od2]"
    using om_apply_event_obtain [OF om1(2) b(1)] by metis
  have "om_spec ?b (om_map om) = Some [''O1'' \<mapsto> od1, ''O2'' \<mapsto> opened_order ?n2]"
    by (simp add: om_spec_def b(2,3) om(2) update_existing_def od1 fun_upd_twist)
  then obtain om3 where om3: "om_apply_event ?b om = Some om3"
    using om_apply_event_obtain [OF om(1) b(1)] by metis
  obtain ss1 where ss1: "om_stores ?a om = Some ss1" by (rule om_stores_total [OF om(1) a(1) om1(1)])
  obtain ss2 where ss2: "om_stores ?b om = Some ss2" by (rule om_stores_total [OF om(1) b(1) om3])
  have known: "om_map om (event_oid ?b) \<noteq> None" "\<forall>w. etype ?b \<noteq> EventType_other w" by (simp_all add: b(2,3) om(2))
  have ids: "event_oid ?a \<noteq> event_oid ?b" "event_oid ?c \<noteq> event_oid ?b" by (simp_all add: a(3) b(3) c(3))
  have room: "order_count om < MAX_ORDERS" "om_map om (event_oid ?c) = None"
    using om_okD(5) [OF om(1)] by (simp_all add: om(2) c(3) order_count_def MAX_ORDERS_def)
  obtain as bs where ab: "booking_accesses ?a om = Some as" "booking_accesses ?b om = Some bs" "\<not> races as bs"
      "run_stores (splice ss1 ss2) om = Some om2"
    using concurrent_bookings_race_or_serialize [OF om(1) a(1) b(1) ids(1) known] a(2) ss1 ss2 splice_in_shuffles [of ss1 ss2] om1(1) om2(1)
    by fastforce
  obtain cs where cs: "booking_accesses ?c om = Some cs" "races cs bs"
    using concurrent_bookings_race_or_serialize [OF om(1) c(1) b(1) ids(2) known] ab(2) c(2) room by auto
  from om(2) ab(1-3) ss1 ss2 ab(4) od1 od2 om2(2) cs show ?thesis by blast
qed

end
