(* ===== verification/Console.thy ===== *)
theory Console
  imports Main_Program
begin

text \<open>
  What the program prints. The operations of the other theories leave printing out; here each of them gets
  the text it writes to the standard output, as a list of strings with one element per call of \<open>printf\<close>,
  from the same arguments. The text of a session id and of an exception (\<open>toString\<close>, \<open>what\<close>) are
  parameters, as is the name of the program.
\<close>

section \<open>Formats\<close>

definition newline :: string where
  "newline = [CHR 0x0A]"

text \<open>The dash of the messages of \<open>main\<close>, in UTF-8.\<close>

definition dash :: string where
  "dash = [CHR 0xE2, CHR 0x80, CHR 0x94]"

text \<open>\<open>%d\<close> and \<open>%.4f\<close>. The latter rounds the exact value to the nearest, ties to even.\<close>

definition fmt_d :: "int \<Rightarrow> string" where
  "fmt_d n = (if n < 0 then ''-'' @ to_dec (nat (- n)) else to_dec (nat n))"

definition pad4 :: "nat \<Rightarrow> string" where
  "pad4 n = replicate (4 - length (to_dec n)) CHR ''0'' @ to_dec n"

definition fmt_f4 :: "double \<Rightarrow> string" where
  "fmt_f4 x =
     (case x of
        Finite v \<Rightarrow>
          let k = nat (round_half_even (\<bar>v\<bar> * 10000))
          in (if v < 0 then ''-'' else []) @ to_dec (k div 10000) @ ''.'' @ pad4 (k mod 10000)
      | Infinity neg \<Rightarrow> if neg then ''-inf'' else ''inf''
      | NaN \<Rightarrow> ''nan'')"

text \<open>\<open>%llu\<close> of a \<open>long long\<close>.\<close>

definition fmt_llu :: "int \<Rightarrow> string" where
  "fmt_llu n = to_dec (unat (word_of_int n :: 64 word))"

section \<open>The killswitch\<close>

definition cancel_all_output :: "ks_run \<Rightarrow> string list" where
  "cancel_all_output r =
     map (\<lambda>i. ''[KILLSWITCH] warning: session not found for cancel '' @ i @ newline) (ks_warned r) @
     [''[KILLSWITCH] sent '' @ to_dec (unat (ks_count r)) @ '' cancel requests'' @ newline]"

definition flatten_output :: "ks_run \<Rightarrow> string list" where
  "flatten_output r =
     map (\<lambda>i. ''[KILLSWITCH] warning: session not found for flatten '' @ i @ newline) (ks_warned r) @
     [''[KILLSWITCH] sent '' @ to_dec (unat (ks_count r)) @ '' flatten orders'' @ newline]"

definition execute_output ::
  "session_send \<Rightarrow> killswitch \<Rightarrow> string \<Rightarrow> int \<Rightarrow> int \<Rightarrow> int \<Rightarrow> order_manager \<Rightarrow> string list option" where
  "execute_output send ks cancel_id_prefix budget_ms t0 t1 om = do {
     (elapsed, over, r) \<leftarrow> execute send ks cancel_id_prefix budget_ms t0 t1 om;
     Some (cancel_all_output r @
       [if over
        then ''[KILLSWITCH] WARNING: cancel_all took '' @ fmt_llu elapsed @ ''ms (budget '' @ fmt_llu budget_ms @ ''ms)'' @ newline
        else ''[KILLSWITCH] cancel_all sent in '' @ fmt_llu elapsed @ ''ms'' @ newline]) }"

section \<open>The gateway\<close>

definition onCreate_output :: "string \<Rightarrow> string list" where
  "onCreate_output i = [''[FIX] session created: '' @ i @ newline]"

definition onLogon_output :: "string \<Rightarrow> string list" where
  "onLogon_output i = [''[FIX] logon: '' @ i @ newline]"

definition onLogout_output :: "string \<Rightarrow> string list" where
  "onLogout_output i = [''[FIX] logout: '' @ i @ newline]"

definition trace_text :: "order_event \<Rightarrow> string" where
  "trace_text e =
     (case trace_line e of (st, sd, symb, q, px) \<Rightarrow>
        ''[FIX] '' @ st @ '' '' @ sd @ '' '' @ symb @ '' qty='' @ fmt_d q @ '' px='' @ fmt_f4 px @ newline)"

definition onMessage_output :: "'r report_api \<Rightarrow> timespec \<Rightarrow> 'r \<Rightarrow> gateway \<Rightarrow> string list option" where
  "onMessage_output api ts report g = do {
     out \<leftarrow> onMessage api ts report g;
     maybe_evt \<leftarrow> from_execution_report api report;
     Some (case (out, maybe_evt) of
         (Returns _, Inr (Some evt)) \<Rightarrow> [trace_text evt]
       | _ \<Rightarrow> []) }"

definition send_order_output :: "string_view \<Rightarrow> side \<Rightarrow> int \<Rightarrow> int \<Rightarrow> gateway \<Rightarrow> string list option" where
  "send_order_output symb sd q price_fp g =
     (if \<not> is_connected g then Some [''[FIX] send_order blocked: not connected'' @ newline]
      else do {
        res \<leftarrow> check_full (g_risk g) symb sd q price_fp (g_tracker g) (g_orders g);
        Some (if res \<noteq> Pass then [''[RISK] order blocked: '' @ risk_result_to_string res @ newline] else []) })"

definition emergency_output :: "session_send \<Rightarrow> int \<Rightarrow> int \<Rightarrow> gateway \<Rightarrow> string list option" where
  "emergency_output send t0 t1 g = do {
     out \<leftarrow> execute_output send (new_killswitch (session_id g)) ''KS'' 100 t0 t1 (g_orders g);
     Some ((''[FIX] emergency_cancel_all triggered'' @ newline) # out) }"

fun dispatch_output ::
  "('m \<Rightarrow> cpp_exn + 'r option) \<Rightarrow> 'r report_api \<Rightarrow> 'm callback \<Rightarrow> gateway \<Rightarrow> string list option" where
  "dispatch_output crack api (CB_onCreate i) g = Some (onCreate_output i)"
| "dispatch_output crack api (CB_onLogon i) g = Some (onLogon_output i)"
| "dispatch_output crack api (CB_onLogout i) g = Some (onLogout_output i)"
| "dispatch_output crack api (CB_toAdmin m i) g = Some []"
| "dispatch_output crack api (CB_toApp m i) g = Some []"
| "dispatch_output crack api (CB_fromAdmin m i) g = Some []"
| "dispatch_output crack api (CB_fromApp ts m i) g =
     (case crack m of Inr (Some report) \<Rightarrow> onMessage_output api ts report g | _ \<Rightarrow> Some [])"

section \<open>The process\<close>

record console_env =
  argv0 :: string
  what :: string

definition print_usage :: "string \<Rightarrow> string list" where
  "print_usage a0 =
     [''Usage: '' @ a0 @ '' <config_file> [session_log_path]'' @ newline,
      ''  config_file    path to QuickFIX .cfg (e.g. config/simulator.cfg)'' @ newline,
      ''  session_log_path  optional override for FileStorePath'' @ newline]"

definition replay_output :: "gateway \<Rightarrow> string list" where
  "replay_output g =
     [''[MAIN] replaying event log ('' @ to_dec (unat (log_size (g_log g))) @ '' events)...'' @ newline,
      ''[MAIN] replay complete '' @ dash @ '' '' @ to_dec (symbol_count (g_tracker g)) @ '' symbols, '' @
        to_dec (order_count (g_orders g)) @ '' orders'' @ newline]"

definition clean_line :: string where
  "clean_line = ''[MAIN] clean shutdown complete'' @ newline"

definition main_output :: "console_env \<Rightarrow> ('m, 'r) main_env \<Rightarrow> process \<Rightarrow> string list" where
  "main_output C E p =
     (case p_pc p of
        At_Entry \<Rightarrow>
          if argc E < 2 then print_usage (argv0 C)
          else (case startup (env_os E) (p_file p) of Some (f, Inr g) \<Rightarrow> replay_output g | _ \<Rightarrow> [])
      | At_Try \<Rightarrow> (case env_qf E of
            QF_Started \<Rightarrow> [''[MAIN] FIX initiator started '' @ dash @ '' waiting for logon'' @ newline]
          | QF_ConfigError \<Rightarrow> [''[MAIN] FIX config error: '' @ what C @ newline]
          | QF_Exception \<Rightarrow> [''[MAIN] fatal: '' @ what C @ newline])
      | At_Stop \<Rightarrow> [''[MAIN] shutdown signal received '' @ dash @ '' stopping initiator'' @ newline]
      | At_End \<Rightarrow> [clean_line]
      | _ \<Rightarrow> [])"

definition signal_number :: "signal \<Rightarrow> int" where
  "signal_number s = (case s of SIGINT \<Rightarrow> 2 | SIGTERM \<Rightarrow> 15)"

definition signal_output :: "('m, 'r) main_env \<Rightarrow> signal \<Rightarrow> int \<Rightarrow> int \<Rightarrow> process \<Rightarrow> string list" where
  "signal_output E s t0 t1 p =
     (if s \<notin> set (p_handled p) then []
      else (newline @ ''[MAIN] signal '' @ fmt_d (signal_number s) @ '' received '' @ dash @ '' initiating shutdown'' @ newline) #
        (case (if p_pointer p then p_gateway p else None) of
           None \<Rightarrow> []
         | Some g \<Rightarrow> (case emergency_output (env_send E) t0 t1 g of Some out \<Rightarrow> out | None \<Rightarrow> [])))"

definition callback_output :: "('m, 'r) main_env \<Rightarrow> 'm callback \<Rightarrow> process \<Rightarrow> string list" where
  "callback_output E c p =
     (case p_gateway p of
        Some g \<Rightarrow> if p_initiator p then (case dispatch_output (env_crack E) (env_api E) c g of Some out \<Rightarrow> out | None \<Rightarrow> []) else []
      | None \<Rightarrow> [])"

fun step_output :: "console_env \<Rightarrow> ('m, 'r) main_env \<Rightarrow> 'm event \<Rightarrow> process \<Rightarrow> string list" where
  "step_output C E ev p =
     (case p_pc p of
        Ended st \<Rightarrow> []
      | _ \<Rightarrow> (case ev of
          Main \<Rightarrow> main_output C E p
        | Signal s t0 t1 \<Rightarrow> signal_output E s t0 t1 p
        | Callback c \<Rightarrow> callback_output E c p))"

declare step_output.simps [simp del]

primrec run_output :: "console_env \<Rightarrow> ('m, 'r) main_env \<Rightarrow> 'm event list \<Rightarrow> process \<Rightarrow> string list" where
  "run_output C E [] p = []"
| "run_output C E (ev # evs) p = step_output C E ev p @ run_output C E evs (process_step E ev p)"

section \<open>The killswitch counts attempts\<close>

definition request_id :: "fix_message \<Rightarrow> string" where
  "request_id m = (case msg_fields m 11 of Some (F_String i) \<Rightarrow> i | _ \<Rightarrow> [])"

text \<open>The ids of the messages whose send throws.\<close>

definition failed_ids :: "session_send \<Rightarrow> string \<Rightarrow> fix_message list \<Rightarrow> string list" where
  "failed_ids send sid ms = map request_id (filter (\<lambda>m. send sid m = Send_SessionNotFound) ms)"

lemma ks_send_warned:
  "ks_warned (ks_send send sid m i r) = ks_warned r @ (if send sid m = Send_SessionNotFound then [i] else [])"
  by (simp add: ks_send_def split: send_outcome.split)

lemma cancel_one_warned:
  assumes "cancel_one send sid pre od r = Some r'" "ks_warned r = failed_ids send sid (ks_sent r)"
  shows "ks_warned r' = failed_ids send sid (ks_sent r')"
proof -
  have "request_id (to_cancel_request (cancel_ref od) i) = i" for i
    by (simp add: request_id_def to_cancel_request_def)
  with assms show ?thesis by (auto simp: cancel_one_def Let_def ks_send_warned failed_ids_def)
qed

lemma cancel_all_warned:
  assumes "cancel_all send ks pre om = Some r"
  shows "ks_warned r = failed_ids send (ks_session ks) (ks_sent r)"
  using assms unfolding cancel_all_def om_for_each_open_def
  by (rule foldm_invariant [where P = "\<lambda>r. ks_warned r = failed_ids send (ks_session ks) (ks_sent r)"])
    (auto simp: ks_start_def failed_ids_def [of _ _ "[]"] Option.bind_eq_Some_conv dest: cancel_one_warned split: if_splits)

section \<open>The exit code and the last line\<close>

lemma execute_not_clean: "execute_output send ks pre b t0 t1 om = Some out \<Longrightarrow> clean_line \<notin> set out"
  by (auto simp: execute_output_def cancel_all_output_def clean_line_def Option.bind_eq_Some_conv split: if_splits)

lemma trace_not_clean: "clean_line \<noteq> trace_text e"
  by (simp add: trace_text_def clean_line_def split: prod.split)

lemma onMessage_not_clean:
  assumes "onMessage_output api ts report g = Some out"
  shows "clean_line \<notin> set out"
proof -
  from assms obtain y m where "onMessage api ts report g = Some y" "from_execution_report api report = Some m"
    unfolding onMessage_output_def Option.bind_eq_Some_conv by blast
  with assms show ?thesis
    by (cases y) (auto simp: onMessage_output_def trace_not_clean split: sum.splits option.splits)
qed

lemma dispatch_not_clean: "dispatch_output crack api c g = Some out \<Longrightarrow> clean_line \<notin> set out"
  by (cases c) (auto simp: onCreate_output_def onLogon_output_def onLogout_output_def clean_line_def
      dest: onMessage_not_clean [unfolded clean_line_def] split: sum.splits option.splits)

lemma signal_not_clean: "clean_line \<notin> set (signal_output E s t0 t1 p)"
proof -
  have "clean_line \<notin> set out" if "emergency_output send t t' g = Some out" for send t t' g out
    using that execute_not_clean
    by (auto simp: emergency_output_def Option.bind_eq_Some_conv) (simp add: clean_line_def)
  moreover have "clean_line \<noteq> newline @ xs" for xs by (simp add: clean_line_def newline_def)
  ultimately show ?thesis by (auto simp: signal_output_def split: option.splits)
qed

lemma callback_not_clean: "clean_line \<notin> set (callback_output E c p)"
  unfolding callback_output_def
  by (cases "p_gateway p"; cases "p_initiator p") (auto dest: dispatch_not_clean [OF sym])

lemma main_clean: "clean_line \<in> set (main_output C E p) \<longleftrightarrow> p_pc p = At_End"
  by (auto simp: main_output_def clean_line_def print_usage_def replay_output_def
      split: main_pc.splits qf_setup.splits option.splits sum.splits)

lemma clean_line_only_at_end:
  "clean_line \<in> set (step_output C E ev p) \<longleftrightarrow> ev = Main \<and> p_pc p = At_End"
  by (cases ev) (auto simp: step_output.simps main_clean signal_not_clean callback_not_clean split: main_pc.splits)

text \<open>The points from which \<open>main\<close> can only end with exit code 0. The one step into them is that from \<open>At_End\<close>.\<close>

definition returns_0 :: "main_pc set" where
  "returns_0 = {At_Return 0, After_Main 0, Ended (Exited 0)}"

lemma step_returning:
  assumes "p_pc p \<in> {At_Return m, After_Main m}"
  shows "p_pc (process_step E ev p) \<in> {At_Return m, After_Main m, Ended (Exited m)} \<or>
    (\<exists>st. p_pc (process_step E ev p) = Ended st \<and> (\<forall>n. st \<noteq> Exited n))"
proof -
  have alive: "p_pc p \<noteq> Ended st" for st using assms by auto
  show ?thesis
  proof (cases ev)
    case Main
    with assms show ?thesis by (auto simp: step_alive(1) [OF alive] main_step_def leave_main_def)
  next
    case (Signal s t0 t1)
    with assms show ?thesis
      by (auto simp: step_alive(2) [OF alive] deliver_signal_def split: option.split prod.split)
  next
    case (Callback c)
    with assms show ?thesis
      by (auto simp: step_alive(3) [OF alive] deliver_callback_def split: option.split noexcept.split)
  qed
qed

lemma returning_exit:
  "p_pc p \<in> {At_Return m, After_Main m, Ended (Exited m)} \<Longrightarrow> p_pc (run_process E evs p) = Ended (Exited n) \<Longrightarrow> n = m"
proof (induction evs arbitrary: p)
  case (Cons ev evs)
  show ?case
  proof (cases "p_pc p = Ended (Exited m)")
    case True
    with Cons.prems(2) run_ended [OF True, of E "ev # evs"] show ?thesis by simp
  next
    case False
    with step_returning [of p m E ev] Cons.prems Cons.IH [of "process_step E ev p"] show ?thesis by (auto simp: run_ended)
  qed
qed auto

lemma step_into_returns_0:
  assumes "p_pc p \<notin> returns_0" "\<not> (ev = Main \<and> p_pc p = At_End)"
  shows "p_pc (process_step E ev p) \<notin> returns_0"
  using assms
  by (cases ev) (auto simp: returns_0_def process_step.simps main_defs deliver_signal_def deliver_callback_def
      split: main_pc.splits option.splits prod.splits noexcept.splits qf_setup.splits sum.splits if_splits)

lemma step_in_returns_0:
  assumes "p_pc p \<in> returns_0" "p_pc (run_process E evs (process_step E ev p)) = Ended (Exited n)"
  shows "p_pc (process_step E ev p) \<in> returns_0"
proof (cases "p_pc p = Ended (Exited 0)")
  case False
  with assms(1) have "p_pc p \<in> {At_Return 0, After_Main 0}" by (simp add: returns_0_def)
  from step_returning [OF this, of E ev] assms(2) show ?thesis by (auto simp: returns_0_def run_ended)
qed (simp add: returns_0_def step_ended)

lemma clean_line_run:
  "p_pc (run_process E evs p) = Ended (Exited n) \<Longrightarrow>
   clean_line \<in> set (run_output C E evs p) \<longleftrightarrow> n = 0 \<and> p_pc p \<notin> returns_0"
proof (induction evs arbitrary: p)
  case Nil
  then show ?case by (auto simp: returns_0_def)
next
  case (Cons ev evs)
  let ?p = "process_step E ev p"
  have IH: "clean_line \<in> set (run_output C E evs ?p) \<longleftrightarrow> n = 0 \<and> p_pc ?p \<notin> returns_0"
    using Cons by simp
  show ?case
  proof (cases "ev = Main \<and> p_pc p = At_End")
    case True
    then have "p_pc ?p = After_Main 0" by (simp add: process_step.simps main_step_def leave_main_def)
    with Cons.prems returning_exit [of ?p 0 E evs n] have "n = 0" by simp
    with True show ?thesis by (simp add: clean_line_only_at_end returns_0_def)
  next
    case False
    then have "clean_line \<in> set (run_output C E (ev # evs) p) \<longleftrightarrow> n = 0 \<and> p_pc ?p \<notin> returns_0"
      using IH by (auto simp: clean_line_only_at_end)
    moreover have "p_pc ?p \<in> returns_0 \<longleftrightarrow> p_pc p \<in> returns_0"
      using step_into_returns_0 [OF _ False, of E] step_in_returns_0 [of p E evs ev n] Cons.prems by auto
    ultimately show ?thesis by simp
  qed
qed

section \<open>Properties\<close>

text \<open>The count of the killswitch is that of its attempts: whatever the outcome of the sends,
  \<open>cancel_all\<close> prints one warning for each request whose send throws and then reports as sent as many
  requests as there are open orders, those of the warnings included.\<close>

lemma cancel_report_counts_attempts:
  assumes "om_ok om"
  shows "\<exists>r. cancel_all send ks pre om = Some r \<and>
    cancel_all_output r =
      map (\<lambda>i. ''[KILLSWITCH] warning: session not found for cancel '' @ i @ newline)
        (failed_ids send (ks_session ks) (map (\<lambda>(i, od). cancel_request pre i od) (enumerate 0 (open_orders om)))) @
      [''[KILLSWITCH] sent '' @ to_dec (length (open_orders om)) @ '' cancel requests'' @ newline]"
proof -
  obtain r where r: "cancel_all send ks pre om = Some r" "unat (ks_count r) = length (open_orders om)"
      "ks_sent r = map (\<lambda>(i, od). cancel_request pre i od) (enumerate 0 (open_orders om))"
    using cancel_all_sends [OF assms] by blast
  then show ?thesis using cancel_all_warned [OF r(1)] by (simp add: cancel_all_output_def)
qed

text \<open>An order that is not sent is reported, and one that is sent is not: \<open>send_order\<close> prints a line
  exactly when it returns the empty string, one line with the reason, and then nothing was sent and
  nothing changed.\<close>

lemma blocked_order_is_reported:
  assumes "send_order send ts symb sd q px g = Some (g', ms, res)"
  shows "\<exists>out. send_order_output symb sd q px g = Some out \<and> (out \<noteq> [] \<longleftrightarrow> res = Inr []) \<and>
    (out \<noteq> [] \<longrightarrow> g' = g \<and> ms = [] \<and>
      (out = [''[FIX] send_order blocked: not connected'' @ newline] \<and> \<not> is_connected g \<or>
       (\<exists>r. r \<noteq> Pass \<and> check_full (g_risk g) symb sd q px (g_tracker g) (g_orders g) = Some r \<and>
          out = [''[RISK] order blocked: '' @ risk_result_to_string r @ newline])))"
  using assms
proof (cases rule: send_order_cases)
  case blocked
  then show ?thesis by (auto simp: send_order_output_def is_connected_def)
next
  case (full evt lg ex)
  then show ?thesis by (simp add: send_order_output_def is_connected_def)
next
  case (booked evt lg sq om)
  then show ?thesis by (auto simp: send_order_output_def is_connected_def next_order_id_def)
qed

text \<open>C21. The last line tells the truth: in every run of the process, under every schedule of signals and
  callbacks, a process that ends by returning from \<open>main\<close> has printed that the shutdown was clean exactly
  when its exit code is 0. So no other path through \<open>main\<close>, a usage error or a caught exception, ends with
  code 0, and none of them comes past the line.\<close>

theorem clean_line_iff_exit_0:
  assumes "p_pc (run_process E evs (start_process entry)) = Ended (Exited n)"
  shows "clean_line \<in> set (run_output C E evs (start_process entry)) \<longleftrightarrow> n = 0"
  using clean_line_run [OF assms, of C] by (simp add: start_process_def returns_0_def)

theorem clean_line_iff_exit_0_witness:
  "clean_line \<in> set (run_output \<lparr>argv0 = ''run_gateway'', what = []\<rparr> sample_env (sample_schedule @ [Main]) (start_process None)) \<and>
   clean_line \<notin> set (run_output \<lparr>argv0 = ''run_gateway'', what = ''no session''\<rparr> (sample_env\<lparr>env_qf := QF_ConfigError\<rparr>)
     (replicate 6 Main) (start_process None))"
proof
  have "p_pc (run_process sample_env (sample_schedule @ [Main]) (start_process None)) = Ended (Exited 0)"
    unfolding run_process_append sample_left by (simp_all add: step_alive main_defs)
  from clean_line_iff_exit_0 [OF this] show "clean_line \<in> set (run_output \<lparr>argv0 = ''run_gateway'', what = []\<rparr> sample_env
      (sample_schedule @ [Main]) (start_process None))" by simp
  have "startup (env_os sample_env) None = Some (Some (close_log empty_log),
      Inr (new_gateway empty_log new_position_tracker new_order_manager (new_risk_checker default_limits)))"
    by (simp add: sample_env_def startup_def open_or_create_new pt_replay_foldm om_replay_foldm)
  then have "p_pc (main_only (sample_env\<lparr>env_qf := QF_ConfigError\<rparr>) 6 None) = Ended (Exited 1)"
    using start_failures [of "sample_env\<lparr>env_qf := QF_ConfigError\<rparr>" None] by (simp add: sample_env_def)
  then show "clean_line \<notin> set (run_output \<lparr>argv0 = ''run_gateway'', what = ''no session''\<rparr> (sample_env\<lparr>env_qf := QF_ConfigError\<rparr>)
      (replicate 6 Main) (start_process None))"
    using clean_line_iff_exit_0 [of "sample_env\<lparr>env_qf := QF_ConfigError\<rparr>" "replicate 6 Main" None 1] by (simp add: main_only_def)
qed

end
