(* ===== verification/Table_Frames.thy ===== *)
theory Table_Frames
  imports RiskChecker
begin

text \<open>
  The operations of the two tables look at no slot beyond those in use and the next free one. What they
  do on the first slots of an array they therefore do on the whole array: a defined result stays the same
  when slots are added behind (\<open>pt_pad\<close>, \<open>om_pad\<close>). A run on a new table can so be evaluated on a few slots.
\<close>

section \<open>Arrays with more slots\<close>

definition pt_pad :: "position list \<Rightarrow> position_tracker \<Rightarrow> position_tracker" where
  "pt_pad ys pt = pt\<lparr>pt_slots := pt_slots pt @ ys\<rparr>"

definition om_pad :: "order list \<Rightarrow> order_manager \<Rightarrow> order_manager" where
  "om_pad ys om = om\<lparr>om_slots := om_slots om @ ys\<rparr>"

lemma pad_simps [simp]:
  "pt_slots (pt_pad ys pt) = pt_slots pt @ ys" "pt_count (pt_pad ys pt) = pt_count pt"
  "om_slots (om_pad zs om) = om_slots om @ zs" "om_count (om_pad zs om) = om_count om"
  by (simp_all add: pt_pad_def om_pad_def)

definition pt_first :: "nat \<Rightarrow> position_tracker" where
  "pt_first k = \<lparr>pt_slots = replicate k zero_position, pt_count = 0\<rparr>"

definition om_first :: "nat \<Rightarrow> order_manager" where
  "om_first k = \<lparr>om_slots = replicate k zero_order, om_count = 0\<rparr>"

lemma new_position_tracker_pad:
  "k \<le> MAX_SYMBOLS \<Longrightarrow> new_position_tracker = pt_pad (replicate (MAX_SYMBOLS - k) zero_position) (pt_first k)"
  by (simp add: new_position_tracker_def pt_pad_def pt_first_def flip: replicate_add)

lemma new_order_manager_pad:
  "k \<le> MAX_ORDERS \<Longrightarrow> new_order_manager = om_pad (replicate (MAX_ORDERS - k) zero_order) (om_first k)"
  by (simp add: new_order_manager_def om_pad_def om_first_def flip: replicate_add)

lemma at_index_append [simp]: "i < length xs \<Longrightarrow> at_index (xs @ ys) i = Some (xs ! i)"
  by (simp add: at_index_def nth_append)

context scan_loop
begin

lemma scan_pad: "scan sl k i n = Some r \<Longrightarrow> scan (sl @ ys) k i n = Some r \<and> (\<forall>j. r = Some j \<longrightarrow> j < length sl)"
proof (induction "n - i" arbitrary: i)
  case 0
  then show ?case by (simp add: scan_step [of _ _ i])
next
  case (Suc m)
  from Suc.hyps(2) have i: "i < n" and m: "m = n - Suc i" by simp_all
  from Suc.prems i obtain c where c: "i < length sl" "strncmp (key (sl ! i)) k 8 = Some c"
      "(if c = 0 then Some (Some i) else scan sl k (Suc i) n) = Some r"
    by (auto simp: scan_step [of sl k i] Option.bind_eq_Some_conv)
  then show ?case using i Suc.hyps(1) [OF m]
    by (cases "c = 0") (auto simp: scan_step [of "sl @ ys" k i] nth_append)
qed

lemmas scan_append = scan_pad [THEN conjunct1]
  and scan_index = scan_pad [THEN conjunct2, rule_format]

end

section \<open>The positions\<close>

lemma pt_find_pad:
  assumes "pt_find pt symb = Some r"
  shows "pt_find (pt_pad ys pt) symb = Some r" "r = Some i \<Longrightarrow> i < length (pt_slots pt)"
  using assms ptt.scan_append ptt.scan_index by (auto simp: pt_find_def)

lemma pt_get_pad:
  assumes "pt_get pt symb = Some r"
  shows "pt_get (pt_pad ys pt) symb = Some r"
proof -
  from assms obtain j where "pt_get_loop (pt_slots pt) (sv_data symb) 0 (pt_count pt) = Some j"
      "r = map_option ((!) (pt_slots pt)) j"
    by (auto simp: pt_get_def)
  with ptg.scan_append [OF this(1)] ptg.scan_index [of "pt_slots pt" "sv_data symb" 0 "pt_count pt"] show ?thesis
    by (cases j) (simp_all add: pt_get_def nth_append)
qed

lemma pt_get_or_create_pad:
  assumes "pt_get_or_create pt symb = Some (pt1, f)"
  shows "pt_get_or_create (pt_pad ys pt) symb = Some (pt_pad ys pt1, f)" "f = Some i \<Longrightarrow> i < length (pt_slots pt1)"
proof -
  from assms obtain r where r: "pt_find pt symb = Some r" by (auto simp: pt_get_or_create_def Option.bind_eq_Some_conv)
  from assms pt_find_pad [OF r] show "pt_get_or_create (pt_pad ys pt) symb = Some (pt_pad ys pt1, f)"
      "f = Some i \<Longrightarrow> i < length (pt_slots pt1)"
    by (auto simp: pt_get_or_create_def r pt_pad_def list_update_append Option.bind_eq_Some_conv
        split: option.splits if_splits)
qed

lemma pt_apply_event_pad:
  assumes "pt_apply_event e pt = Some pt'"
  shows "pt_apply_event e (pt_pad ys pt) = Some (pt_pad ys pt')"
proof (cases "is_fill e")
  case True
  with assms obtain pt1 f where c: "pt_get_or_create pt (symbol_view e) = Some (pt1, f)"
    by (auto simp: pt_apply_event_def Option.bind_eq_Some_conv)
  show ?thesis
  proof (cases f)
    case None
    with assms c True pt_get_or_create_pad(1) [OF c] show ?thesis by (simp add: pt_apply_event_def)
  next
    case (Some i)
    with assms c True pt_get_or_create_pad [OF c] show ?thesis
      by (auto simp: pt_apply_event_def Option.bind_eq_Some_conv list_update_append pt_pad_def nth_append)
  qed
qed (use assms in \<open>simp add: pt_apply_event_def\<close>)

lemma mark_to_market_pad:
  assumes "mark_to_market pt symb mkt = Some pt'"
  shows "mark_to_market (pt_pad ys pt) symb mkt = Some (pt_pad ys pt')"
proof -
  from assms obtain r where r: "pt_find pt symb = Some r" by (auto simp: mark_to_market_def Option.bind_eq_Some_conv)
  show ?thesis
  proof (cases r)
    case None
    with assms r pt_find_pad(1) [OF r] show ?thesis by (simp add: mark_to_market_def)
  next
    case (Some i)
    with assms r pt_find_pad [OF r] show ?thesis
      by (auto simp: mark_to_market_def Option.bind_eq_Some_conv list_update_append pt_pad_def nth_append)
  qed
qed

section \<open>The orders\<close>

lemma om_find_pad:
  assumes "om_find om oid = Some r"
  shows "om_find (om_pad ys om) oid = Some r" "r = Some i \<Longrightarrow> i < length (om_slots om)"
  using assms omt.scan_append omt.scan_index by (auto simp: om_find_def)

lemma om_get_pad:
  assumes "om_get om oid = Some r"
  shows "om_get (om_pad ys om) oid = Some r"
proof -
  from assms obtain j where "om_get_loop (om_slots om) (sv_data oid) 0 (om_count om) = Some j"
      "r = map_option ((!) (om_slots om)) j"
    by (auto simp: om_get_def)
  with omg.scan_append [OF this(1)] omg.scan_index [of "om_slots om" "sv_data oid" 0 "om_count om"] show ?thesis
    by (cases j) (simp_all add: om_get_def nth_append)
qed

lemma om_get_or_create_pad:
  assumes "om_get_or_create om oid = Some (om1, f)"
  shows "om_get_or_create (om_pad ys om) oid = Some (om_pad ys om1, f)" "f = Some i \<Longrightarrow> i < length (om_slots om1)"
proof -
  from assms obtain r where r: "om_find om oid = Some r" by (auto simp: om_get_or_create_def Option.bind_eq_Some_conv)
  from assms om_find_pad [OF r] show "om_get_or_create (om_pad ys om) oid = Some (om_pad ys om1, f)"
      "f = Some i \<Longrightarrow> i < length (om_slots om1)"
    by (auto simp: om_get_or_create_def r om_pad_def list_update_append Option.bind_eq_Some_conv
        split: option.splits if_splits)
qed

lemma handle_new_pad:
  assumes "handle_new e om = Some om'"
  shows "handle_new e (om_pad ys om) = Some (om_pad ys om')"
proof -
  from assms obtain om1 f where c: "om_get_or_create om (order_id_view e) = Some (om1, f)"
    by (auto simp: handle_new_def Option.bind_eq_Some_conv)
  show ?thesis
  proof (cases f)
    case None
    with assms c om_get_or_create_pad(1) [OF c] show ?thesis by (simp add: handle_new_def)
  next
    case (Some i)
    with assms c om_get_or_create_pad [OF c] show ?thesis
      by (auto simp: handle_new_def Option.bind_eq_Some_conv list_update_append om_pad_def nth_append)
  qed
qed

lemma om_with_order_pad:
  assumes "om_with_order om oid body = Some om'"
  shows "om_with_order (om_pad ys om) oid body = Some (om_pad ys om')"
proof -
  from assms obtain r where r: "om_find om oid = Some r" by (auto simp: om_with_order_def Option.bind_eq_Some_conv)
  show ?thesis
  proof (cases r)
    case None
    with assms r om_find_pad(1) [OF r] show ?thesis by (simp add: om_with_order_def)
  next
    case (Some i)
    with assms r om_find_pad [OF r] show ?thesis
      by (auto simp: om_with_order_def Option.bind_eq_Some_conv list_update_append om_pad_def nth_append)
  qed
qed

lemma om_apply_event_pad:
  "om_apply_event e om = Some om' \<Longrightarrow> om_apply_event e (om_pad ys om) = Some (om_pad ys om')"
  by (auto simp: om_apply_event_def handle_fill_def handle_cancel_def handle_reject_def handle_amend_def
      handle_new_pad om_with_order_pad split: event_type.splits)

lemma foldm_mono:
  assumes "\<And>x s s'. f x s = Some s' \<Longrightarrow> g x s = Some s'"
  shows "foldm f xs s = Some r \<Longrightarrow> foldm g xs s = Some r"
  by (induction xs arbitrary: s) (auto simp: Option.bind_eq_Some_conv dest: assms)

lemma open_exposure_pad: "open_exposure om symb = Some ex \<Longrightarrow> open_exposure (om_pad ys om) symb = Some ex"
  unfolding open_exposure_def
  by (simp, erule foldm_mono [rotated]) (auto simp: Option.bind_eq_Some_conv nth_append)

lemma open_order_count_pad: "open_order_count om = Some n \<Longrightarrow> open_order_count (om_pad ys om) = Some n"
  unfolding open_order_count_def
  by (simp, erule foldm_mono [rotated]) (auto simp: Option.bind_eq_Some_conv nth_append)

section \<open>The checks\<close>

lemma check_tracker_pad:
  "check_tracker rc symb sd q px pt = Some v \<Longrightarrow> check_tracker rc symb sd q px (pt_pad ys pt) = Some v"
  by (auto simp: check_tracker_def Option.bind_eq_Some_conv dest: pt_get_pad)

lemma check_full_pad:
  assumes "check_full rc symb sd q px pt om = Some v"
  shows "check_full rc symb sd q px (pt_pad ys pt) (om_pad zs om) = Some v"
proof (cases "pt_get pt symb = None \<or> open_exposure om symb = None")
  case True
  with assms show ?thesis by (auto simp: check_full_def Let_def Option.bind_eq_Some_conv split: if_splits)
next
  case False
  then obtain p ex where "pt_get pt symb = Some p" "open_exposure om symb = Some ex" by auto
  with assms pt_get_pad [OF this(1)] open_exposure_pad [OF this(2)] show ?thesis
    by (simp add: check_full_def Let_def cong: if_cong)
qed

end
