(* ===== verification/Unit_Tests.thy ===== *)
theory Unit_Tests
  imports Table_Frames MessageTranslator Struct_Layout
begin

text \<open>
  The unit tests of the repository, \<open>tests/test_main.cpp\<close>, as runs of the model: every test function is a
  definition with its calls and its checks in the order of the source, and \<open>main\<close> runs them and returns
  its exit code. The tests of the bookkeeping in the other files of \<open>tests\<close> (\<open>test_OrderEvent\<close>,
  \<open>test_EventLog\<close>, \<open>test_PositionTracker\<close>, \<open>test_OrderManager\<close>, \<open>test_RiskChecker\<close>) repeat these cases,
  some at other prices.

  A test is a function on the two counters of the harness; undefined behaviour and an exception that
  leaves a test are \<open>None\<close>. Clock readings and the answers of the operating system are arguments.
\<close>

section \<open>The harness\<close>

record test_state =
  tt_tracker :: position_tracker
  tt_orders :: order_manager
  tests_run :: nat
  tests_passed :: nat

type_synonym test_step = "test_state \<Rightarrow> test_state option"
type_synonym counters = "nat \<times> nat"

text \<open>The macros \<open>CHECK\<close> and \<open>CHECK_EQ\<close>.\<close>

definition CHECK :: "bool \<Rightarrow> test_step" where
  "CHECK b s = Some (s\<lparr>tests_run := tests_run s + 1, tests_passed := (if b then tests_passed s + 1 else tests_passed s)\<rparr>)"

text \<open>A double literal is the double nearest to it.\<close>

definition fp :: "rat \<Rightarrow> int option" where
  "fp p = d_to_i64 (d_mul (round64 p) (of_int PRICE_SCALE))"

definition fill_event :: "string \<Rightarrow> side \<Rightarrow> int \<Rightarrow> rat \<Rightarrow> string \<Rightarrow> bool \<Rightarrow> order_event option" where
  "fill_event symb sd q p oid partial = do {
     px \<leftarrow> fp p;
     make_fill (sv_of symb) sd q px (sv_of oid) (sv_of '''') partial }"

definition new_event :: "string \<Rightarrow> side \<Rightarrow> int \<Rightarrow> rat \<Rightarrow> string \<Rightarrow> order_event option" where
  "new_event symb sd q p oid = do {
     px \<leftarrow> fp p;
     make_new_order (sv_of symb) sd q px (sv_of oid) }"

definition cancel_event :: "string \<Rightarrow> order_event option" where
  "cancel_event oid = do {
     i \<leftarrow> strncpy (c_str oid) 8;
     Some (zero_event\<lparr>etype := Cancel, order_id := i\<rparr>) }"

section \<open>Calls and checks\<close>

definition apply_t :: "order_event option \<Rightarrow> test_step" where
  "apply_t ev s = do { e \<leftarrow> ev; t \<leftarrow> pt_apply_event e (tt_tracker s); Some (s\<lparr>tt_tracker := t\<rparr>) }"

definition apply_o :: "order_event option \<Rightarrow> test_step" where
  "apply_o ev s = do { e \<leftarrow> ev; t \<leftarrow> om_apply_event e (tt_orders s); Some (s\<lparr>tt_orders := t\<rparr>) }"

definition mark_t :: "string \<Rightarrow> rat \<Rightarrow> test_step" where
  "mark_t symb p s = do { px \<leftarrow> fp p; t \<leftarrow> mark_to_market (tt_tracker s) (sv_of symb) px; Some (s\<lparr>tt_tracker := t\<rparr>) }"

text \<open>A check on the pointer \<open>get\<close> returns, and one on what it points to: a null pointer there is undefined.\<close>

definition check_pos_found :: "string \<Rightarrow> test_step" where
  "check_pos_found symb s = do { p \<leftarrow> pt_get (tt_tracker s) (sv_of symb); CHECK (p \<noteq> None) s }"

definition check_pos :: "string \<Rightarrow> (position \<Rightarrow> bool option) \<Rightarrow> test_step" where
  "check_pos symb c s = do { f \<leftarrow> pt_get (tt_tracker s) (sv_of symb); p \<leftarrow> f; b \<leftarrow> c p; CHECK b s }"

definition check_symbols :: "nat \<Rightarrow> test_step" where
  "check_symbols n s = CHECK (symbol_count (tt_tracker s) = n) s"

definition check_ord_found :: "string \<Rightarrow> test_step" where
  "check_ord_found oid s = do { f \<leftarrow> om_get (tt_orders s) (sv_of oid); CHECK (f \<noteq> None) s }"

definition check_ord :: "string \<Rightarrow> (order \<Rightarrow> bool option) \<Rightarrow> test_step" where
  "check_ord oid c s = do { f \<leftarrow> om_get (tt_orders s) (sv_of oid); od \<leftarrow> f; b \<leftarrow> c od; CHECK b s }"

definition check_exposure :: "string \<Rightarrow> int \<Rightarrow> test_step" where
  "check_exposure symb n s = do { ex \<leftarrow> open_exposure (tt_orders s) (sv_of symb); CHECK (ex = n) s }"

definition check_risk_pos :: "string \<Rightarrow> side \<Rightarrow> int \<Rightarrow> rat \<Rightarrow> risk_result \<Rightarrow> test_step" where
  "check_risk_pos symb sd q p r s = do {
     px \<leftarrow> fp p;
     v \<leftarrow> check_tracker (new_risk_checker default_limits) (sv_of symb) sd q px (tt_tracker s);
     CHECK (v = r) s }"

definition check_risk :: "string \<Rightarrow> side \<Rightarrow> int \<Rightarrow> rat \<Rightarrow> risk_result \<Rightarrow> test_step" where
  "check_risk symb sd q p r s = do {
     px \<leftarrow> fp p;
     v \<leftarrow> check_full (new_risk_checker default_limits) (sv_of symb) sd q px (tt_tracker s) (tt_orders s);
     CHECK (v = r) s }"

text \<open>A test on given tables, and one that starts with new ones.\<close>

fun test_on :: "position_tracker \<Rightarrow> order_manager \<Rightarrow> test_step list \<Rightarrow> counters \<Rightarrow> counters option" where
  "test_on t om steps (r, p) = do {
     s \<leftarrow> foldm (\<lambda>c. c) steps \<lparr>tt_tracker = t, tt_orders = om, tests_run = r, tests_passed = p\<rparr>;
     Some (tests_run s, tests_passed s) }"

definition table_test :: "test_step list \<Rightarrow> counters \<Rightarrow> counters option" where
  "table_test = test_on new_position_tracker new_order_manager"

section \<open>The tests\<close>

definition test_struct_sizes :: "counters \<Rightarrow> counters option" where
  "test_struct_sizes = table_test
     [CHECK (struct_size OrderEvent_types = 64), CHECK (struct_size Position_types = 64),
      CHECK (struct_size LogHeader_types = 64)]"

definition test_make_fill :: "counters \<Rightarrow> counters option" where
  "test_make_fill c = do {
     e \<leftarrow> fill_event ''AAPL'' Buy 100 175.50 ''O1'' False;
     px \<leftarrow> fp 175.50;
     table_test [CHECK (is_fill e), CHECK (fill_qty e = 100), CHECK (fill_price e = px), CHECK (side e = Buy),
       CHECK (sv_string (symbol_view e) = ''AAPL'')] c }"

text \<open>The log tests. \<open>open_log\<close> and \<open>append_log\<close> are the constructor and \<open>append\<close> where an exception ends the test.\<close>

definition no_throw :: "'e + 'a \<Rightarrow> 'a option" where
  "no_throw r = (case r of Inl _ \<Rightarrow> None | Inr x \<Rightarrow> Some x)"

definition open_log :: "os_env \<Rightarrow> log_file option \<Rightarrow> event_log option" where
  "open_log os entry = do { (f, r) \<leftarrow> open_or_create os entry; no_throw r }"

definition append_log :: "timespec \<Rightarrow> order_event \<Rightarrow> event_log \<Rightarrow> (event_log \<times> 64 word) option" where
  "append_log ts e lg = do { (lg', r) \<leftarrow> log_append ts e lg; sq \<leftarrow> no_throw r; Some (lg', sq) }"

definition test_event_log :: "os_env \<Rightarrow> (nat \<Rightarrow> timespec) \<Rightarrow> counters \<Rightarrow> counters option" where
  "test_event_log os clk c = do {
     lg0 \<leftarrow> open_log os None;
     e0 \<leftarrow> fill_event ''AAPL'' Buy 100 175.00 ''O1'' False;
     (lg1, s0) \<leftarrow> append_log (clk 0) e0 lg0;
     e1 \<leftarrow> fill_event ''AAPL'' Sell 50 176.00 ''O2'' False;
     (lg2, s1) \<leftarrow> append_log (clk 1) e1 lg1;
     e2 \<leftarrow> fill_event ''TSLA'' Buy 20 250.00 ''O3'' False;
     (lg3, s2) \<leftarrow> append_log (clk 2) e2 lg2;
     f \<leftarrow> read lg3 0;
     r \<leftarrow> f;
     log2 \<leftarrow> open_log os (Some (close_log lg3));
     n \<leftarrow> replay log2 (\<lambda>_ k. Some (Suc k)) 0;
     table_test [CHECK (log_size lg0 = 0), CHECK (s0 = 0), CHECK (s1 = 1), CHECK (s2 = 2), CHECK (log_size lg3 = 3),
       CHECK (f \<noteq> None), CHECK (fill_qty r = 100), CHECK (log_size log2 = 3), CHECK (n = 3)] c }"

definition test_simple_long :: "counters \<Rightarrow> counters option" where
  "test_simple_long = table_test
     [apply_t (fill_event ''AAPL'' Buy 100 175.50 ''O1'' False),
      check_pos_found ''AAPL'',
      check_pos ''AAPL'' (\<lambda>p. Some (net_qty p = 100)),
      check_pos ''AAPL'' (\<lambda>p. do { a \<leftarrow> fp 175.50; Some (avg_entry_price p = a) }),
      check_pos ''AAPL'' (\<lambda>p. Some (realized_pnl p = 0))]"

definition test_partial_close :: "counters \<Rightarrow> counters option" where
  "test_partial_close = table_test
     [apply_t (fill_event ''AAPL'' Buy 100 175.50 ''O1'' False),
      apply_t (fill_event ''AAPL'' Sell 50 176.00 ''O2'' False),
      check_pos ''AAPL'' (\<lambda>p. Some (net_qty p = 50)),
      check_pos ''AAPL'' (\<lambda>p. do { a \<leftarrow> fp 176.00; b \<leftarrow> fp 175.50; Some (realized_pnl p = 50 * (a - b)) })]"

definition test_full_round_trip :: "counters \<Rightarrow> counters option" where
  "test_full_round_trip = table_test
     [apply_t (fill_event ''AAPL'' Buy 100 175.00 ''O1'' False),
      apply_t (fill_event ''AAPL'' Sell 100 177.00 ''O2'' False),
      check_pos ''AAPL'' (\<lambda>p. Some (is_flat p)),
      check_pos ''AAPL'' (\<lambda>p. do { a \<leftarrow> fp 177.00; b \<leftarrow> fp 175.00; Some (realized_pnl p = 100 * (a - b)) })]"

definition test_mark_to_market :: "counters \<Rightarrow> counters option" where
  "test_mark_to_market = table_test
     [apply_t (fill_event ''TSLA'' Buy 50 250.00 ''O1'' False),
      mark_t ''TSLA'' 255.00,
      check_pos ''TSLA'' (\<lambda>p. do { a \<leftarrow> fp 255.00; b \<leftarrow> fp 250.00; Some (unrealized_pnl p = 50 * (a - b)) })]"

definition test_multi_symbol :: "counters \<Rightarrow> counters option" where
  "test_multi_symbol = table_test
     [apply_t (fill_event ''AAPL'' Buy 100 175.00 ''O1'' False),
      apply_t (fill_event ''TSLA'' Buy 20 250.00 ''O2'' False),
      apply_t (fill_event ''MSFT'' Sell 30 330.00 ''O3'' False),
      check_symbols 3,
      check_pos ''AAPL'' (\<lambda>p. Some (net_qty p = 100)),
      check_pos ''TSLA'' (\<lambda>p. Some (net_qty p = 20)),
      check_pos ''MSFT'' (\<lambda>p. Some (net_qty p = - 30))]"

definition test_short_position :: "counters \<Rightarrow> counters option" where
  "test_short_position = table_test
     [apply_t (fill_event ''SPY'' Sell 100 200.00 ''O1'' False),
      check_pos ''SPY'' (\<lambda>p. Some (net_qty p = - 100)),
      apply_t (fill_event ''SPY'' Buy 100 198.00 ''O2'' False),
      check_pos ''SPY'' (\<lambda>p. Some (is_flat p)),
      check_pos ''SPY'' (\<lambda>p. do { a \<leftarrow> fp 200.00; b \<leftarrow> fp 198.00; Some (realized_pnl p = 100 * (a - b)) })]"

definition test_replay_rebuilds_state :: "os_env \<Rightarrow> (nat \<Rightarrow> timespec) \<Rightarrow> counters \<Rightarrow> counters option" where
  "test_replay_rebuilds_state os clk c = do {
     lg0 \<leftarrow> open_log os None;
     e0 \<leftarrow> fill_event ''AAPL'' Buy 100 175.00 ''O1'' False;
     (lg1, _) \<leftarrow> append_log (clk 0) e0 lg0;
     e1 \<leftarrow> fill_event ''AAPL'' Sell 40 176.00 ''O2'' False;
     (lg2, _) \<leftarrow> append_log (clk 1) e1 lg1;
     log2 \<leftarrow> open_log os (Some (close_log lg2));
     t \<leftarrow> pt_replay_from log2 new_position_tracker;
     test_on t new_order_manager
       [check_pos_found ''AAPL'',
        check_pos ''AAPL'' (\<lambda>p. Some (net_qty p = 60)),
        check_pos ''AAPL'' (\<lambda>p. do { a \<leftarrow> fp 176.00; b \<leftarrow> fp 175.00; Some (realized_pnl p = 40 * (a - b)) })] c }"

definition test_risk_checks :: "counters \<Rightarrow> counters option" where
  "test_risk_checks = table_test (
     [check_risk_pos ''AAPL'' Buy 100 175.00 Pass,
      check_risk_pos ''AAPL'' Buy 50000 175.00 FailMaxQty] @
     replicate 5 (apply_t (fill_event ''AAPL'' Buy 10000 175.00 ''Ox'' False)) @
     [check_pos ''AAPL'' (\<lambda>p. Some (net_qty p = 50000)),
      check_risk_pos ''AAPL'' Buy 1 175.00 FailPositionLimit,
      check_risk_pos ''AAPL'' Sell 5000 176.00 Pass])"

definition test_order_new :: "counters \<Rightarrow> counters option" where
  "test_order_new = table_test
     [apply_o (new_event ''AAPL'' Buy 100 175.00 ''O1''),
      check_ord_found ''O1'',
      check_ord ''O1'' (\<lambda>od. Some (o_state od = Pending)),
      check_ord ''O1'' (\<lambda>od. Some (original_qty od = 100)),
      check_ord ''O1'' (\<lambda>od. do { r \<leftarrow> remaining_qty od; Some (r = 100) }),
      check_ord ''O1'' (\<lambda>od. Some (filled_qty od = 0)),
      check_ord ''O1'' (\<lambda>od. Some (sv_string (o_symbol_view od) = ''AAPL'')),
      check_ord ''O1'' (\<lambda>od. Some (o_side od = Buy))]"

definition test_order_partial_fill :: "counters \<Rightarrow> counters option" where
  "test_order_partial_fill = table_test
     [apply_o (new_event ''AAPL'' Buy 100 175.00 ''O1''),
      apply_o (fill_event ''AAPL'' Buy 60 174.98 ''O1'' True),
      check_ord ''O1'' (\<lambda>od. Some (o_state od = PartiallyFilled)),
      check_ord ''O1'' (\<lambda>od. Some (filled_qty od = 60)),
      check_ord ''O1'' (\<lambda>od. do { r \<leftarrow> remaining_qty od; Some (r = 40) }),
      check_ord ''O1'' (\<lambda>od. Some (is_open od))]"

definition test_order_full_fill :: "counters \<Rightarrow> counters option" where
  "test_order_full_fill = table_test
     [apply_o (new_event ''AAPL'' Buy 100 175.00 ''O1''),
      apply_o (fill_event ''AAPL'' Buy 60 174.98 ''O1'' True),
      apply_o (fill_event ''AAPL'' Buy 40 175.00 ''O1'' False),
      check_ord ''O1'' (\<lambda>od. Some (o_state od = Filled)),
      check_ord ''O1'' (\<lambda>od. Some (filled_qty od = 100)),
      check_ord ''O1'' (\<lambda>od. do { r \<leftarrow> remaining_qty od; Some (r = 0) }),
      check_ord ''O1'' (\<lambda>od. Some (is_terminal od))]"

definition test_order_avg_fill_price :: "counters \<Rightarrow> counters option" where
  "test_order_avg_fill_price = table_test
     [apply_o (new_event ''AAPL'' Buy 100 175.00 ''O1''),
      apply_o (fill_event ''AAPL'' Buy 60 174.00 ''O1'' True),
      apply_o (fill_event ''AAPL'' Buy 40 176.50 ''O1'' False),
      check_ord ''O1'' (\<lambda>od. do {
        a \<leftarrow> fp 174.00; b \<leftarrow> fp 176.50;
        ca \<leftarrow> i64 (a * 60); cb \<leftarrow> i64 (b * 40); total \<leftarrow> i64 (ca + cb); expected \<leftarrow> i64 (total sdiv 100);
        Some (avg_fill_price od = expected) })]"

definition test_order_cancel :: "counters \<Rightarrow> counters option" where
  "test_order_cancel = table_test
     [apply_o (new_event ''AAPL'' Buy 100 175.00 ''O1''),
      apply_o (fill_event ''AAPL'' Buy 30 175.00 ''O1'' True),
      apply_o (cancel_event ''O1''),
      check_ord ''O1'' (\<lambda>od. Some (o_state od = Cancelled)),
      check_ord ''O1'' (\<lambda>od. Some (is_terminal od)),
      check_ord ''O1'' (\<lambda>od. Some (filled_qty od = 30)),
      check_ord ''O1'' (\<lambda>od. do { r \<leftarrow> remaining_qty od; Some (r = 70) })]"

definition test_open_exposure :: "counters \<Rightarrow> counters option" where
  "test_open_exposure = table_test
     [apply_o (new_event ''AAPL'' Buy 100 175.00 ''O1''),
      apply_o (new_event ''AAPL'' Buy 50 174.50 ''O2''),
      apply_o (new_event ''AAPL'' Sell 30 176.00 ''O3''),
      check_exposure ''AAPL'' 120,
      apply_o (fill_event ''AAPL'' Buy 100 175.00 ''O1'' False),
      check_exposure ''AAPL'' 20]"

definition test_order_replay :: "os_env \<Rightarrow> (nat \<Rightarrow> timespec) \<Rightarrow> counters \<Rightarrow> counters option" where
  "test_order_replay os clk c = do {
     lg0 \<leftarrow> open_log os None;
     e0 \<leftarrow> new_event ''TSLA'' Sell 50 250.00 ''O1'';
     (lg1, _) \<leftarrow> append_log (clk 0) e0 lg0;
     e1 \<leftarrow> fill_event ''TSLA'' Sell 50 250.10 ''O1'' False;
     (lg2, _) \<leftarrow> append_log (clk 1) e1 lg1;
     log2 \<leftarrow> open_log os (Some (close_log lg2));
     om \<leftarrow> om_replay_from log2 new_order_manager;
     test_on new_position_tracker om
       [check_ord_found ''O1'',
        check_ord ''O1'' (\<lambda>od. Some (o_state od = Filled)),
        check_ord ''O1'' (\<lambda>od. Some (filled_qty od = 50))] c }"

definition test_risk_blind_spot :: "counters \<Rightarrow> counters option" where
  "test_risk_blind_spot = table_test
     [apply_t (fill_event ''AAPL'' Buy 40000 175.00 ''F1'' False),
      apply_o (new_event ''AAPL'' Buy 15000 175.00 ''O1''),
      check_risk_pos ''AAPL'' Buy 5000 175.00 Pass,
      check_risk ''AAPL'' Buy 5000 175.00 FailPositionLimit]"

definition test_risk_pending_sell_cross :: "counters \<Rightarrow> counters option" where
  "test_risk_pending_sell_cross = table_test
     [apply_t (fill_event ''TSLA'' Buy 1000 250.00 ''F1'' False),
      apply_o (new_event ''TSLA'' Sell 500 251.00 ''O1''),
      check_risk_pos ''TSLA'' Sell 600 251.00 Pass,
      check_risk ''TSLA'' Sell 600 251.00 FailPositionCross,
      check_risk ''TSLA'' Sell 400 251.00 Pass]"

definition test_risk_open_orders_reduce_on_fill :: "counters \<Rightarrow> counters option" where
  "test_risk_open_orders_reduce_on_fill = table_test
     [apply_t (fill_event ''MSFT'' Buy 30000 330.00 ''F1'' False),
      apply_o (new_event ''MSFT'' Buy 18000 330.00 ''O1''),
      check_risk ''MSFT'' Buy 3000 330.00 FailPositionLimit,
      apply_t (fill_event ''MSFT'' Buy 18000 330.00 ''O1'' False),
      apply_o (fill_event ''MSFT'' Buy 18000 330.00 ''O1'' False),
      check_risk ''MSFT'' Buy 3000 330.00 FailPositionLimit,
      check_risk ''MSFT'' Buy 2000 330.00 Pass]"

definition test_risk_cancelled_order_releases_exposure :: "counters \<Rightarrow> counters option" where
  "test_risk_cancelled_order_releases_exposure = table_test
     [apply_t (fill_event ''SPY'' Buy 45000 450.00 ''F1'' False),
      apply_o (new_event ''SPY'' Buy 4000 450.00 ''O1''),
      check_risk ''SPY'' Buy 2000 450.00 FailPositionLimit,
      apply_o (cancel_event ''O1''),
      check_risk ''SPY'' Buy 2000 450.00 Pass]"

text \<open>\<open>main\<close>: the counters at the end and the exit code.\<close>

definition unit_tests :: "os_env \<Rightarrow> (nat \<Rightarrow> timespec) \<Rightarrow> (counters \<Rightarrow> counters option) list" where
  "unit_tests os clk =
     [test_struct_sizes, test_make_fill, test_event_log os clk, test_simple_long, test_partial_close,
      test_full_round_trip, test_mark_to_market, test_multi_symbol, test_short_position,
      test_replay_rebuilds_state os clk, test_risk_checks,
      test_order_new, test_order_partial_fill, test_order_full_fill, test_order_avg_fill_price,
      test_order_cancel, test_open_exposure, test_order_replay os clk,
      test_risk_blind_spot, test_risk_pending_sell_cross, test_risk_open_orders_reduce_on_fill,
      test_risk_cancelled_order_releases_exposure]"

definition test_main :: "os_env \<Rightarrow> (nat \<Rightarrow> timespec) \<Rightarrow> (nat \<times> nat \<times> int) option" where
  "test_main os clk = do {
     (r, p) \<leftarrow> foldm (\<lambda>t. t) (unit_tests os clk) (0, 0);
     Some (p, r, if p = r then 0 else 1) }"

section \<open>Evaluation on the first slots\<close>

definition tt_pad :: "position list \<Rightarrow> order list \<Rightarrow> test_state \<Rightarrow> test_state" where
  "tt_pad ys zs s = s\<lparr>tt_tracker := pt_pad ys (tt_tracker s), tt_orders := om_pad zs (tt_orders s)\<rparr>"

lemma tt_pad_simps [simp]:
  "tt_tracker (tt_pad ys zs s) = pt_pad ys (tt_tracker s)" "tt_orders (tt_pad ys zs s) = om_pad zs (tt_orders s)"
  "tests_run (tt_pad ys zs s) = tests_run s" "tests_passed (tt_pad ys zs s) = tests_passed s"
  by (simp_all add: tt_pad_def)

text \<open>A step is framed when it does the same with more slots, an observation when it gives the same value.\<close>

definition framed :: "test_step \<Rightarrow> bool" where
  "framed c \<longleftrightarrow> (\<forall>s s' ys zs. c s = Some s' \<longrightarrow> c (tt_pad ys zs s) = Some (tt_pad ys zs s'))"

definition observed :: "(test_state \<Rightarrow> 'v option) \<Rightarrow> bool" where
  "observed v \<longleftrightarrow> (\<forall>s x ys zs. v s = Some x \<longrightarrow> v (tt_pad ys zs s) = Some x)"

lemma framed_bind: "observed v \<Longrightarrow> (\<And>x. framed (k x)) \<Longrightarrow> framed (\<lambda>s. v s \<bind> (\<lambda>x. k x s))"
  by (simp add: framed_def observed_def Option.bind_eq_Some_conv) metis

lemma framed_CHECK: "framed (CHECK b)"
  by (simp add: framed_def CHECK_def tt_pad_def)

lemma observations:
  "observed (\<lambda>s. x)" "observed (\<lambda>s. pt_get (tt_tracker s) symb)" "observed (\<lambda>s. om_get (tt_orders s) oid)"
  "observed (\<lambda>s. open_exposure (tt_orders s) symb)" "observed (\<lambda>s. check_tracker rc symb sd q px (tt_tracker s))"
  "observed (\<lambda>s. check_full rc symb sd q px (tt_tracker s) (tt_orders s))"
  by (simp_all add: observed_def pt_get_pad om_get_pad open_exposure_pad check_tracker_pad check_full_pad)

lemma framed_updates:
  "framed (\<lambda>s. pt_apply_event e (tt_tracker s) \<bind> (\<lambda>t. Some (s\<lparr>tt_tracker := t\<rparr>)))"
  "framed (\<lambda>s. om_apply_event e (tt_orders s) \<bind> (\<lambda>t. Some (s\<lparr>tt_orders := t\<rparr>)))"
  "framed (\<lambda>s. mark_to_market (tt_tracker s) symb px \<bind> (\<lambda>t. Some (s\<lparr>tt_tracker := t\<rparr>)))"
  unfolding framed_def Option.bind_eq_Some_conv
  by (force simp: tt_pad_def dest: pt_apply_event_pad om_apply_event_pad mark_to_market_pad)+

lemma framed_steps [simp]:
  "framed (CHECK b)" "framed (apply_t ev)" "framed (apply_o ev)" "framed (mark_t symb p)"
  "framed (check_pos_found symb)" "framed (check_pos symb cp)"
  "framed (check_ord_found oid)" "framed (check_ord oid co)" "framed (check_exposure symb i)"
  "framed (check_risk_pos symb sd q p r)" "framed (check_risk symb sd q p r)"
  unfolding apply_t_def [abs_def] apply_o_def [abs_def] mark_t_def [abs_def] check_pos_found_def [abs_def]
    check_pos_def [abs_def] check_ord_found_def [abs_def] check_ord_def [abs_def] check_exposure_def [abs_def]
    check_risk_pos_def [abs_def] check_risk_def [abs_def]
  by (intro framed_bind framed_CHECK framed_updates observations)+

lemma framed_symbols [simp]: "framed (check_symbols n)"
  by (simp add: framed_def check_symbols_def CHECK_def symbol_count_def tt_pad_def)

lemma run_framed:
  "list_all framed steps \<Longrightarrow> foldm (\<lambda>c. c) steps s = Some s' \<Longrightarrow> foldm (\<lambda>c. c) steps (tt_pad ys zs s) = Some (tt_pad ys zs s')"
  by (induction steps arbitrary: s) (fastforce simp: framed_def Option.bind_eq_Some_conv)+

lemma test_on_pad:
  assumes "list_all framed steps" "test_on t om steps c = Some c'"
  shows "test_on (pt_pad ys t) (om_pad zs om) steps c = Some c'"
proof -
  obtain r p where c: "c = (r, p)" by (cases c)
  let ?s = "\<lparr>tt_tracker = t, tt_orders = om, tests_run = r, tests_passed = p\<rparr>"
  from assms(2) c obtain s' where s': "foldm (\<lambda>c. c) steps ?s = Some s'" "c' = (tests_run s', tests_passed s')"
    by (auto simp: Option.bind_eq_Some_conv)
  have "tt_pad ys zs ?s = \<lparr>tt_tracker = pt_pad ys t, tt_orders = om_pad zs om, tests_run = r, tests_passed = p\<rparr>"
    by (simp add: tt_pad_def)
  with run_framed [OF assms(1) s'(1), of ys zs] s'(2) c show ?thesis by simp
qed

text \<open>A test may be evaluated on any number of slots of each table; four are enough for the tests here.\<close>

lemma table_test_slots:
  assumes "k \<le> MAX_SYMBOLS" "k \<le> MAX_ORDERS" "list_all framed steps" "test_on (pt_first k) (om_first k) steps c = Some c'"
  shows "table_test steps c = Some c'"
  unfolding table_test_def new_position_tracker_pad [OF assms(1)] new_order_manager_pad [OF assms(2)]
  by (rule test_on_pad [OF assms(3,4)])

lemma table_test_first:
  assumes "list_all framed steps" "test_on (pt_first 4) (om_first 4) steps c = Some c'"
  shows "table_test steps c = Some c'"
  by (rule table_test_slots [OF _ _ assms]) (simp_all add: MAX_SYMBOLS_def MAX_ORDERS_def)

section \<open>Prices\<close>

text \<open>A price that is a double and a whole number of units is converted exactly.\<close>

lemma round64_int: "\<bar>n\<bar> < 2 ^ 53 \<Longrightarrow> round64 (of_int n) = Finite (of_int n)"
proof -
  assume n: "\<bar>n\<bar> < 2 ^ 53"
  then have "\<bar>of_int n :: rat\<bar> < of_int (2 ^ 53)" by (simp only: of_int_less_iff flip: of_int_abs)
  also have "\<dots> \<le> (2 :: rat) ^ 1024" by simp
  finally show ?thesis using round64_rnd [of "of_int n"] rnd_of_int [OF n] by simp
qed

lemma fp_exact:
  assumes "round64 p = Finite p" "p * 1000000 = of_int m" "\<bar>m\<bar> < 2 ^ 53"
  shows "fp p = Some m"
proof -
  have "int64 m" using assms(3) by (auto simp: int64_def abs_if split: if_splits)
  with assms round64_int [OF assms(3)] show ?thesis
    by (simp add: fp_def d_mul_def PRICE_SCALE_def d_to_i64_def trunc_def i64_def)
qed

lemma fp_dollars: "\<bar>n\<bar> < 2 ^ 32 \<Longrightarrow> fp (of_int n) = Some (n * 1000000)"
  by (rule fp_exact [OF round64_int]) simp_all

lemma fp_whole:
  "fp 174.00 = Some 174000000"
  "fp 175.00 = Some 175000000"
  "fp 176.00 = Some 176000000"
  "fp 177.00 = Some 177000000"
  "fp 198.00 = Some 198000000"
  "fp 200.00 = Some 200000000"
  "fp 250.00 = Some 250000000"
  "fp 251.00 = Some 251000000"
  "fp 255.00 = Some 255000000"
  "fp 330.00 = Some 330000000"
  "fp 450.00 = Some 450000000"
  using fp_dollars [of 174] fp_dollars [of 175] fp_dollars [of 176] fp_dollars [of 177] fp_dollars [of 198] fp_dollars [of 200]
    fp_dollars [of 250] fp_dollars [of 251] fp_dollars [of 255] fp_dollars [of 330] fp_dollars [of 450]
  by simp_all

lemma fp_halves:
  "fp 175.50 = Some 175500000"
  "fp 176.50 = Some 176500000"
  "fp 174.50 = Some 174500000"
proof -
  show "fp 175.50 = Some 175500000"
    by (rule fp_exact) (use round64_eqI [of "- 45" "175.50" 6174857301590016] in simp_all)
  show "fp 176.50 = Some 176500000"
    by (rule fp_exact) (use round64_eqI [of "- 45" "176.50" 6210041673678848] in simp_all)
  show "fp 174.50 = Some 174500000"
    by (rule fp_exact) (use round64_eqI [of "- 45" "174.50" 6139672929501184] in simp_all)
qed

lemma fp_174_98: "fp 174.98 = Some 174980000"
proof -
  have "round64 174.98 = Finite (of_int 6156561428103823 * 2 powi (- 45))" by (rule round64_eqI) simp_all
  moreover have "round64 (of_int 6156561428103823 * 2 powi (- 45) * 1000000) = Finite (of_int 5871354511360000 * 2 powi (- 25))"
    by (rule round64_eqI) simp_all
  moreover have "trunc (of_int 5871354511360000 * 2 powi (- 25)) = 174980000" by (simp add: trunc_def floor_eq_iff)
  ultimately show ?thesis
    by (simp only: fp_def d_mul_def d_to_i64_def PRICE_SCALE_def double.case of_int_numeral) (simp add: int64_def i64_def)
qed

lemma fp_250_10: "fp 250.10 = Some 250100000"
proof -
  have "round64 250.10 = Finite (of_int 8799611459416883 * 2 powi (- 45))" by (rule round64_eqI) simp_all
  moreover have "round64 (of_int 8799611459416883 * 2 powi (- 45) * 1000000) = Finite (of_int 8391963443200000 * 2 powi (- 25))"
    by (rule round64_eqI) simp_all
  moreover have "trunc (of_int 8391963443200000 * 2 powi (- 25)) = 250100000" by (simp add: trunc_def floor_eq_iff)
  ultimately show ?thesis
    by (simp only: fp_def d_mul_def d_to_i64_def PRICE_SCALE_def double.case of_int_numeral) (simp add: int64_def i64_def)
qed

lemmas fp_values = fp_whole fp_halves fp_174_98 fp_250_10

section \<open>The tests pass\<close>

text \<open>What hides a price; with the prices evaluated a test runs in the simplifier.\<close>

lemmas test_events = fill_event_def new_event_def mark_t_def [abs_def] check_risk_pos_def [abs_def] check_risk_def [abs_def] fp_values

lemma sizes_pass: "test_struct_sizes (r, p) = Some (r + 3, p + 3)"
  unfolding test_struct_sizes_def by (rule table_test_first) (simp_all add: CHECK_def)

lemma make_fill_pass: "test_make_fill (r, p) = Some (r + 5, p + 5)"
proof -
  let ?ev = "fill_event ''AAPL'' Buy 100 175.50 ''O1'' False"
  have v: "map_option (\<lambda>e. (is_fill e, fill_qty e, fill_price e, side e, sv_string (symbol_view e))) ?ev =
      Some (True, 100, 175500000, Buy, ''AAPL'')"
    unfolding test_events by code_simp
  then obtain e where e: "?ev = Some e" by blast
  with v show ?thesis
    unfolding test_make_fill_def fp_values e Option.bind.bind_lunit
    by (intro table_test_first) (simp_all add: CHECK_def)
qed

lemma position_tests_pass:
  "test_simple_long (r, p) = Some (r + 4, p + 4)"
  "test_partial_close (r, p) = Some (r + 2, p + 2)"
  "test_full_round_trip (r, p) = Some (r + 2, p + 2)"
  "test_mark_to_market (r, p) = Some (r + 1, p + 1)"
  "test_multi_symbol (r, p) = Some (r + 4, p + 4)"
  "test_short_position (r, p) = Some (r + 3, p + 3)"
  unfolding test_simple_long_def test_partial_close_def test_full_round_trip_def
    test_mark_to_market_def test_multi_symbol_def test_short_position_def
  by (rule table_test_first, simp add: eval_nat_numeral, simp only: test_events, code_simp, (simp; fail)?)+

lemma order_tests_pass:
  "test_order_new (r, p) = Some (r + 7, p + 7)"
  "test_order_partial_fill (r, p) = Some (r + 4, p + 4)"
  "test_order_full_fill (r, p) = Some (r + 4, p + 4)"
  "test_order_avg_fill_price (r, p) = Some (r + 1, p + 1)"
  "test_order_cancel (r, p) = Some (r + 4, p + 4)"
  "test_open_exposure (r, p) = Some (r + 2, p + 2)"
  unfolding test_order_new_def test_order_partial_fill_def test_order_full_fill_def
    test_order_avg_fill_price_def test_order_cancel_def test_open_exposure_def
  by (rule table_test_first, simp add: eval_nat_numeral, simp only: test_events, code_simp, (simp; fail)?)+

lemma risk_tests_pass:
  "test_risk_checks (r, p) = Some (r + 5, p + 5)"
  "test_risk_blind_spot (r, p) = Some (r + 2, p + 2)"
  "test_risk_pending_sell_cross (r, p) = Some (r + 3, p + 3)"
  "test_risk_open_orders_reduce_on_fill (r, p) = Some (r + 3, p + 3)"
  "test_risk_cancelled_order_releases_exposure (r, p) = Some (r + 2, p + 2)"
  unfolding test_risk_checks_def test_risk_blind_spot_def test_risk_pending_sell_cross_def test_risk_open_orders_reduce_on_fill_def
    test_risk_cancelled_order_releases_exposure_def
  by (rule table_test_first, simp add: eval_nat_numeral, simp only: test_events, code_simp, (simp; fail)?)+

text \<open>The log tests: an append to a well-formed log that is not full, and its file opened again.\<close>

lemma append_log_step:
  assumes "log_ok lg" "unat (next_seq lg) < MAX_EVENTS"
  obtains lg' where "append_log ts e lg = Some (lg', next_seq lg)" "log_ok lg'" "next_seq lg' = next_seq lg + 1"
    "log_events lg' = log_events lg @ [e\<lparr>sequence := next_seq lg, timestamp_ns := now_ns ts\<rparr>]"
proof -
  obtain lg' where a: "log_append ts e lg = Some (lg', Inr (next_seq lg))" "log_ok lg'"
      "log_events lg' = log_events lg @ [e\<lparr>sequence := next_seq lg, timestamp_ns := now_ns ts\<rparr>]"
    by (rule log_append_ok [OF assms])
  then have "next_seq lg' = next_seq lg + 1" by (auto simp: log_append_def Let_def split: if_splits)
  with a that show thesis by (simp add: append_log_def no_throw_def)
qed

lemma open_log_new: "open_ok os \<Longrightarrow> ftruncate_ok os \<Longrightarrow> mmap_ok os \<Longrightarrow> open_log os None = Some empty_log"
  by (simp add: open_log_def open_or_create_new no_throw_def)

lemma open_log_again: "log_ok lg \<Longrightarrow> open_ok os \<Longrightarrow> mmap_ok os \<Longrightarrow> open_log os (Some (close_log lg)) = Some lg"
  by (simp add: open_log_def reopen_closed no_throw_def)

lemma two_appends:
  obtains lg1 lg2 where "append_log t0 e0 empty_log = Some (lg1, 0)" "append_log t1 e1 lg1 = Some (lg2, 1)" "log_ok lg2"
    "next_seq lg2 = 2" "log_events lg2 = [e0\<lparr>sequence := 0, timestamp_ns := now_ns t0\<rparr>, e1\<lparr>sequence := 1, timestamp_ns := now_ns t1\<rparr>]"
proof -
  obtain lg1 where 1: "append_log t0 e0 empty_log = Some (lg1, 0)" "log_ok lg1" "next_seq lg1 = 1"
      "log_events lg1 = [e0\<lparr>sequence := 0, timestamp_ns := now_ns t0\<rparr>]"
    using append_log_step [of empty_log t0 e0] by (auto simp: MAX_EVENTS_def)
  obtain lg2 where "append_log t1 e1 lg1 = Some (lg2, 1)" "log_ok lg2" "next_seq lg2 = 2"
      "log_events lg2 = [e0\<lparr>sequence := 0, timestamp_ns := now_ns t0\<rparr>, e1\<lparr>sequence := 1, timestamp_ns := now_ns t1\<rparr>]"
    using append_log_step [OF 1(2), of t1 e1] 1(3,4) by (auto simp: MAX_EVENTS_def)
  with 1 that show thesis by blast
qed

lemma foldm_pt_pad: "foldm pt_apply_event es t = Some t' \<Longrightarrow> foldm pt_apply_event es (pt_pad ys t) = Some (pt_pad ys t')"
  by (induction es arbitrary: t) (auto simp: Option.bind_eq_Some_conv dest: pt_apply_event_pad)

lemma foldm_om_pad: "foldm om_apply_event es om = Some om' \<Longrightarrow> foldm om_apply_event es (om_pad ys om) = Some (om_pad ys om')"
  by (induction es arbitrary: om) (auto simp: Option.bind_eq_Some_conv dest: om_apply_event_pad)

lemma replay_test_first:
  assumes "list_all framed steps"
    and "do { t \<leftarrow> foldm pt_apply_event es (pt_first 4); om \<leftarrow> foldm om_apply_event es' (om_first 4); test_on t om steps c } = Some c'"
  shows "do { t \<leftarrow> foldm pt_apply_event es new_position_tracker; om \<leftarrow> foldm om_apply_event es' new_order_manager;
    test_on t om steps c } = Some c'"
proof -
  have k: "4 \<le> MAX_SYMBOLS" "4 \<le> MAX_ORDERS" by (simp_all add: MAX_SYMBOLS_def MAX_ORDERS_def)
  from assms(2) obtain t om where t: "foldm pt_apply_event es (pt_first 4) = Some t" "foldm om_apply_event es' (om_first 4) = Some om"
      "test_on t om steps c = Some c'"
    by (auto simp: Option.bind_eq_Some_conv)
  show ?thesis
    unfolding new_position_tracker_pad [OF k(1)] new_order_manager_pad [OF k(2)] foldm_pt_pad [OF t(1)] foldm_om_pad [OF t(2)]
    using test_on_pad [OF assms(1) t(3)] by simp
qed

lemmas replay_tests_first = replay_test_first [where es' = "[]", unfolded foldm.simps Option.bind.bind_lunit]
  replay_test_first [where es = "[]", unfolded foldm.simps Option.bind.bind_lunit]

text \<open>The events of the log tests.\<close>

definition test_fill :: "string \<Rightarrow> side \<Rightarrow> int \<Rightarrow> int \<Rightarrow> string \<Rightarrow> order_event" where
  "test_fill symb sd q px oid = the (make_fill (sv_of symb) sd q px (sv_of oid) (sv_of '''') False)"

definition test_new :: "string \<Rightarrow> side \<Rightarrow> int \<Rightarrow> int \<Rightarrow> string \<Rightarrow> order_event" where
  "test_new symb sd q px oid = the (make_new_order (sv_of symb) sd q px (sv_of oid))"

lemma log_test_events:
  "fill_event ''AAPL'' Buy 100 175.00 ''O1'' False = Some (test_fill ''AAPL'' Buy 100 175000000 ''O1'')"
  "fill_event ''AAPL'' Sell 50 176.00 ''O2'' False = Some (test_fill ''AAPL'' Sell 50 176000000 ''O2'')"
  "fill_event ''AAPL'' Sell 40 176.00 ''O2'' False = Some (test_fill ''AAPL'' Sell 40 176000000 ''O2'')"
  "fill_event ''TSLA'' Buy 20 250.00 ''O3'' False = Some (test_fill ''TSLA'' Buy 20 250000000 ''O3'')"
  "new_event ''TSLA'' Sell 50 250.00 ''O1'' = Some (test_new ''TSLA'' Sell 50 250000000 ''O1'')"
  "fill_event ''TSLA'' Sell 50 250.10 ''O1'' False = Some (test_fill ''TSLA'' Sell 50 250100000 ''O1'')"
  unfolding test_events by code_simp+

lemma position_replay_pass:
  assumes "open_ok os" "ftruncate_ok os" "mmap_ok os"
  shows "test_replay_rebuilds_state os clk (r, p) = Some (r + 3, p + 3)"
proof -
  obtain lg1 lg2 where lg: "append_log (clk 0) (test_fill ''AAPL'' Buy 100 175000000 ''O1'') empty_log = Some (lg1, 0)"
      "append_log (clk 1) (test_fill ''AAPL'' Sell 40 176000000 ''O2'') lg1 = Some (lg2, 1)" "log_ok lg2"
      "log_events lg2 = [(test_fill ''AAPL'' Buy 100 175000000 ''O1'')\<lparr>sequence := 0, timestamp_ns := now_ns (clk 0)\<rparr>,
        (test_fill ''AAPL'' Sell 40 176000000 ''O2'')\<lparr>sequence := 1, timestamp_ns := now_ns (clk 1)\<rparr>]"
    by (rule two_appends)
  show ?thesis
    unfolding test_replay_rebuilds_state_def log_test_events open_log_new [OF assms] Option.bind.bind_lunit lg prod.case
      open_log_again [OF lg(3) assms(1,3)] pt_replay_foldm [OF lg(3)]
    by (rule replay_tests_first(1), simp, simp only: fp_values, code_simp, simp)
qed

lemma order_replay_pass:
  assumes "open_ok os" "ftruncate_ok os" "mmap_ok os"
  shows "test_order_replay os clk (r, p) = Some (r + 3, p + 3)"
proof -
  obtain lg1 lg2 where lg: "append_log (clk 0) (test_new ''TSLA'' Sell 50 250000000 ''O1'') empty_log = Some (lg1, 0)"
      "append_log (clk 1) (test_fill ''TSLA'' Sell 50 250100000 ''O1'') lg1 = Some (lg2, 1)" "log_ok lg2"
      "log_events lg2 = [(test_new ''TSLA'' Sell 50 250000000 ''O1'')\<lparr>sequence := 0, timestamp_ns := now_ns (clk 0)\<rparr>,
        (test_fill ''TSLA'' Sell 50 250100000 ''O1'')\<lparr>sequence := 1, timestamp_ns := now_ns (clk 1)\<rparr>]"
    by (rule two_appends)
  show ?thesis
    unfolding test_order_replay_def log_test_events open_log_new [OF assms] Option.bind.bind_lunit lg prod.case
      open_log_again [OF lg(3) assms(1,3)] om_replay_foldm [OF lg(3)]
    by (rule replay_tests_first(2), simp, code_simp, simp)
qed

lemma event_log_pass:
  assumes "open_ok os" "ftruncate_ok os" "mmap_ok os"
  shows "test_event_log os clk (r, p) = Some (r + 9, p + 9)"
proof -
  let ?e0 = "test_fill ''AAPL'' Buy 100 175000000 ''O1''" and ?e1 = "test_fill ''AAPL'' Sell 50 176000000 ''O2''"
    and ?e2 = "test_fill ''TSLA'' Buy 20 250000000 ''O3''"
  obtain lg1 lg2 where lg: "append_log (clk 0) ?e0 empty_log = Some (lg1, 0)"
      "append_log (clk 1) ?e1 lg1 = Some (lg2, 1)" "log_ok lg2" "next_seq lg2 = 2"
      "log_events lg2 = [?e0\<lparr>sequence := 0, timestamp_ns := now_ns (clk 0)\<rparr>, ?e1\<lparr>sequence := 1, timestamp_ns := now_ns (clk 1)\<rparr>]"
    by (rule two_appends)
  obtain lg3 where lg3: "append_log (clk 2) ?e2 lg2 = Some (lg3, 2)" "log_ok lg3" "next_seq lg3 = 3"
      "log_events lg3 = log_events lg2 @ [?e2\<lparr>sequence := 2, timestamp_ns := now_ns (clk 2)\<rparr>]"
    using append_log_step [OF lg(3), of "clk 2" ?e2] lg(4) by (auto simp: MAX_EVENTS_def)
  have rd: "read lg3 0 = Some (Some (?e0\<lparr>sequence := 0, timestamp_ns := now_ns (clk 0)\<rparr>))"
    using read_log_events [OF lg3(2), of 0] by (simp add: lg3(4) lg(5))
  have rp: "replay lg3 (\<lambda>_ k. Some (Suc k)) 0 = Some 3"
    using log_ok_backed [OF lg3(2)] lg3(4) lg(5)
    by (simp add: replay_def replay_loop_foldm log_events_def [symmetric])
  have q: "fill_qty ?e0 = 100" by code_simp
  show ?thesis
    unfolding test_event_log_def log_test_events open_log_new [OF assms] Option.bind.bind_lunit lg(1,2) lg3(1) prod.case rd
      open_log_again [OF lg3(2) assms(1,3)] rp
    by (rule table_test_first) (simp_all add: CHECK_def log_size_def lg3(3) q)
qed

lemmas tests_pass = sizes_pass make_fill_pass position_tests_pass order_tests_pass risk_tests_pass
  position_replay_pass order_replay_pass event_log_pass

text \<open>The unit tests of the repository pass on the model: with a file system that can create, map and
  reopen the log files and for every clock, the test program runs all its tests without undefined
  behaviour, all 76 checks hold and the exit code is 0.\<close>

lemma unit_tests_pass:
  assumes "open_ok os" "ftruncate_ok os" "mmap_ok os"
  shows "test_main os clk = Some (76, 76, 0)"
  by (simp add: test_main_def unit_tests_def tests_pass assms)

end
