(* ===== verification/Gateway_Tests.thy ===== *)
theory Gateway_Tests
  imports Unit_Tests Interrupted_Updates
begin

text \<open>
  The tests of the gateway, \<open>tests/test_MessageTranslator.cpp\<close>, \<open>tests/test_Killswitch.cpp\<close> and
  \<open>tests/test_FIXGateway.cpp\<close>, as runs of the model, with the messages of \<open>tests/fixtures/sample_msgs.h\<close>.

  A report is a message with fields, and the accessors are those QuickFIX documents: a field that was set
  is returned as it was set, a missing one throws. A test is a function on the counters of \<open>Unit_Tests\<close>:
  expectations and assertions count, and a test that does not run to its end (undefined behaviour, an
  exception, a failed assertion) is \<open>None\<close>. \<open>EXPECT_DOUBLE_EQ\<close> is taken as equality.
\<close>

section \<open>Messages\<close>

definition get_char :: "nat \<Rightarrow> fix_message \<Rightarrow> cpp_exn + char" where
  "get_char tag m = (case msg_fields m tag of Some (F_Char c) \<Rightarrow> Inr c | Some _ \<Rightarrow> Inl IncorrectDataFormat | None \<Rightarrow> Inl FieldNotFound)"

definition get_string :: "nat \<Rightarrow> fix_message \<Rightarrow> cpp_exn + string" where
  "get_string tag m = (case msg_fields m tag of Some (F_String s) \<Rightarrow> Inr s | Some _ \<Rightarrow> Inl IncorrectDataFormat | None \<Rightarrow> Inl FieldNotFound)"

definition get_double :: "nat \<Rightarrow> fix_message \<Rightarrow> cpp_exn + double" where
  "get_double tag m = (case msg_fields m tag of Some (F_Double d) \<Rightarrow> Inr d | Some _ \<Rightarrow> Inl IncorrectDataFormat | None \<Rightarrow> Inl FieldNotFound)"

definition message_api :: "fix_message report_api" where
  "message_api = \<lparr>get_ExecType = get_char 150, get_Symbol = get_string 55, get_ClOrdID = get_string 11, get_Side = get_char 54,
     isSet_LastShares = (\<lambda>m. msg_fields m 32 \<noteq> None), isSet_LastPx = (\<lambda>m. msg_fields m 31 \<noteq> None),
     get_LastShares = get_double 32, get_LastPx = get_double 31\<rparr>"

definition Side_BUY :: char where "Side_BUY = CHR ''1''"
definition Side_SELL :: char where "Side_SELL = CHR ''2''"

text \<open>The constructor of an execution report sets its ten required fields.\<close>

definition ExecutionReport :: "string \<Rightarrow> string \<Rightarrow> char \<Rightarrow> char \<Rightarrow> char \<Rightarrow> string \<Rightarrow> char \<Rightarrow> double \<Rightarrow> double \<Rightarrow> double \<Rightarrow> fix_message" where
  "ExecutionReport oid xid ttype etyp status symb sd leaves cum avg =
     \<lparr>msg_type = ''8'', msg_fields = [37 \<mapsto> F_String oid, 17 \<mapsto> F_String xid, 20 \<mapsto> F_Char ttype, 150 \<mapsto> F_Char etyp,
        39 \<mapsto> F_Char status, 55 \<mapsto> F_String symb, 54 \<mapsto> F_Char sd, 151 \<mapsto> F_Double leaves, 14 \<mapsto> F_Double cum, 6 \<mapsto> F_Double avg]\<rparr>"

definition make_ack :: "string \<Rightarrow> string \<Rightarrow> char \<Rightarrow> fix_message" where
  "make_ack cl_ord_id symb sd =
     (let r = ExecutionReport ''EXCH-001'' ''EXEC-001'' CHR ''0'' CHR ''0'' CHR ''0'' symb sd (d_of_int 100) (d_of_int 0) (d_of_int 0)
      in set_field 38 (F_Double (d_of_int 100)) (set_field 11 (F_String cl_ord_id) r))"

definition make_partial_fill :: "string \<Rightarrow> string \<Rightarrow> char \<Rightarrow> int \<Rightarrow> rat \<Rightarrow> fix_message" where
  "make_partial_fill cl_ord_id symb sd q p =
     (let r = ExecutionReport ''EXCH-001'' ''EXEC-002'' CHR ''0'' CHR ''1'' CHR ''1'' symb sd (d_of_int (100 - q)) (d_of_int q) (round64 p)
      in set_field 38 (F_Double (d_of_int 100)) (set_field 31 (F_Double (round64 p)) (set_field 32 (F_Double (d_of_int q))
        (set_field 11 (F_String cl_ord_id) r))))"

definition make_full_fill :: "string \<Rightarrow> string \<Rightarrow> char \<Rightarrow> int \<Rightarrow> rat \<Rightarrow> fix_message" where
  "make_full_fill cl_ord_id symb sd q p =
     (let r = ExecutionReport ''EXCH-001'' ''EXEC-003'' CHR ''0'' CHR ''2'' CHR ''2'' symb sd (d_of_int 0) (d_of_int q) (round64 p)
      in set_field 38 (F_Double (d_of_int q)) (set_field 31 (F_Double (round64 p)) (set_field 32 (F_Double (d_of_int q))
        (set_field 11 (F_String cl_ord_id) r))))"

definition make_cancel :: "string \<Rightarrow> string \<Rightarrow> char \<Rightarrow> fix_message" where
  "make_cancel cl_ord_id symb sd =
     (let r = ExecutionReport ''EXCH-001'' ''EXEC-004'' CHR ''0'' CHR ''4'' CHR ''4'' symb sd (d_of_int 0) (d_of_int 0) (d_of_int 0)
      in set_field 11 (F_String cl_ord_id) r)"

definition make_reject :: "string \<Rightarrow> string \<Rightarrow> char \<Rightarrow> string \<Rightarrow> fix_message" where
  "make_reject cl_ord_id symb sd reason =
     (let r = ExecutionReport '''' ''EXEC-005'' CHR ''0'' CHR ''8'' CHR ''8'' symb sd (d_of_int 0) (d_of_int 0) (d_of_int 0)
      in set_field 58 (F_String reason) (set_field 11 (F_String cl_ord_id) r))"

definition make_sell_fill :: "string \<Rightarrow> string \<Rightarrow> int \<Rightarrow> rat \<Rightarrow> fix_message" where
  "make_sell_fill cl_ord_id symb q p = make_full_fill cl_ord_id symb Side_SELL q p"

text \<open>What the translator makes of these messages.\<close>

definition report_event :: "event_type \<Rightarrow> string \<Rightarrow> string \<Rightarrow> char \<Rightarrow> int \<Rightarrow> int \<Rightarrow> order_event" where
  "report_event et oid symb sd q px = zero_event\<lparr>etype := et, side := (if sd = Side_BUY then Buy else Sell),
     symbol := pad_name 8 (cstr 8 (c_str symb)), order_id := pad_name 8 (cstr 8 (c_str oid)), fill_qty := q, fill_price := px\<rparr>"

lemma d_to_i32_of_int: "\<bar>q\<bar> < 2 ^ 31 \<Longrightarrow> d_to_i32 (d_of_int q) = Some q"
  using round64_int [of q] by (auto simp: d_of_int_def d_to_i32_def trunc_def i32_def int32_def)

lemma fp_to_fixed: "to_fixed (round64 p) = fp p"
  by (simp add: to_fixed_def fp_def)

lemmas report_defs = from_execution_report_def message_api_def get_char_def get_string_def get_double_def try_bind_def
  event_type_of_exec_def ExecutionReport_def set_field_def fill_fields_def

lemma translated_reports:
  "from_execution_report message_api (make_ack oid symb sd) = Some (Inr None)"
  "from_execution_report message_api (make_cancel oid symb sd) = Some (Inr (Some (report_event Cancel oid symb sd 0 0)))"
  "from_execution_report message_api (make_reject oid symb sd reason) = Some (Inr (Some (report_event Reject oid symb sd 0 0)))"
  by (simp_all add: make_ack_def make_cancel_def make_reject_def report_defs report_event_def Let_def strncpy_eq Side_BUY_def
      zero_event_def)

lemma translated_fills:
  assumes "fp p = Some px" "\<bar>q\<bar> < 2 ^ 31"
  shows "from_execution_report message_api (make_partial_fill oid symb sd q p) = Some (Inr (Some (report_event PartialFill oid symb sd q px)))"
    "from_execution_report message_api (make_full_fill oid symb sd q p) = Some (Inr (Some (report_event FullFill oid symb sd q px)))"
  using assms
  by (simp_all add: make_partial_fill_def make_full_fill_def report_defs report_event_def Let_def strncpy_eq Side_BUY_def
      zero_event_def d_to_i32_of_int fp_to_fixed)

section \<open>The translator\<close>

definition EXPECT :: "bool \<Rightarrow> counters \<Rightarrow> counters option" where
  "EXPECT b c = Some (fst c + 1, if b then snd c + 1 else snd c)"

definition ASSERT :: "bool \<Rightarrow> counters \<Rightarrow> counters option" where
  "ASSERT b c = (if b then EXPECT True c else None)"

definition FixedPoint_RoundTrip :: "counters \<Rightarrow> counters option" where
  "FixedPoint_RoundTrip c = do {
     f \<leftarrow> to_fixed (round64 175.50);
     c1 \<leftarrow> EXPECT (f = 175500000) c;
     EXPECT (from_fixed f = round64 175.50) c1 }"

definition FixedPoint_ZeroPrice :: "counters \<Rightarrow> counters option" where
  "FixedPoint_ZeroPrice c = do {
     f \<leftarrow> to_fixed (round64 0);
     c1 \<leftarrow> EXPECT (f = 0) c;
     EXPECT (from_fixed 0 = round64 0) c1 }"

definition FixedPoint_LargePrice :: "counters \<Rightarrow> counters option" where
  "FixedPoint_LargePrice c = do {
     f \<leftarrow> to_fixed (round64 50000.00);
     EXPECT (f = 50000000000) c }"

text \<open>A test on the result of \<open>from_execution_report\<close>, with the assertion that there is one.\<close>

definition report_result :: "fix_message \<Rightarrow> order_event option option" where
  "report_result report = do { res \<leftarrow> from_execution_report message_api report; no_throw res }"

definition with_result :: "fix_message \<Rightarrow> (order_event \<Rightarrow> counters \<Rightarrow> counters option) \<Rightarrow> counters \<Rightarrow> counters option" where
  "with_result report k c = do {
     result \<leftarrow> report_result report;
     c1 \<leftarrow> ASSERT (result \<noteq> None) c;
     e \<leftarrow> result;
     k e c1 }"

definition FromReport_AckReturnsNullopt :: "counters \<Rightarrow> counters option" where
  "FromReport_AckReturnsNullopt c = do {
     result \<leftarrow> report_result (make_ack ''ORD001'' ''AAPL'' Side_BUY);
     EXPECT (result = None) c }"

definition FromReport_PartialFillType :: "counters \<Rightarrow> counters option" where
  "FromReport_PartialFillType = with_result (make_partial_fill ''ORD001'' ''AAPL'' Side_BUY 60 175.50) (\<lambda>e. EXPECT (etype e = PartialFill))"

definition FromReport_PartialFillSymbol :: "counters \<Rightarrow> counters option" where
  "FromReport_PartialFillSymbol = with_result (make_partial_fill ''ORD001'' ''TSLA'' Side_BUY 60 250.00) (\<lambda>e. EXPECT (sv_string (symbol_view e) = ''TSLA''))"

definition FromReport_PartialFillSideBuy :: "counters \<Rightarrow> counters option" where
  "FromReport_PartialFillSideBuy = with_result (make_partial_fill ''ORD001'' ''AAPL'' Side_BUY 60 175.50) (\<lambda>e. EXPECT (side e = Buy))"

definition FromReport_PartialFillSideSell :: "counters \<Rightarrow> counters option" where
  "FromReport_PartialFillSideSell = with_result (make_partial_fill ''ORD002'' ''AAPL'' Side_SELL 40 176.00) (\<lambda>e. EXPECT (side e = Sell))"

definition FromReport_PartialFillQtyAndPrice :: "counters \<Rightarrow> counters option" where
  "FromReport_PartialFillQtyAndPrice = with_result (make_partial_fill ''ORD001'' ''AAPL'' Side_BUY 60 175.50) (\<lambda>e c. do {
     c1 \<leftarrow> EXPECT (fill_qty e = 60) c;
     px \<leftarrow> to_fixed (round64 175.50);
     EXPECT (fill_price e = px) c1 })"

definition FromReport_PartialFillOrderId :: "counters \<Rightarrow> counters option" where
  "FromReport_PartialFillOrderId = with_result (make_partial_fill ''ORD999'' ''AAPL'' Side_BUY 60 175.50) (\<lambda>e. EXPECT (sv_string (order_id_view e) = ''ORD999''))"

definition FromReport_FullFillType :: "counters \<Rightarrow> counters option" where
  "FromReport_FullFillType = with_result (make_full_fill ''ORD001'' ''AAPL'' Side_BUY 100 175.50) (\<lambda>e. EXPECT (etype e = FullFill))"

definition FromReport_FullFillQtyAndPrice :: "counters \<Rightarrow> counters option" where
  "FromReport_FullFillQtyAndPrice = with_result (make_full_fill ''ORD001'' ''AAPL'' Side_BUY 100 175.50) (\<lambda>e c. do {
     c1 \<leftarrow> EXPECT (fill_qty e = 100) c;
     px \<leftarrow> to_fixed (round64 175.50);
     EXPECT (fill_price e = px) c1 })"

definition FromReport_CancelType :: "counters \<Rightarrow> counters option" where
  "FromReport_CancelType = with_result (make_cancel ''ORD001'' ''AAPL'' Side_BUY) (\<lambda>e. EXPECT (etype e = Cancel))"

definition FromReport_CancelHasNoFillData :: "counters \<Rightarrow> counters option" where
  "FromReport_CancelHasNoFillData = with_result (make_cancel ''ORD001'' ''AAPL'' Side_BUY) (\<lambda>e c. do { c1 \<leftarrow> EXPECT (fill_qty e = 0) c; EXPECT (fill_price e = 0) c1 })"

definition FromReport_RejectType :: "counters \<Rightarrow> counters option" where
  "FromReport_RejectType = with_result (make_reject ''ORD001'' ''AAPL'' Side_BUY ''Margin insufficient'') (\<lambda>e. EXPECT (etype e = Reject))"

definition order_message :: "side \<Rightarrow> int \<Rightarrow> rat \<Rightarrow> string \<Rightarrow> fix_message option" where
  "order_message sd q p oid = do {
     px \<leftarrow> to_fixed (round64 p);
     evt \<leftarrow> make_new_order (sv_of ''AAPL'') sd q px (sv_of oid);
     Some (to_new_order_single evt) }"

definition ToOrder_SymbolAndSideAndQty :: "counters \<Rightarrow> counters option" where
  "ToOrder_SymbolAndSideAndQty c = do {
     msg \<leftarrow> order_message Buy 100 175.00 ''O1'';
     sym \<leftarrow> no_throw (get_string 55 msg);
     sd \<leftarrow> no_throw (get_char 54 msg);
     q \<leftarrow> no_throw (get_double 38 msg);
     c1 \<leftarrow> EXPECT (sym = ''AAPL'') c;
     c2 \<leftarrow> EXPECT (sd = Side_BUY) c1;
     EXPECT (q = round64 100) c2 }"

definition ToOrder_Price :: "counters \<Rightarrow> counters option" where
  "ToOrder_Price c = do {
     msg \<leftarrow> order_message Buy 100 175.50 ''O1'';
     px \<leftarrow> no_throw (get_double 44 msg);
     EXPECT (px = round64 175.50) c }"

definition ToOrder_SellSide :: "counters \<Rightarrow> counters option" where
  "ToOrder_SellSide c = do {
     msg \<leftarrow> order_message Sell 50 176.00 ''O2'';
     sd \<leftarrow> no_throw (get_char 54 msg);
     EXPECT (sd = Side_SELL) c }"

definition translator_tests :: "(counters \<Rightarrow> counters option) list" where
  "translator_tests =
     [FixedPoint_RoundTrip, FixedPoint_ZeroPrice, FixedPoint_LargePrice, FromReport_AckReturnsNullopt,
      FromReport_PartialFillType, FromReport_PartialFillSymbol, FromReport_PartialFillSideBuy,
      FromReport_PartialFillSideSell, FromReport_PartialFillQtyAndPrice, FromReport_PartialFillOrderId,
      FromReport_FullFillType, FromReport_FullFillQtyAndPrice, FromReport_CancelType,
      FromReport_CancelHasNoFillData, FromReport_RejectType,
      ToOrder_SymbolAndSideAndQty, ToOrder_Price, ToOrder_SellSide]"

lemma fp_50000: "fp 50000.00 = Some 50000000000"
  using fp_dollars [of 50000] by simp

lemma from_fixed_exact: "\<bar>n\<bar> < 2 ^ 53 \<Longrightarrow> from_fixed n = round64 (of_int n / 1000000)"
  using round64_int [of n] by (simp add: from_fixed_def d_of_int_def d_div_def PRICE_SCALE_def)

lemma fixed_point_pass:
  "FixedPoint_RoundTrip (r, p) = Some (r + 2, p + 2)" "FixedPoint_ZeroPrice (r, p) = Some (r + 2, p + 2)"
  "FixedPoint_LargePrice (r, p) = Some (r + 1, p + 1)"
proof -
  show "FixedPoint_RoundTrip (r, p) = Some (r + 2, p + 2)"
    by (simp only: FixedPoint_RoundTrip_def fp_to_fixed fp_values Option.bind.bind_lunit EXPECT_def) (simp add: from_fixed_exact)
  show "FixedPoint_ZeroPrice (r, p) = Some (r + 2, p + 2)"
    using fp_dollars [of 0] by (simp add: FixedPoint_ZeroPrice_def fp_to_fixed EXPECT_def from_fixed_exact)
  show "FixedPoint_LargePrice (r, p) = Some (r + 1, p + 1)"
    by (simp only: FixedPoint_LargePrice_def fp_to_fixed fp_50000 Option.bind.bind_lunit EXPECT_def) simp
qed

lemma event_views:
  "sv_string (symbol_view (report_event PartialFill ''ORD001'' ''TSLA'' Side_BUY 60 px)) = ''TSLA''"
  "sv_string (order_id_view (report_event PartialFill ''ORD999'' ''AAPL'' Side_BUY 60 px)) = ''ORD999''"
  by code_simp+

lemma report_event_fields [simp]:
  "etype (report_event et oid symb sd q px) = et" "side (report_event et oid symb sd q px) = (if sd = Side_BUY then Buy else Sell)"
  "fill_qty (report_event et oid symb sd q px) = q" "fill_price (report_event et oid symb sd q px) = px"
  by (simp_all add: report_event_def)

lemma report_results:
  "report_result (make_ack oid symb sd) = Some None"
  "report_result (make_cancel oid symb sd) = Some (Some (report_event Cancel oid symb sd 0 0))"
  "report_result (make_reject oid symb sd reason) = Some (Some (report_event Reject oid symb sd 0 0))"
  "fp x = Some px \<Longrightarrow> \<bar>q\<bar> < 2 ^ 31 \<Longrightarrow> report_result (make_partial_fill oid symb sd q x) = Some (Some (report_event PartialFill oid symb sd q px))"
  "fp x = Some px \<Longrightarrow> \<bar>q\<bar> < 2 ^ 31 \<Longrightarrow> report_result (make_full_fill oid symb sd q x) = Some (Some (report_event FullFill oid symb sd q px))"
  by (simp_all add: report_result_def translated_reports translated_fills no_throw_def)

lemma fill_reports:
  "report_result (make_partial_fill oid symb sd 60 175.50) = Some (Some (report_event PartialFill oid symb sd 60 175500000))"
  "report_result (make_partial_fill oid symb sd 60 250.00) = Some (Some (report_event PartialFill oid symb sd 60 250000000))"
  "report_result (make_partial_fill oid symb sd 40 176.00) = Some (Some (report_event PartialFill oid symb sd 40 176000000))"
  "report_result (make_partial_fill oid symb sd 60 175.00) = Some (Some (report_event PartialFill oid symb sd 60 175000000))"
  "report_result (make_partial_fill oid symb sd 40 175.50) = Some (Some (report_event PartialFill oid symb sd 40 175500000))"
  "report_result (make_full_fill oid symb sd 100 175.50) = Some (Some (report_event FullFill oid symb sd 100 175500000))"
  "report_result (make_full_fill oid symb sd 100 175.00) = Some (Some (report_event FullFill oid symb sd 100 175000000))"
  "report_result (make_full_fill oid symb sd 20 250.00) = Some (Some (report_event FullFill oid symb sd 20 250000000))"
  "report_result (make_full_fill oid symb sd 40 176.00) = Some (Some (report_event FullFill oid symb sd 40 176000000))"
  by (rule report_results, rule fp_values, simp)+

lemma Side_neq [simp]: "Side_SELL \<noteq> Side_BUY"
  by (simp add: Side_SELL_def Side_BUY_def)

lemma from_report_pass:
  "FromReport_AckReturnsNullopt (r, p) = Some (r + 1, p + 1)"
  "FromReport_PartialFillType (r, p) = Some (r + 2, p + 2)"
  "FromReport_PartialFillSymbol (r, p) = Some (r + 2, p + 2)"
  "FromReport_PartialFillSideBuy (r, p) = Some (r + 2, p + 2)"
  "FromReport_PartialFillSideSell (r, p) = Some (r + 2, p + 2)"
  "FromReport_PartialFillQtyAndPrice (r, p) = Some (r + 3, p + 3)"
  "FromReport_PartialFillOrderId (r, p) = Some (r + 2, p + 2)"
  "FromReport_FullFillType (r, p) = Some (r + 2, p + 2)"
  "FromReport_FullFillQtyAndPrice (r, p) = Some (r + 3, p + 3)"
  "FromReport_CancelType (r, p) = Some (r + 2, p + 2)"
  "FromReport_CancelHasNoFillData (r, p) = Some (r + 3, p + 3)"
  "FromReport_RejectType (r, p) = Some (r + 2, p + 2)"
  unfolding FromReport_AckReturnsNullopt_def FromReport_PartialFillType_def FromReport_PartialFillSymbol_def FromReport_PartialFillSideBuy_def FromReport_PartialFillSideSell_def FromReport_PartialFillQtyAndPrice_def FromReport_PartialFillOrderId_def FromReport_FullFillType_def FromReport_FullFillQtyAndPrice_def FromReport_CancelType_def FromReport_CancelHasNoFillData_def FromReport_RejectType_def
    with_result_def [abs_def]
  unfolding report_results(1-3) fill_reports fp_to_fixed fp_values
  by (simp_all add: EXPECT_def ASSERT_def event_views)

lemma to_order_pass:
  "ToOrder_SymbolAndSideAndQty (r, p) = Some (r + 3, p + 3)"
  "ToOrder_Price (r, p) = Some (r + 1, p + 1)"
  "ToOrder_SellSide (r, p) = Some (r + 1, p + 1)"
proof -
  have strs: "strnlen (pad_name 8 ''AAPL'') 8 = 4" "take 4 (pad_name 8 ''AAPL'') = ''AAPL''" "cstr 8 (c_str ''AAPL'') = ''AAPL''"
    by code_simp+
  note defs = order_message_def fp_to_fixed fp_values Option.bind.bind_lunit
  note msg = make_new_order_eq to_new_order_single_def get_string_def get_char_def get_double_def set_field_def no_throw_def
    EXPECT_def sv_of_def strs Let_def fix_side_def Side_BUY_def Side_SELL_def d_of_int_def from_fixed_exact
  show "ToOrder_SymbolAndSideAndQty (r, p) = Some (r + 3, p + 3)"
    unfolding ToOrder_SymbolAndSideAndQty_def defs by (simp add: msg)
  show "ToOrder_Price (r, p) = Some (r + 1, p + 1)"
    unfolding ToOrder_Price_def defs by (simp add: msg)
  show "ToOrder_SellSide (r, p) = Some (r + 1, p + 1)"
    unfolding ToOrder_SellSide_def defs by (simp add: msg)
qed

section \<open>The killswitch\<close>

text \<open>\<open>EXPECT_NO_THROW\<close> holds when the call returns: \<open>cancel_all\<close> and \<open>flatten\<close> catch the one exception of
  \<open>sendToTarget\<close>. What \<open>sendToTarget\<close> does is a parameter, as are the two clock readings of \<open>execute\<close>.\<close>

definition check_open_count :: "nat \<Rightarrow> test_step" where
  "check_open_count n s = do { k \<leftarrow> open_order_count (tt_orders s); CHECK (k = n) s }"

definition cancel_t :: "session_send \<Rightarrow> killswitch \<Rightarrow> test_step" where
  "cancel_t send ks s = do { _ \<leftarrow> cancel_all send ks ''KS'' (tt_orders s); CHECK True s }"

definition flatten_t :: "session_send \<Rightarrow> killswitch \<Rightarrow> test_step" where
  "flatten_t send ks s = do { _ \<leftarrow> flatten send ks ''FL'' (tt_tracker s); CHECK True s }"

definition KillswitchArm_InitiallyDisarmed :: "string \<Rightarrow> counters \<Rightarrow> counters option" where
  "KillswitchArm_InitiallyDisarmed sid = EXPECT (\<not> is_armed (new_killswitch sid))"

definition KillswitchArm_ArmSetsFlag :: "string \<Rightarrow> counters \<Rightarrow> counters option" where
  "KillswitchArm_ArmSetsFlag sid = EXPECT (is_armed (arm (new_killswitch sid)))"

definition KillswitchCancelAll_DoesNotCrashWithNoOpenOrders :: "session_send \<Rightarrow> string \<Rightarrow> counters \<Rightarrow> counters option" where
  "KillswitchCancelAll_DoesNotCrashWithNoOpenOrders send sid = table_test ([] @ [cancel_t send (new_killswitch sid)])"

definition KillswitchCancelAll_OnlyTargetsOpenOrders :: "session_send \<Rightarrow> string \<Rightarrow> counters \<Rightarrow> counters option" where
  "KillswitchCancelAll_OnlyTargetsOpenOrders send sid = table_test (
     [apply_o (new_event ''AAPL'' Buy 100 175.00 ''O1''),
      apply_o (new_event ''TSLA'' Buy 20 250.00 ''O2''),
      apply_o (fill_event ''TSLA'' Buy 20 250.00 ''O2'' False),
      check_open_count 1] @
     [cancel_t send (new_killswitch sid)])"

definition KillswitchCancelAll_MultipleOpenOrders :: "session_send \<Rightarrow> string \<Rightarrow> counters \<Rightarrow> counters option" where
  "KillswitchCancelAll_MultipleOpenOrders send sid = table_test (
     (map (\<lambda>i. apply_o (new_event ''AAPL'' Buy 100 175.00 (''O'' @ to_dec i))) [0..<5] @ [check_open_count 5]) @
     [cancel_t send (new_killswitch sid)])"

definition KillswitchFlatten_DoesNotCrashWithFlatBook :: "session_send \<Rightarrow> string \<Rightarrow> counters \<Rightarrow> counters option" where
  "KillswitchFlatten_DoesNotCrashWithFlatBook send sid = table_test ([] @ [flatten_t send (new_killswitch sid)])"

definition KillswitchFlatten_DoesNotCrashWithOpenPositions :: "session_send \<Rightarrow> string \<Rightarrow> counters \<Rightarrow> counters option" where
  "KillswitchFlatten_DoesNotCrashWithOpenPositions send sid = table_test (
     [apply_t (fill_event ''AAPL'' Buy 100 175.00 ''O1'' False),
      apply_t (fill_event ''TSLA'' Sell 20 250.00 ''O2'' False),
      check_pos ''AAPL'' (\<lambda>p. Some (net_qty p = 100)),
      check_pos ''TSLA'' (\<lambda>p. Some (net_qty p = - 20))] @
     [flatten_t send (new_killswitch sid)])"

definition elapsed_t :: "session_send \<Rightarrow> killswitch \<Rightarrow> int \<Rightarrow> int \<Rightarrow> test_step" where
  "elapsed_t send ks t0 t1 s = do {
     (elapsed, over, r) \<leftarrow> execute send ks ''KS'' 5000 t0 t1 (tt_orders s);
     s1 \<leftarrow> CHECK (elapsed \<ge> 0) s;
     CHECK (elapsed < 5000) s1 }"

definition execute_t :: "session_send \<Rightarrow> killswitch \<Rightarrow> int \<Rightarrow> int \<Rightarrow> test_step" where
  "execute_t send ks t0 t1 s = do { _ \<leftarrow> execute send ks ''KS'' 100 t0 t1 (tt_orders s); CHECK True s }"

definition KillswitchExecute_ReturnsElapsedTime :: "session_send \<Rightarrow> string \<Rightarrow> int \<Rightarrow> int \<Rightarrow> counters \<Rightarrow> counters option" where
  "KillswitchExecute_ReturnsElapsedTime send sid t0 t1 = table_test (
     [apply_o (new_event ''AAPL'' Buy 100 175.00 ''O1'')] @ [elapsed_t send (new_killswitch sid) t0 t1])"

definition KillswitchExecute_DoesNotCrashOnEmptyBook :: "session_send \<Rightarrow> string \<Rightarrow> int \<Rightarrow> int \<Rightarrow> counters \<Rightarrow> counters option" where
  "KillswitchExecute_DoesNotCrashOnEmptyBook send sid t0 t1 = table_test ([] @ [execute_t send (new_killswitch sid) t0 t1])"

definition killswitch_tests :: "session_send \<Rightarrow> string \<Rightarrow> int \<Rightarrow> int \<Rightarrow> (counters \<Rightarrow> counters option) list" where
  "killswitch_tests send sid t0 t1 =
     [KillswitchArm_InitiallyDisarmed sid, KillswitchArm_ArmSetsFlag sid,
      KillswitchCancelAll_DoesNotCrashWithNoOpenOrders send sid, KillswitchCancelAll_OnlyTargetsOpenOrders send sid,
      KillswitchCancelAll_MultipleOpenOrders send sid, KillswitchFlatten_DoesNotCrashWithFlatBook send sid,
      KillswitchFlatten_DoesNotCrashWithOpenPositions send sid, KillswitchExecute_ReturnsElapsedTime send sid t0 t1,
      KillswitchExecute_DoesNotCrashOnEmptyBook send sid t0 t1]"

text \<open>Whatever \<open>sendToTarget\<close> does, the two loops return when they stay inside the array, and \<open>flatten\<close> when
  no net quantity is the least \<open>int64_t\<close>.\<close>

lemma foldm_total: "(\<And>x s. x \<in> set xs \<Longrightarrow> f x s \<noteq> None) \<Longrightarrow> \<exists>s'. foldm f xs s = Some s'"
proof (induction xs arbitrary: s)
  case (Cons x xs)
  obtain s1 where s1: "f x s = Some s1" using Cons.prems [of x s] by auto
  obtain s2 where "foldm f xs s1 = Some s2" using Cons.IH [of s1] Cons.prems by auto
  with s1 show ?case by simp
qed simp

lemma cancel_all_returns: "om_count om \<le> length (om_slots om) \<Longrightarrow> \<exists>r. cancel_all send ks pre om = Some r"
  by (simp add: cancel_all_seen) (rule foldm_total, simp add: cancel_piece_def Let_def)

definition closable :: "position_tracker \<Rightarrow> bool" where
  "closable pt \<longleftrightarrow> pt_count pt \<le> length (pt_slots pt) \<and> list_all (\<lambda>p. i64 (- net_qty p) \<noteq> None) (take (pt_count pt) (pt_slots pt))"

lemma flatten_returns:
  assumes "closable pt"
  shows "\<exists>r. flatten send ks pre pt = Some r"
proof -
  have "flatten send ks pre pt = foldm (flatten_one send (ks_session ks) pre) (take (pt_count pt) (pt_slots pt)) ks_start"
    unfolding flatten_def pt_for_each_def using foldm_indices [of "pt_count pt" "pt_slots pt"] assms by (simp add: closable_def)
  moreover have "flatten_one send (ks_session ks) pre p s \<noteq> None" if "p \<in> set (take (pt_count pt) (pt_slots pt))" for p s
    using that assms by (auto simp: closable_def list_all_iff flatten_one_def flat_event_def strncpy_eq Let_def i64_def)
  ultimately show ?thesis using foldm_total by metis
qed

lemma framed_open_count [simp]: "framed (check_open_count n)"
  unfolding check_open_count_def [abs_def]
  by (intro framed_bind framed_CHECK) (simp add: observed_def open_order_count_pad)

text \<open>A test that ends with a call of the killswitch: its other steps are evaluated on a few slots, up to a
  state where the call returns.\<close>

lemma table_test_then:
  assumes k: "k \<le> MAX_SYMBOLS" "k \<le> MAX_ORDERS" and steps: "list_all framed steps"
    and run: "do { s \<leftarrow> foldm (\<lambda>c. c) steps \<lparr>tt_tracker = pt_first k, tt_orders = om_first k, tests_run = r, tests_passed = p\<rparr>;
      Some (Q s, tests_run s, tests_passed s) } = Some (True, r1, p1)"
    and call: "\<And>s ys zs. Q s \<Longrightarrow> last_step (tt_pad ys zs s) = foldm CHECK (replicate n True) (tt_pad ys zs s)"
  shows "table_test (steps @ [last_step]) (r, p) = Some (r1 + n, p1 + n)"
proof -
  let ?s = "\<lparr>tt_tracker = pt_first k, tt_orders = om_first k, tests_run = r, tests_passed = p\<rparr>"
  let ?ys = "replicate (MAX_SYMBOLS - k) zero_position" and ?zs = "replicate (MAX_ORDERS - k) zero_order"
  from run obtain s where s: "foldm (\<lambda>c. c) steps ?s = Some s" "Q s" "tests_run s = r1" "tests_passed s = p1"
    by (auto simp: Option.bind_eq_Some_conv)
  have pad: "tt_pad ?ys ?zs ?s = \<lparr>tt_tracker = new_position_tracker, tt_orders = new_order_manager, tests_run = r, tests_passed = p\<rparr>"
    by (simp add: tt_pad_def new_position_tracker_pad [OF k(1)] new_order_manager_pad [OF k(2)])
  have checks: "foldm CHECK (replicate n True) s' = Some (s'\<lparr>tests_run := tests_run s' + n, tests_passed := tests_passed s' + n\<rparr>)" for s'
    by (induction n arbitrary: s') (simp_all add: CHECK_def)
  from run_framed [OF steps s(1), of ?ys ?zs] call [OF s(2)] s(3,4) show ?thesis
    by (simp add: table_test_def pad checks)
qed

lemma cancel_t_returns: "om_count (tt_orders s) \<le> length (om_slots (tt_orders s)) \<Longrightarrow> cancel_t send ks s = foldm CHECK [True] s"
  using cancel_all_returns [of "tt_orders s" send ks "''KS''"] by (auto simp: cancel_t_def)

lemma flatten_t_returns: "closable (tt_tracker s) \<Longrightarrow> flatten_t send ks s = foldm CHECK [True] s"
  using flatten_returns [of "tt_tracker s" send ks "''FL''"] by (auto simp: flatten_t_def)

lemma closable_pad: "closable pt \<Longrightarrow> closable (pt_pad ys pt)"
  by (simp add: closable_def)

definition orders_inside :: "test_state \<Rightarrow> bool" where
  "orders_inside s \<longleftrightarrow> om_count (tt_orders s) \<le> length (om_slots (tt_orders s))"

lemma orders_inside_pad: "orders_inside s \<Longrightarrow> orders_inside (tt_pad ys zs s)"
  by (simp add: orders_inside_def)

lemma cancel_tests_pass:
  "KillswitchCancelAll_DoesNotCrashWithNoOpenOrders send sid (r, p) = Some (r + 1, p + 1)"
  "KillswitchCancelAll_OnlyTargetsOpenOrders send sid (r, p) = Some (r + 2, p + 2)"
  "KillswitchCancelAll_MultipleOpenOrders send sid (r, p) = Some (r + 2, p + 2)"
proof -
  have k: "8 \<le> MAX_SYMBOLS" "8 \<le> MAX_ORDERS" by (simp_all add: MAX_SYMBOLS_def MAX_ORDERS_def)
  have call: "cancel_t send (new_killswitch sid) (tt_pad ys zs s) = foldm CHECK (replicate 1 True) (tt_pad ys zs s)"
    if "orders_inside s" for s ys zs
    using cancel_t_returns [of "tt_pad ys zs s"] orders_inside_pad [OF that, of ys zs] by (simp add: orders_inside_def)
  show "KillswitchCancelAll_DoesNotCrashWithNoOpenOrders send sid (r, p) = Some (r + 1, p + 1)"
    unfolding KillswitchCancelAll_DoesNotCrashWithNoOpenOrders_def
    by (rule table_test_then [where Q = orders_inside, OF k _ _ call]) (simp_all add: orders_inside_def om_first_def)
  have "KillswitchCancelAll_OnlyTargetsOpenOrders send sid (r, p) = Some ((r + 1) + 1, (p + 1) + 1)"
    unfolding KillswitchCancelAll_OnlyTargetsOpenOrders_def
    by (rule table_test_then [where Q = orders_inside, OF k _ _ call], simp, simp only: test_events, code_simp, simp)
  then show "KillswitchCancelAll_OnlyTargetsOpenOrders send sid (r, p) = Some (r + 2, p + 2)" by simp
  have "KillswitchCancelAll_MultipleOpenOrders send sid (r, p) = Some ((r + 1) + 1, (p + 1) + 1)"
    unfolding KillswitchCancelAll_MultipleOpenOrders_def
    by (rule table_test_then [where Q = orders_inside, OF k _ _ call], simp add: list_all_iff, simp only: test_events, code_simp, simp)
  then show "KillswitchCancelAll_MultipleOpenOrders send sid (r, p) = Some (r + 2, p + 2)" by simp
qed

lemma flatten_tests_pass:
  "KillswitchFlatten_DoesNotCrashWithFlatBook send sid (r, p) = Some (r + 1, p + 1)"
  "KillswitchFlatten_DoesNotCrashWithOpenPositions send sid (r, p) = Some (r + 3, p + 3)"
proof -
  have k: "4 \<le> MAX_SYMBOLS" "4 \<le> MAX_ORDERS" by (simp_all add: MAX_SYMBOLS_def MAX_ORDERS_def)
  have call: "flatten_t send (new_killswitch sid) (tt_pad ys zs s) = foldm CHECK (replicate 1 True) (tt_pad ys zs s)"
    if "closable (tt_tracker s)" for s ys zs
    using flatten_t_returns [of "tt_pad ys zs s"] closable_pad [OF that] by simp
  show "KillswitchFlatten_DoesNotCrashWithFlatBook send sid (r, p) = Some (r + 1, p + 1)"
    unfolding KillswitchFlatten_DoesNotCrashWithFlatBook_def
    by (rule table_test_then [where Q = "\<lambda>s. closable (tt_tracker s)", OF k _ _ call]) (simp_all add: closable_def pt_first_def)
  have "KillswitchFlatten_DoesNotCrashWithOpenPositions send sid (r, p) = Some ((r + 2) + 1, (p + 2) + 1)"
    unfolding KillswitchFlatten_DoesNotCrashWithOpenPositions_def
    by (rule table_test_then [where Q = "\<lambda>s. closable (tt_tracker s)", OF k _ _ call], simp, simp only: test_events, code_simp, simp)
  then show "KillswitchFlatten_DoesNotCrashWithOpenPositions send sid (r, p) = Some (r + 3, p + 3)" by simp
qed

lemma foldm_single: "foldm f [x] = f x"
  by (simp add: fun_eq_iff)

text \<open>The elapsed time depends on the clock: not backwards, and less than five seconds.\<close>

lemma execute_tests_pass:
  assumes "t0 \<le> t1" "t1 - t0 < 5000000000"
  shows "KillswitchExecute_ReturnsElapsedTime send sid t0 t1 (r, p) = Some (r + 2, p + 2)"
    "KillswitchExecute_DoesNotCrashOnEmptyBook send sid t0 t1 (r, p) = Some (r + 1, p + 1)"
proof -
  have k: "4 \<le> MAX_SYMBOLS" "4 \<le> MAX_ORDERS" by (simp_all add: MAX_SYMBOLS_def MAX_ORDERS_def)
  have "(t1 - t0) div 1000000 * 1000000 \<le> t1 - t0" by simp
  with assms(2) have ms: "(t1 - t0) div 1000000 < 5000" by linarith
  have d: "i64 (t1 - t0) = Some (t1 - t0)" "0 \<le> (t1 - t0) sdiv 1000000" "(t1 - t0) sdiv 1000000 < 5000"
    using assms ms by (simp_all add: i64_def int64_def signed_divide_int_def sgn_if)
  have ex: "\<exists>run. execute send (new_killswitch sid) ''KS'' b t0 t1 (tt_orders (tt_pad ys zs s)) =
      Some ((t1 - t0) sdiv 1000000, (t1 - t0) sdiv 1000000 > b, run)" if "orders_inside s" for b s ys zs
    using cancel_all_returns [of "tt_orders (tt_pad ys zs s)" send "new_killswitch sid" "''KS''"] orders_inside_pad [OF that, of ys zs]
    by (auto simp: orders_inside_def execute_def d(1) Let_def)
  have elapsed: "elapsed_t send (new_killswitch sid) t0 t1 (tt_pad ys zs s) = foldm CHECK (replicate 2 True) (tt_pad ys zs s)"
    if "orders_inside s" for s ys zs
    using ex [OF that, of 5000 ys zs] d(2,3) by (auto simp: elapsed_t_def numeral_2_eq_2 foldm_single)
  have call: "execute_t send (new_killswitch sid) t0 t1 (tt_pad ys zs s) = foldm CHECK (replicate 1 True) (tt_pad ys zs s)"
    if "orders_inside s" for s ys zs
    using ex [OF that, of 100 ys zs] by (auto simp: execute_t_def)
  show "KillswitchExecute_ReturnsElapsedTime send sid t0 t1 (r, p) = Some (r + 2, p + 2)"
    unfolding KillswitchExecute_ReturnsElapsedTime_def
    by (rule table_test_then [where Q = orders_inside, OF k _ _ elapsed], simp, simp only: test_events, code_simp, simp)
  show "KillswitchExecute_DoesNotCrashOnEmptyBook send sid t0 t1 (r, p) = Some (r + 1, p + 1)"
    unfolding KillswitchExecute_DoesNotCrashOnEmptyBook_def
    by (rule table_test_then [where Q = orders_inside, OF k _ _ call]) (simp_all add: orders_inside_def om_first_def)
qed

section \<open>The gateway\<close>

text \<open>The calls and checks of a test, on the gateway of the fixture.\<close>

datatype gateway_cmd =
    Book string side int int string
  | Deliver timespec fix_message
  | Log_size nat
  | Event_found "64 word"
  | Event_is "64 word" "order_event \<Rightarrow> bool"
  | No_position string
  | Position_found string
  | Position_is string "position \<Rightarrow> bool"
  | Order_found string
  | Order_is string "order \<Rightarrow> bool option"

record gateway_fixture =
  fx_gateway :: gateway
  fx_counters :: counters

fun gateway_do :: "gateway_cmd \<Rightarrow> gateway_fixture \<Rightarrow> gateway_fixture option" where
  "gateway_do (Book symb sd q px oid) s = do {
     e \<leftarrow> make_new_order (sv_of symb) sd q px (sv_of oid);
     om \<leftarrow> om_apply_event e (g_orders (fx_gateway s));
     Some (s\<lparr>fx_gateway := (fx_gateway s)\<lparr>g_orders := om\<rparr>\<rparr>) }"
| "gateway_do (Deliver ts report) s = do {
     res \<leftarrow> onMessage message_api ts report (fx_gateway s);
     (case res of Returns g \<Rightarrow> Some (s\<lparr>fx_gateway := g\<rparr>) | Terminates _ \<Rightarrow> None) }"
| "gateway_do (Log_size n) s = do {
     c \<leftarrow> EXPECT (log_size (g_log (fx_gateway s)) = word_of_nat n) (fx_counters s); Some (s\<lparr>fx_counters := c\<rparr>) }"
| "gateway_do (Event_found i) s = do {
     f \<leftarrow> read (g_log (fx_gateway s)) i; c \<leftarrow> ASSERT (f \<noteq> None) (fx_counters s); Some (s\<lparr>fx_counters := c\<rparr>) }"
| "gateway_do (Event_is i P) s = do {
     f \<leftarrow> read (g_log (fx_gateway s)) i; e \<leftarrow> f; c \<leftarrow> EXPECT (P e) (fx_counters s); Some (s\<lparr>fx_counters := c\<rparr>) }"
| "gateway_do (No_position symb) s = do {
     f \<leftarrow> pt_get (g_tracker (fx_gateway s)) (sv_of symb); c \<leftarrow> EXPECT (f = None) (fx_counters s); Some (s\<lparr>fx_counters := c\<rparr>) }"
| "gateway_do (Position_found symb) s = do {
     f \<leftarrow> pt_get (g_tracker (fx_gateway s)) (sv_of symb); c \<leftarrow> ASSERT (f \<noteq> None) (fx_counters s); Some (s\<lparr>fx_counters := c\<rparr>) }"
| "gateway_do (Position_is symb P) s = do {
     f \<leftarrow> pt_get (g_tracker (fx_gateway s)) (sv_of symb); p \<leftarrow> f; c \<leftarrow> EXPECT (P p) (fx_counters s); Some (s\<lparr>fx_counters := c\<rparr>) }"
| "gateway_do (Order_found oid) s = do {
     f \<leftarrow> om_get (g_orders (fx_gateway s)) (sv_of oid); c \<leftarrow> ASSERT (f \<noteq> None) (fx_counters s); Some (s\<lparr>fx_counters := c\<rparr>) }"
| "gateway_do (Order_is oid P) s = do {
     f \<leftarrow> om_get (g_orders (fx_gateway s)) (sv_of oid); od \<leftarrow> f; b \<leftarrow> P od; c \<leftarrow> EXPECT b (fx_counters s); Some (s\<lparr>fx_counters := c\<rparr>) }"

definition SetUp :: "os_env \<Rightarrow> counters \<Rightarrow> gateway_fixture option" where
  "SetUp os c = do {
     lg \<leftarrow> open_log os None;
     Some \<lparr>fx_gateway = new_gateway lg new_position_tracker new_order_manager (new_risk_checker default_limits), fx_counters = c\<rparr> }"

definition gateway_test :: "os_env \<Rightarrow> gateway_cmd list \<Rightarrow> counters \<Rightarrow> counters option" where
  "gateway_test os cmds c = do { s0 \<leftarrow> SetUp os c; s \<leftarrow> foldm gateway_do cmds s0; Some (fx_counters s) }"

definition FIXGateway_AckDoesNotUpdatePosition :: "os_env \<Rightarrow> (nat \<Rightarrow> timespec) \<Rightarrow> counters \<Rightarrow> counters option" where
  "FIXGateway_AckDoesNotUpdatePosition os clk = gateway_test os
     [Book ''AAPL'' Buy 100 100000000 ''ORD001'',
      Deliver (clk 0) (make_ack ''ORD001'' ''AAPL'' Side_BUY),
      No_position ''AAPL'',
      Log_size 0]"

definition FIXGateway_FullFillUpdatesEventLog :: "os_env \<Rightarrow> (nat \<Rightarrow> timespec) \<Rightarrow> counters \<Rightarrow> counters option" where
  "FIXGateway_FullFillUpdatesEventLog os clk = gateway_test os
     [Deliver (clk 0) (make_full_fill ''ORD001'' ''AAPL'' Side_BUY 100 175.50),
      Log_size 1,
      Event_found 0,
      Event_is 0 (\<lambda>e. etype e = FullFill),
      Event_is 0 (\<lambda>e. fill_qty e = 100)]"

definition FIXGateway_FullFillUpdatesPositionTracker :: "os_env \<Rightarrow> (nat \<Rightarrow> timespec) \<Rightarrow> counters \<Rightarrow> counters option" where
  "FIXGateway_FullFillUpdatesPositionTracker os clk = gateway_test os
     [Book ''AAPL'' Buy 100 175000000 ''ORD001'',
      Deliver (clk 0) (make_full_fill ''ORD001'' ''AAPL'' Side_BUY 100 175.50),
      Position_found ''AAPL'',
      Position_is ''AAPL'' (\<lambda>p. net_qty p = 100)]"

definition FIXGateway_FullFillUpdatesOrderManager :: "os_env \<Rightarrow> (nat \<Rightarrow> timespec) \<Rightarrow> counters \<Rightarrow> counters option" where
  "FIXGateway_FullFillUpdatesOrderManager os clk = gateway_test os
     [Book ''AAPL'' Buy 100 175000000 ''ORD001'',
      Deliver (clk 0) (make_full_fill ''ORD001'' ''AAPL'' Side_BUY 100 175.50),
      Order_found ''ORD001'',
      Order_is ''ORD001'' (\<lambda>od. Some (o_state od = Filled)),
      Order_is ''ORD001'' (\<lambda>od. Some (filled_qty od = 100))]"

definition FIXGateway_PartialFillLeavesOrderOpen :: "os_env \<Rightarrow> (nat \<Rightarrow> timespec) \<Rightarrow> counters \<Rightarrow> counters option" where
  "FIXGateway_PartialFillLeavesOrderOpen os clk = gateway_test os
     [Book ''AAPL'' Buy 100 175000000 ''ORD001'',
      Deliver (clk 0) (make_partial_fill ''ORD001'' ''AAPL'' Side_BUY 60 175.50),
      Order_found ''ORD001'',
      Order_is ''ORD001'' (\<lambda>od. Some (o_state od = PartiallyFilled)),
      Order_is ''ORD001'' (\<lambda>od. Some (filled_qty od = 60)),
      Order_is ''ORD001'' (\<lambda>od. do { n \<leftarrow> remaining_qty od; Some (n = 40) })]"

definition FIXGateway_PartialThenFullFill :: "os_env \<Rightarrow> (nat \<Rightarrow> timespec) \<Rightarrow> counters \<Rightarrow> counters option" where
  "FIXGateway_PartialThenFullFill os clk = gateway_test os
     [Book ''AAPL'' Buy 100 175000000 ''ORD001'',
      Deliver (clk 0) (make_partial_fill ''ORD001'' ''AAPL'' Side_BUY 60 175.00),
      Deliver (clk 1) (make_partial_fill ''ORD001'' ''AAPL'' Side_BUY 40 175.50),
      Position_found ''AAPL'',
      Order_found ''ORD001'',
      Position_is ''AAPL'' (\<lambda>p. net_qty p = 100),
      Order_is ''ORD001'' (\<lambda>od. Some (o_state od = Filled)),
      Log_size 2]"

definition FIXGateway_CancelClosesOrder :: "os_env \<Rightarrow> (nat \<Rightarrow> timespec) \<Rightarrow> counters \<Rightarrow> counters option" where
  "FIXGateway_CancelClosesOrder os clk = gateway_test os
     [Book ''AAPL'' Buy 100 175000000 ''ORD001'',
      Deliver (clk 0) (make_cancel ''ORD001'' ''AAPL'' Side_BUY),
      Order_found ''ORD001'',
      Order_is ''ORD001'' (\<lambda>od. Some (o_state od = Cancelled))]"

definition FIXGateway_CancelDoesNotMovePosition :: "os_env \<Rightarrow> (nat \<Rightarrow> timespec) \<Rightarrow> counters \<Rightarrow> counters option" where
  "FIXGateway_CancelDoesNotMovePosition os clk = gateway_test os
     [Book ''AAPL'' Buy 100 175000000 ''ORD001'',
      Deliver (clk 0) (make_cancel ''ORD001'' ''AAPL'' Side_BUY),
      Log_size 1,
      No_position ''AAPL'']"

definition FIXGateway_RejectClosesOrder :: "os_env \<Rightarrow> (nat \<Rightarrow> timespec) \<Rightarrow> counters \<Rightarrow> counters option" where
  "FIXGateway_RejectClosesOrder os clk = gateway_test os
     [Book ''AAPL'' Buy 100 175000000 ''ORD001'',
      Deliver (clk 0) (make_reject ''ORD001'' ''AAPL'' Side_BUY ''Margin insufficient''),
      Order_found ''ORD001'',
      Order_is ''ORD001'' (\<lambda>od. Some (o_state od = Rejected))]"

definition FIXGateway_MultipleSymbolsTrackedIndependently :: "os_env \<Rightarrow> (nat \<Rightarrow> timespec) \<Rightarrow> counters \<Rightarrow> counters option" where
  "FIXGateway_MultipleSymbolsTrackedIndependently os clk = gateway_test os
     [Deliver (clk 0) (make_full_fill ''O1'' ''AAPL'' Side_BUY 100 175.00),
      Deliver (clk 1) (make_full_fill ''O2'' ''TSLA'' Side_BUY 20 250.00),
      Deliver (clk 2) (make_sell_fill ''O3'' ''AAPL'' 40 176.00),
      Position_is ''AAPL'' (\<lambda>p. net_qty p = 60),
      Position_is ''TSLA'' (\<lambda>p. net_qty p = 20),
      Log_size 3]"

text \<open>The last test opens the file a second time while the first log still maps it.\<close>

definition FIXGateway_ReplayReconstructsState :: "os_env \<Rightarrow> (nat \<Rightarrow> timespec) \<Rightarrow> counters \<Rightarrow> counters option" where
  "FIXGateway_ReplayReconstructsState os clk c = do {
     s0 \<leftarrow> SetUp os c;
     s \<leftarrow> foldm gateway_do
       [Deliver (clk 0) (make_full_fill ''O1'' ''AAPL'' Side_BUY 100 175.00),
        Deliver (clk 1) (make_sell_fill ''O2'' ''AAPL'' 40 176.00)] s0;
     log2 \<leftarrow> open_log os (Some (mapped (g_log (fx_gateway s))));
     tracker2 \<leftarrow> pt_replay_from log2 new_position_tracker;
     test_on tracker2 new_order_manager
       [check_pos_found ''AAPL'', check_pos ''AAPL'' (\<lambda>p. Some (net_qty p = 60))] (fx_counters s) }"

definition gateway_tests :: "os_env \<Rightarrow> (nat \<Rightarrow> timespec) \<Rightarrow> (counters \<Rightarrow> counters option) list" where
  "gateway_tests os clk =
     [FIXGateway_AckDoesNotUpdatePosition os clk,
      FIXGateway_FullFillUpdatesEventLog os clk,
      FIXGateway_FullFillUpdatesPositionTracker os clk,
      FIXGateway_FullFillUpdatesOrderManager os clk,
      FIXGateway_PartialFillLeavesOrderOpen os clk,
      FIXGateway_PartialThenFullFill os clk,
      FIXGateway_CancelClosesOrder os clk,
      FIXGateway_CancelDoesNotMovePosition os clk,
      FIXGateway_RejectClosesOrder os clk,
      FIXGateway_MultipleSymbolsTrackedIndependently os clk,
      FIXGateway_ReplayReconstructsState os clk]"

section \<open>The gateway on a few slots\<close>

text \<open>The same commands on the first slots of the tables and on the list of the logged events.\<close>

record light =
  lt_tracker :: position_tracker
  lt_orders :: order_manager
  lt_log :: "order_event list"
  lt_counters :: counters

fun light_book :: "timespec \<Rightarrow> order_event option \<Rightarrow> light \<Rightarrow> light option" where
  "light_book ts None l = Some l"
| "light_book ts (Some e) l =
     (if length (lt_log l) < 4 then do {
        pt \<leftarrow> pt_apply_event e (lt_tracker l);
        om \<leftarrow> om_apply_event e (lt_orders l);
        Some (l\<lparr>lt_tracker := pt, lt_orders := om,
          lt_log := lt_log l @ [e\<lparr>sequence := word_of_nat (length (lt_log l)), timestamp_ns := now_ns ts\<rparr>]\<rparr>) }
      else None)"

fun light_do :: "gateway_cmd \<Rightarrow> light \<Rightarrow> light option" where
  "light_do (Book symb sd q px oid) l = do {
     e \<leftarrow> make_new_order (sv_of symb) sd q px (sv_of oid);
     om \<leftarrow> om_apply_event e (lt_orders l);
     Some (l\<lparr>lt_orders := om\<rparr>) }"
| "light_do (Deliver ts report) l = do { m \<leftarrow> report_result report; light_book ts m l }"
| "light_do (Log_size n) l = do {
     c \<leftarrow> EXPECT (length (lt_log l) = n) (lt_counters l); if n < 4 then Some (l\<lparr>lt_counters := c\<rparr>) else None }"
| "light_do (Event_found i) l = do {
     c \<leftarrow> ASSERT (unat i < length (lt_log l)) (lt_counters l); Some (l\<lparr>lt_counters := c\<rparr>) }"
| "light_do (Event_is i P) l =
     (if unat i < length (lt_log l) then do { c \<leftarrow> EXPECT (P (lt_log l ! unat i)) (lt_counters l); Some (l\<lparr>lt_counters := c\<rparr>) } else None)"
| "light_do (No_position symb) l = do {
     f \<leftarrow> pt_get (lt_tracker l) (sv_of symb); c \<leftarrow> EXPECT (f = None) (lt_counters l); Some (l\<lparr>lt_counters := c\<rparr>) }"
| "light_do (Position_found symb) l = do {
     f \<leftarrow> pt_get (lt_tracker l) (sv_of symb); c \<leftarrow> ASSERT (f \<noteq> None) (lt_counters l); Some (l\<lparr>lt_counters := c\<rparr>) }"
| "light_do (Position_is symb P) l = do {
     f \<leftarrow> pt_get (lt_tracker l) (sv_of symb); p \<leftarrow> f; c \<leftarrow> EXPECT (P p) (lt_counters l); Some (l\<lparr>lt_counters := c\<rparr>) }"
| "light_do (Order_found oid) l = do {
     f \<leftarrow> om_get (lt_orders l) (sv_of oid); c \<leftarrow> ASSERT (f \<noteq> None) (lt_counters l); Some (l\<lparr>lt_counters := c\<rparr>) }"
| "light_do (Order_is oid P) l = do {
     f \<leftarrow> om_get (lt_orders l) (sv_of oid); od \<leftarrow> f; b \<leftarrow> P od; c \<leftarrow> EXPECT b (lt_counters l); Some (l\<lparr>lt_counters := c\<rparr>) }"

definition stands_for :: "position list \<Rightarrow> order list \<Rightarrow> light \<Rightarrow> gateway_fixture \<Rightarrow> bool" where
  "stands_for ys zs l s \<longleftrightarrow>
     g_tracker (fx_gateway s) = pt_pad ys (lt_tracker l) \<and> g_orders (fx_gateway s) = om_pad zs (lt_orders l) \<and>
     log_ok (g_log (fx_gateway s)) \<and> log_events (g_log (fx_gateway s)) = lt_log l \<and> length (lt_log l) \<le> 4 \<and>
     fx_counters s = lt_counters l"

lemma report_result_Some:
  assumes "report_result report = Some m"
  shows "from_execution_report message_api report = Some (Inr m)"
proof -
  from assms obtain res where "from_execution_report message_api report = Some res" "no_throw res = Some m"
    by (auto simp: report_result_def Option.bind_eq_Some_conv)
  then show ?thesis by (cases res) (simp_all add: no_throw_def)
qed

lemma small_log:
  assumes "log_ok lg" "length (log_events lg) \<le> 4"
  shows "next_seq lg = word_of_nat (length (log_events lg))" "unat (next_seq lg) < MAX_EVENTS"
proof -
  have n: "length (log_events lg) = unat (next_seq lg)" by (simp add: length_log_events)
  then show "next_seq lg = word_of_nat (length (log_events lg))" by simp
  show "unat (next_seq lg) < MAX_EVENTS" using assms(2) n by (simp add: MAX_EVENTS_def)
qed

lemma deliver_stands_for:
  assumes "stands_for ys zs l s" "light_do (Deliver ts report) l = Some l'"
  shows "\<exists>s'. gateway_do (Deliver ts report) s = Some s' \<and> stands_for ys zs l' s'"
proof -
  from assms(2) obtain m where m: "from_execution_report message_api report = Some (Inr m)" "report_result report = Some m"
    by (auto simp: Option.bind_eq_Some_conv dest: report_result_Some)
  show ?thesis
  proof (cases m)
    case None
    with assms m show ?thesis by (simp add: onMessage_def)
  next
    case (Some e)
    with assms(2) m(2) obtain pt om where l: "length (lt_log l) < 4" "pt_apply_event e (lt_tracker l) = Some pt"
        "om_apply_event e (lt_orders l) = Some om"
        "l' = l\<lparr>lt_tracker := pt, lt_orders := om,
          lt_log := lt_log l @ [e\<lparr>sequence := word_of_nat (length (lt_log l)), timestamp_ns := now_ns ts\<rparr>]\<rparr>"
      by (auto simp: Option.bind_eq_Some_conv split: if_splits)
    from assms(1) have s: "log_ok (g_log (fx_gateway s))" "log_events (g_log (fx_gateway s)) = lt_log l" "length (lt_log l) \<le> 4"
        "g_tracker (fx_gateway s) = pt_pad ys (lt_tracker l)" "g_orders (fx_gateway s) = om_pad zs (lt_orders l)"
        "fx_counters s = lt_counters l"
      by (simp_all add: stands_for_def)
    note sq = small_log [OF s(1)] s(2,3)
    obtain lg where lg: "log_append ts e (g_log (fx_gateway s)) = Some (lg, Inr (next_seq (g_log (fx_gateway s))))" "log_ok lg"
        "log_events lg = lt_log l @ [e\<lparr>sequence := word_of_nat (length (lt_log l)), timestamp_ns := now_ns ts\<rparr>]"
      using log_append_ok [OF s(1), of ts e] sq by metis
    have "gateway_do (Deliver ts report) s = Some (s\<lparr>fx_gateway := (fx_gateway s)
        \<lparr>g_log := lg, g_tracker := pt_pad ys pt, g_orders := om_pad zs om\<rparr>\<rparr>)"
      using m(1) Some lg(1) pt_apply_event_pad [OF l(2)] om_apply_event_pad [OF l(3)] s(4,5) by (simp add: onMessage_def)
    with lg(2,3) l(1,4) s(6) show ?thesis by (simp add: stands_for_def)
  qed
qed

lemma word_of_small: "n < 4 \<Longrightarrow> k \<le> 4 \<Longrightarrow> (word_of_nat k :: 64 word) = word_of_nat n \<longleftrightarrow> k = n"
  by (auto simp: word_unat_eq_iff unat_of_nat)

lemma gateway_do_light:
  assumes "stands_for ys zs l s" "light_do c l = Some l'"
  shows "\<exists>s'. gateway_do c s = Some s' \<and> stands_for ys zs l' s'"
proof (cases c)
  case (Deliver ts report)
  with assms deliver_stands_for show ?thesis by blast
next
  case (Log_size n)
  with assms word_of_small [of n "length (lt_log l)"] small_log(1) [of "g_log (fx_gateway s)"] show ?thesis
    by (auto simp: stands_for_def log_size_def EXPECT_def split: if_splits)
next
  case (Book symb sd q px oid)
  with assms(2) obtain e om where e: "make_new_order (sv_of symb) sd q px (sv_of oid) = Some e"
      "om_apply_event e (lt_orders l) = Some om" "l' = l\<lparr>lt_orders := om\<rparr>"
    by (auto simp: Option.bind_eq_Some_conv)
  with assms(1) Book om_apply_event_pad [OF e(2), of zs] show ?thesis by (simp add: stands_for_def)
next
  case (No_position symb)
  with assms(2) obtain f where f: "pt_get (lt_tracker l) (sv_of symb) = Some f" by (auto simp: Option.bind_eq_Some_conv)
  with assms No_position pt_get_pad [OF f] show ?thesis
    by (cases f) (auto simp: stands_for_def EXPECT_def ASSERT_def Option.bind_eq_Some_conv)
next
  case (Position_found symb)
  with assms(2) obtain f where f: "pt_get (lt_tracker l) (sv_of symb) = Some f" by (auto simp: Option.bind_eq_Some_conv)
  with assms Position_found pt_get_pad [OF f] show ?thesis
    by (cases f) (auto simp: stands_for_def EXPECT_def ASSERT_def Option.bind_eq_Some_conv)
next
  case (Position_is symb P)
  with assms(2) obtain f where f: "pt_get (lt_tracker l) (sv_of symb) = Some f" by (auto simp: Option.bind_eq_Some_conv)
  with assms Position_is pt_get_pad [OF f] show ?thesis
    by (cases f) (auto simp: stands_for_def EXPECT_def ASSERT_def Option.bind_eq_Some_conv)
next
  case (Order_found symb)
  with assms(2) obtain f where f: "om_get (lt_orders l) (sv_of symb) = Some f" by (auto simp: Option.bind_eq_Some_conv)
  with assms Order_found om_get_pad [OF f] show ?thesis
    by (cases f) (auto simp: stands_for_def EXPECT_def ASSERT_def Option.bind_eq_Some_conv)
next
  case (Order_is symb P)
  with assms(2) obtain od b where f: "om_get (lt_orders l) (sv_of symb) = Some (Some od)" and b: "P od = Some b"
    by (auto simp: Option.bind_eq_Some_conv)
  with assms Order_is om_get_pad [OF f] show ?thesis by (auto simp: stands_for_def EXPECT_def)
qed (use assms in \<open>auto simp: stands_for_def ASSERT_def EXPECT_def read_log_events split: if_splits\<close>)

lemma gateway_run_light:
  "stands_for ys zs l s \<Longrightarrow> foldm light_do cmds l = Some l' \<Longrightarrow> \<exists>s'. foldm gateway_do cmds s = Some s' \<and> stands_for ys zs l' s'"
proof (induction cmds arbitrary: l s)
  case (Cons c cmds)
  then obtain l1 where l1: "light_do c l = Some l1" "foldm light_do cmds l1 = Some l'" by (auto simp: Option.bind_eq_Some_conv)
  from gateway_do_light [OF Cons.prems(1) l1(1)] obtain s1 where s1: "gateway_do c s = Some s1" "stands_for ys zs l1 s1" by blast
  from Cons.IH [OF s1(2) l1(2)] s1(1) show ?case by auto
qed auto

definition light_start :: "counters \<Rightarrow> light" where
  "light_start c = \<lparr>lt_tracker = pt_first 4, lt_orders = om_first 4, lt_log = [], lt_counters = c\<rparr>"

lemma fixture_run:
  assumes "open_ok os" "ftruncate_ok os" "mmap_ok os" and "foldm light_do cmds (light_start c) = Some l"
  obtains s0 s where "SetUp os c = Some s0" "foldm gateway_do cmds s0 = Some s" "fx_counters s = lt_counters l"
    "log_ok (g_log (fx_gateway s))" "log_events (g_log (fx_gateway s)) = lt_log l"
proof -
  have k: "4 \<le> MAX_SYMBOLS" "4 \<le> MAX_ORDERS" by (simp_all add: MAX_SYMBOLS_def MAX_ORDERS_def)
  let ?s0 = "\<lparr>fx_gateway = new_gateway empty_log new_position_tracker new_order_manager (new_risk_checker default_limits), fx_counters = c\<rparr>"
  have s0: "SetUp os c = Some ?s0" by (simp add: SetUp_def open_log_new [OF assms(1-3)])
  have "stands_for (replicate (MAX_SYMBOLS - 4) zero_position) (replicate (MAX_ORDERS - 4) zero_order) (light_start c) ?s0"
    by (simp add: stands_for_def light_start_def new_gateway_def new_position_tracker_pad [OF k(1)] new_order_manager_pad [OF k(2)])
  from gateway_run_light [OF this assms(4)] s0 that show thesis by (auto simp: stands_for_def)
qed

lemma gateway_test_first:
  assumes "open_ok os" "ftruncate_ok os" "mmap_ok os" "map_option lt_counters (foldm light_do cmds (light_start c)) = Some c'"
  shows "gateway_test os cmds c = Some c'"
proof -
  from assms(4) obtain l where l: "foldm light_do cmds (light_start c) = Some l" "lt_counters l = c'" by auto
  from assms(1-3) l(1) obtain s0 s where "SetUp os c = Some s0" "foldm gateway_do cmds s0 = Some s" "fx_counters s = lt_counters l"
    by (rule fixture_run)
  with l(2) show ?thesis by (simp add: gateway_test_def)
qed

text \<open>With the reports translated a run is a list of functions.\<close>

lemma light_deliver: "report_result report = Some m \<Longrightarrow> light_do (Deliver ts report) = light_book ts m"
  by (simp add: fun_eq_iff)

lemma light_run: "foldm light_do cmds l = foldm (\<lambda>c. c) (map light_do cmds) l"
  by (induction cmds arbitrary: l) (simp_all cong: Option.bind_cong)

lemmas light_steps = light_run list.map make_sell_fill_def report_results(1-3) [THEN light_deliver] fill_reports [THEN light_deliver]

lemma gateway_tests_pass:
  assumes "open_ok os" "ftruncate_ok os" "mmap_ok os"
  shows
    "FIXGateway_AckDoesNotUpdatePosition os clk (r, p) = Some (r + 2, p + 2)"
    "FIXGateway_FullFillUpdatesEventLog os clk (r, p) = Some (r + 4, p + 4)"
    "FIXGateway_FullFillUpdatesPositionTracker os clk (r, p) = Some (r + 2, p + 2)"
    "FIXGateway_FullFillUpdatesOrderManager os clk (r, p) = Some (r + 3, p + 3)"
    "FIXGateway_PartialFillLeavesOrderOpen os clk (r, p) = Some (r + 4, p + 4)"
    "FIXGateway_PartialThenFullFill os clk (r, p) = Some (r + 5, p + 5)"
    "FIXGateway_CancelClosesOrder os clk (r, p) = Some (r + 2, p + 2)"
    "FIXGateway_CancelDoesNotMovePosition os clk (r, p) = Some (r + 2, p + 2)"
    "FIXGateway_RejectClosesOrder os clk (r, p) = Some (r + 2, p + 2)"
    "FIXGateway_MultipleSymbolsTrackedIndependently os clk (r, p) = Some (r + 3, p + 3)"
  unfolding FIXGateway_AckDoesNotUpdatePosition_def
    FIXGateway_FullFillUpdatesEventLog_def
    FIXGateway_FullFillUpdatesPositionTracker_def
    FIXGateway_FullFillUpdatesOrderManager_def
    FIXGateway_PartialFillLeavesOrderOpen_def
    FIXGateway_PartialThenFullFill_def
    FIXGateway_CancelClosesOrder_def
    FIXGateway_CancelDoesNotMovePosition_def
    FIXGateway_RejectClosesOrder_def
    FIXGateway_MultipleSymbolsTrackedIndependently_def
  by (rule gateway_test_first [OF assms], simp only: light_steps, code_simp, (simp; fail)?)+

lemma replay_test_pass:
  assumes "open_ok os" "ftruncate_ok os" "mmap_ok os"
  shows "FIXGateway_ReplayReconstructsState os clk (r, p) = Some (r + 2, p + 2)"
proof -
  let ?e0 = "report_event FullFill ''O1'' ''AAPL'' Side_BUY 100 175000000" and ?e1 = "report_event FullFill ''O2'' ''AAPL'' Side_SELL 40 176000000"
  let ?es = "[?e0\<lparr>sequence := 0, timestamp_ns := now_ns (clk 0)\<rparr>, ?e1\<lparr>sequence := 1, timestamp_ns := now_ns (clk 1)\<rparr>]"
  let ?cmds = "[Deliver (clk 0) (make_full_fill ''O1'' ''AAPL'' Side_BUY 100 175.00), Deliver (clk 1) (make_sell_fill ''O2'' ''AAPL'' 40 176.00)]"
  have "map_option (\<lambda>l. (lt_log l, lt_counters l)) (foldm light_do ?cmds (light_start (r, p))) = Some (?es, r, p)"
    by (simp only: light_steps, code_simp)
  then obtain l where l: "foldm light_do ?cmds (light_start (r, p)) = Some l" "lt_log l = ?es" "lt_counters l = (r, p)" by auto
  from assms l(1) obtain s0 s where s: "SetUp os (r, p) = Some s0" "foldm gateway_do ?cmds s0 = Some s" "fx_counters s = lt_counters l"
      "log_ok (g_log (fx_gateway s))" "log_events (g_log (fx_gateway s)) = lt_log l"
    by (rule fixture_run)
  have again: "open_log os (Some (mapped (g_log (fx_gateway s)))) = Some (g_log (fx_gateway s))"
    using open_log_again [OF s(4) assms(1,3)] by (simp add: close_log_def)
  show ?thesis
    unfolding FIXGateway_ReplayReconstructsState_def s(1,2) Option.bind.bind_lunit again pt_replay_foldm [OF s(4)] s(3,5) l(2,3)
    by (rule replay_tests_first(1), simp, code_simp, simp)
qed

section \<open>The property\<close>

definition gateway_test_main :: "session_send \<Rightarrow> string \<Rightarrow> int \<Rightarrow> int \<Rightarrow> os_env \<Rightarrow> (nat \<Rightarrow> timespec) \<Rightarrow> counters option" where
  "gateway_test_main send sid t0 t1 os clk =
     foldm (\<lambda>t. t) (translator_tests @ killswitch_tests send sid t0 t1 @ gateway_tests os clk) (0, 0)"

lemma arm_tests_pass:
  "KillswitchArm_InitiallyDisarmed sid (r, p) = Some (r + 1, p + 1)" "KillswitchArm_ArmSetsFlag sid (r, p) = Some (r + 1, p + 1)"
  by (simp_all add: KillswitchArm_InitiallyDisarmed_def KillswitchArm_ArmSetsFlag_def EXPECT_def is_armed_def new_killswitch_def arm_def)

lemmas gateway_main_pass = fixed_point_pass from_report_pass to_order_pass arm_tests_pass cancel_tests_pass flatten_tests_pass
  execute_tests_pass gateway_tests_pass replay_test_pass

text \<open>C29. The tests of the repository pass on the model: with a file system that can create, map and reopen
  the log files, for every clock of the log, whatever \<open>sendToTarget\<close> returns or throws, and when
  \<open>execute\<close> takes less than five seconds of a clock that does not run backwards, all tests run to their
  end without undefined behaviour; the 76 checks of \<open>test_main\<close> hold and its exit code is 0, and the 81
  expectations of the gateway tests hold.\<close>

theorem all_tests_pass:
  assumes "open_ok os" "ftruncate_ok os" "mmap_ok os" "t0 \<le> t1" "t1 - t0 < 5000000000"
  shows "test_main os clk = Some (76, 76, 0) \<and> gateway_test_main send sid t0 t1 os clk = Some (81, 81)"
proof
  show "test_main os clk = Some (76, 76, 0)" by (rule unit_tests_pass [OF assms(1-3)])
  show "gateway_test_main send sid t0 t1 os clk = Some (81, 81)"
    by (simp add: gateway_test_main_def translator_tests_def killswitch_tests_def gateway_tests_def gateway_main_pass assms)
qed

theorem all_tests_pass_witness:
  "test_main all_calls_succeed (\<lambda>i. \<lparr>tv_sec = int i, tv_nsec = 0\<rparr>) = Some (76, 76, 0) \<and>
   gateway_test_main (\<lambda>s m. Send_SessionNotFound) ''FIX.4.2'' 7 1000007 all_calls_succeed (\<lambda>i. \<lparr>tv_sec = int i, tv_nsec = 0\<rparr>) = Some (81, 81)"
  by (rule all_tests_pass) (simp_all add: all_calls_succeed_def)

end
