(* ===== verification/Bench_Harness.thy ===== *)
theory Bench_Harness
  imports Binary64 "HOL-Library.Multiset" "HOL-Library.Sublist"
begin

text \<open>
  \<open>benchmarks/bench_harness.h\<close>: timing, the statistics and the registry of the benchmarks. The readings of
  the cycle counter and of the clock are parameters, sequences indexed by the number of the reading. A
  benchmark body is a function from the statistics object and the iteration count (\<open>Bench_Cases\<close>). Array
  accesses out of range and conversions that do not fit are \<open>None\<close>; \<open>size_t\<close> arithmetic is on 64-bit words.
\<close>

section \<open>Timing\<close>

text \<open>\<open>rdtsc\<close> puts the two halves of the counter together.\<close>

definition rdtsc :: "32 word \<Rightarrow> 32 word \<Rightarrow> 64 word" where
  "rdtsc hi lo = or (push_bit 32 (ucast hi)) (ucast lo)"

definition d_to_u64 :: "double \<Rightarrow> 64 word option" where
  "d_to_u64 x = (case x of Finite a \<Rightarrow> if 0 \<le> trunc a \<and> trunc a < 2 ^ 64 then Some (word_of_int (trunc a)) else None | _ \<Rightarrow> None)"

text \<open>\<open>g_tsc_ghz\<close> is an argument; the division is by a positive double.\<close>

definition cycles_to_ns :: "rat \<Rightarrow> 64 word \<Rightarrow> 64 word option" where
  "cycles_to_ns tsc_ghz cycles = d_to_u64 (d_div (d_of_int (uint cycles)) tsc_ghz)"

text \<open>The calibration waits until the clock has passed a target ten milliseconds ahead. The loop returns the
  number of the reading that ends it.\<close>

definition wait_target :: "int \<times> int \<Rightarrow> int \<times> int" where
  "wait_target t0 =
     (let n = snd t0 + 10000000 in if n \<ge> 1000000000 then (fst t0 + 1, n - 1000000000) else (fst t0, n))"

definition target_passed :: "int \<times> int \<Rightarrow> int \<times> int \<Rightarrow> bool" where
  "target_passed t1 target \<longleftrightarrow> fst t1 > fst target \<or> fst t1 = fst target \<and> snd t1 \<ge> snd target"

partial_function (option) wait_loop :: "(nat \<Rightarrow> int \<times> int) \<Rightarrow> int \<times> int \<Rightarrow> nat \<Rightarrow> nat option" where
  "wait_loop clk target i = (if target_passed (clk i) target then Some i else wait_loop clk target (Suc i))"

declare wait_loop.simps [code]

definition measure_tsc_ghz :: "(nat \<Rightarrow> int \<times> int) \<Rightarrow> 64 word \<Rightarrow> 64 word \<Rightarrow> double option" where
  "measure_tsc_ghz clk c0 c1 = do {
     let t0 = clk 0;
     i \<leftarrow> wait_loop clk (wait_target t0) 1;
     let t1 = clk i;
     case d_add (d_mul (d_of_int (fst t1 - fst t0)) 1000000000) (d_of_int (snd t1 - snd t0)) of
       Finite v \<Rightarrow> Some (d_div (d_of_int (uint (c1 - c0))) v)
     | _ \<Rightarrow> Some NaN }"

section \<open>Statistics\<close>

record latency_stats =
  samples :: "64 word list"

definition new_stats :: latency_stats where
  "new_stats = \<lparr>samples = []\<rparr>"

definition record_sample :: "64 word \<Rightarrow> latency_stats \<Rightarrow> latency_stats" where
  "record_sample ns st = st\<lparr>samples := samples st @ [ns]\<rparr>"

record stats_line =
  sl_n :: nat
  sl_min :: "64 word"
  sl_avg :: double
  sl_p50 :: "64 word"
  sl_p90 :: "64 word"
  sl_p99 :: "64 word"
  sl_p999 :: "64 word"
  sl_max :: "64 word"

definition percentile_index :: "nat \<Rightarrow> nat \<Rightarrow> nat \<Rightarrow> nat" where
  "percentile_index n a b = unat (word_of_nat n * word_of_nat a div word_of_nat b :: 64 word)"

text \<open>The arguments of the two output lines, \<open>None\<close> inside when there are no samples.\<close>

definition print_stats :: "latency_stats \<Rightarrow> stats_line option option" where
  "print_stats st =
     (if samples st = [] then Some None
      else do {
        let s = sort (samples st);
        let n = length s;
        let avg = d_div (d_of_int (uint (sum_list s))) (of_nat n);
        mn \<leftarrow> at_index s 0;
        p50 \<leftarrow> at_index s (percentile_index n 50 100);
        p90 \<leftarrow> at_index s (percentile_index n 90 100);
        p99 \<leftarrow> at_index s (percentile_index n 99 100);
        p999 \<leftarrow> at_index s (percentile_index n 999 1000);
        mx \<leftarrow> at_index s (n - 1);
        Some (Some \<lparr>sl_n = n, sl_min = mn, sl_avg = avg, sl_p50 = p50, sl_p90 = p90, sl_p99 = p99, sl_p999 = p999, sl_max = mx\<rparr>) })"

section \<open>The registry\<close>

record bench_case =
  bc_group :: string
  bc_name :: string
  bc_iterations :: nat
  bc_fn :: "latency_stats \<Rightarrow> nat \<Rightarrow> latency_stats option"

definition add_case :: "bench_case \<Rightarrow> bench_case list \<Rightarrow> bench_case list" where
  "add_case c cs = cs @ [c]"

text \<open>\<open>BenchAutoRegister\<close>: a benchmark is registered before \<open>main\<close>, in the order of the source.\<close>

definition auto_register :: "string \<Rightarrow> string \<Rightarrow> nat \<Rightarrow> (latency_stats \<Rightarrow> nat \<Rightarrow> latency_stats option) \<Rightarrow> bench_case list \<Rightarrow> bench_case list" where
  "auto_register g n i fn cs = add_case \<lparr>bc_group = g, bc_name = n, bc_iterations = i, bc_fn = fn\<rparr> cs"

text \<open>\<open>RUN\<close>: each iteration reads the counter, runs the body with the index of the iteration, reads the
  counter again and records the time between.\<close>

fun RUN_loop :: "rat \<Rightarrow> (nat \<Rightarrow> 64 word) \<Rightarrow> (nat \<Rightarrow> 's \<Rightarrow> 's option) \<Rightarrow> nat list \<Rightarrow> 's \<Rightarrow> latency_stats \<Rightarrow> ('s \<times> latency_stats) option" where
  "RUN_loop ghz tsc body [] s st = Some (s, st)"
| "RUN_loop ghz tsc body (i # is) s st = do {
     let t0 = tsc (2 * i);
     s' \<leftarrow> body i s;
     ns \<leftarrow> cycles_to_ns ghz (tsc (2 * i + 1) - t0);
     RUN_loop ghz tsc body is s' (record_sample ns st) }"

definition RUN :: "rat \<Rightarrow> (nat \<Rightarrow> 64 word) \<Rightarrow> (nat \<Rightarrow> 's \<Rightarrow> 's option) \<Rightarrow> nat \<Rightarrow> 's \<Rightarrow> latency_stats \<Rightarrow> ('s \<times> latency_stats) option" where
  "RUN ghz tsc body iters s st = RUN_loop ghz tsc body [0..<iters] s st"

datatype bench_output = Group_Header string | Stats_Line string "stats_line option" | No_Match string

definition run_case :: "bench_case \<Rightarrow> string option \<Rightarrow> (string \<times> bench_output list) option" where
  "run_case c cur = do {
     let hd_out = (if cur \<noteq> Some (bc_group c) then [Group_Header (bc_group c)] else []);
     st \<leftarrow> bc_fn c new_stats (bc_iterations c);
     line \<leftarrow> print_stats st;
     Some (bc_group c, hd_out @ [Stats_Line (bc_name c) line]) }"

fun run_all_loop :: "bench_case list \<Rightarrow> string option \<Rightarrow> bench_output list option" where
  "run_all_loop [] cur = Some []"
| "run_all_loop (c # cs) cur = do {
     (cur', out) \<leftarrow> run_case c cur;
     rest \<leftarrow> run_all_loop cs (Some cur');
     Some (out @ rest) }"

definition run_all :: "bench_case list \<Rightarrow> bench_output list option" where
  "run_all cs = run_all_loop cs None"

text \<open>\<open>std::string::find\<close>: the first position at which the pattern occurs.\<close>

fun find_sub :: "string \<Rightarrow> string \<Rightarrow> nat option" where
  "find_sub p [] = (if p = [] then Some 0 else None)"
| "find_sub p (c # cs) = (if prefix p (c # cs) then Some 0 else map_option Suc (find_sub p cs))"

fun run_group_loop :: "string \<Rightarrow> bench_case list \<Rightarrow> string option \<Rightarrow> bool \<Rightarrow> (bench_output list \<times> bool) option" where
  "run_group_loop p [] cur found = Some ([], found)"
| "run_group_loop p (c # cs) cur found =
     (if find_sub p (bc_group c) \<noteq> Some 0 then run_group_loop p cs cur found
      else do {
        (cur', out) \<leftarrow> run_case c cur;
        (rest, f) \<leftarrow> run_group_loop p cs (Some cur') True;
        Some (out @ rest, f) })"

definition run_group :: "string \<Rightarrow> bench_case list \<Rightarrow> bench_output list option" where
  "run_group p cs = do {
     (out, found) \<leftarrow> run_group_loop p cs None False;
     Some (if found then out else out @ [No_Match p]) }"

section \<open>Lemmas\<close>

lemma percentile_index_eq:
  assumes "n \<le> 2 ^ 54" "a \<le> 999" "0 < b" "b \<le> 1000"
  shows "percentile_index n a b = n * a div b"
proof -
  have "n * a \<le> 2 ^ 54 * 999" using assms(1,2) by (intro mult_mono) simp_all
  then have "n * a < 2 ^ 64" by simp
  then have "unat (word_of_nat n * word_of_nat a :: 64 word) = n * a"
    by (simp add: unat_of_nat flip: of_nat_mult)
  moreover have "unat (word_of_nat b :: 64 word) = b" using assms(4) by (simp add: unat_of_nat)
  ultimately show ?thesis by (simp add: percentile_index_def unat_div_distrib)
qed

lemma percentile_below:
  assumes "0 < n" "a < b"
  shows "(n :: nat) * a div b < n"
proof -
  have "n * a < n * b" using assms by simp
  then show ?thesis using assms by (simp add: less_mult_imp_div_less)
qed

lemma find_sub_0: "find_sub p s = Some 0 \<longleftrightarrow> prefix p s"
  by (cases s) auto

text \<open>In a sorted list the element at \<open>i\<close> has at least \<open>i + 1\<close> elements up to it and at least
  \<open>n - i\<close> from it on.\<close>

lemma sorted_rank:
  assumes "sorted s" "i < length s"
  shows "Suc i \<le> length (filter (\<lambda>x. x \<le> s ! i) s)" "length s - i \<le> length (filter (\<lambda>x. s ! i \<le> x) s)"
proof -
  have "filter (\<lambda>x. x \<le> s ! i) (take (Suc i) s) = take (Suc i) s"
    using assms by (auto simp: filter_id_conv in_set_conv_nth sorted_nth_mono)
  then have "length (filter (\<lambda>x. x \<le> s ! i) (take (Suc i) s @ drop (Suc i) s)) \<ge> Suc i"
    using assms(2) unfolding filter_append by simp
  then show "Suc i \<le> length (filter (\<lambda>x. x \<le> s ! i) s)" by simp
  have "filter (\<lambda>x. s ! i \<le> x) (drop i s) = drop i s"
    using assms by (auto simp: filter_id_conv in_set_conv_nth sorted_nth_mono)
  then have "length (filter (\<lambda>x. s ! i \<le> x) (take i s @ drop i s)) \<ge> length s - i"
    unfolding filter_append by simp
  then show "length s - i \<le> length (filter (\<lambda>x. s ! i \<le> x) s)" by simp
qed

lemma length_filter_sort: "length (filter P (sort xs)) = length (filter P xs)"
proof -
  have "mset (filter P (sort xs)) = mset (filter P xs)" by simp
  then show ?thesis by (metis size_mset)
qed

lemma run_group_loop_eq:
  "run_group_loop p cs cur found =
     map_option (\<lambda>out. (out, found \<or> (\<exists>c \<in> set cs. prefix p (bc_group c))))
       (run_all_loop (filter (\<lambda>c. prefix p (bc_group c)) cs) cur)"
proof (induction cs arbitrary: cur found)
  case (Cons c cs)
  show ?case
  proof (cases "prefix p (bc_group c)")
    case False
    then show ?thesis by (simp add: find_sub_0 Cons.IH)
  next
    case True
    have "run_group_loop p (c # cs) cur found = run_case c cur \<bind> (\<lambda>(cur', out).
        run_group_loop p cs (Some cur') True \<bind> (\<lambda>(rest, f). Some (out @ rest, f)))"
      using True by (simp add: find_sub_0)
    also have "\<dots> = run_case c cur \<bind> (\<lambda>(cur', out).
        map_option (\<lambda>rest. (out @ rest, True)) (run_all_loop (filter (\<lambda>c. prefix p (bc_group c)) cs) (Some cur')))"
      unfolding Cons.IH by (rule Option.bind_cong [OF refl]) (simp add: map_option_case split: option.split prod.split)
    also have "\<dots> = map_option (\<lambda>out. (out, True)) (run_all_loop (c # filter (\<lambda>c. prefix p (bc_group c)) cs) cur)"
      by (cases "run_case c cur")
        (auto simp: map_option_case Option.bind_eq_None_conv Option.bind_eq_Some_conv split: option.split Option.bind_split)
    finally show ?thesis using True by simp
  qed
qed simp

text \<open>The wait ends as soon as a reading passes the target, and at the first that does.\<close>

lemma wait_loop_ends:
  assumes "target_passed (clk k) target" "i \<le> k"
  shows "\<exists>j. wait_loop clk target i = Some j \<and> i \<le> j \<and> j \<le> k \<and> target_passed (clk j) target \<and>
    (\<forall>l. i \<le> l \<and> l < j \<longrightarrow> \<not> target_passed (clk l) target)"
  using assms(2)
proof (induction "k - i" arbitrary: i)
  case 0
  then show ?case using assms(1) by (auto simp: wait_loop.simps [of clk target i])
next
  case (Suc m)
  show ?case
  proof (cases "target_passed (clk i) target")
    case True
    then show ?thesis using Suc.prems by (auto simp: wait_loop.simps [of clk target i])
  next
    case False
    have "m = k - Suc i" "Suc i \<le> k" using Suc.hyps(2) by simp_all
    from Suc.hyps(1) [OF this] obtain j where "wait_loop clk target (Suc i) = Some j" "Suc i \<le> j" "j \<le> k"
        "target_passed (clk j) target" "\<forall>l. Suc i \<le> l \<and> l < j \<longrightarrow> \<not> target_passed (clk l) target"
      by blast
    with False show ?thesis
      by (auto simp: wait_loop.simps [of clk target i] intro!: exI [of _ j]) (metis Suc_leI le_neq_implies_less)
  qed
qed

text \<open>At that reading at least ten milliseconds have passed.\<close>

lemma target_passed_elapsed:
  assumes "target_passed t1 (wait_target t0)" "0 \<le> snd t1" "snd t0 < 1000000000"
  shows "10000000 \<le> (fst t1 - fst t0) * 1000000000 + (snd t1 - snd t0)"
proof -
  have "10000000 \<le> (b - a) * 1000000000 + (d - c)" if "b > a \<or> b = a \<and> d \<ge> c + 10000000" "c < 990000000" "0 \<le> d" for a b c d :: int
    using that by auto
  moreover have "10000000 \<le> (b - a) * 1000000000 + (d - c)"
    if "b > a + 1 \<or> b = a + 1 \<and> d \<ge> c + 10000000 - 1000000000" "c < 1000000000" "0 \<le> d" for a b c d :: int
  proof (cases "b = a + 1")
    case False
    with that have "2 \<le> b - a" by auto
    then have "2 * 1000000000 \<le> (b - a) * 1000000000" by simp
    with that show ?thesis by linarith
  qed (use that in auto)
  ultimately show ?thesis using assms unfolding target_passed_def wait_target_def Let_def by (auto split: if_splits)
qed

text \<open>A conversion of up to \<open>2 ^ 63\<close> cycles is defined for frequencies from one gigahertz on.\<close>

lemma rnd_nonneg_bounds:
  assumes "x = 0 \<or> 2 powi (- 1022) \<le> x"
  shows "0 \<le> rnd x" "rnd x \<le> x * (1 + 1 / 2 ^ 53)"
proof -
  have "0 \<le> rnd x \<and> rnd x \<le> x * (1 + 1 / 2 ^ 53)"
  proof (cases "x = 0")
    case True
    then show ?thesis using rnd_of_int [of 0] by simp
  next
    case False
    with assms have x: "2 powi (- 1022) \<le> x" by simp
    have "(0 :: rat) < 2 powi (- 1022)" by simp
    with x have "0 < x" by linarith
    moreover from this have "\<bar>rnd x - x\<bar> \<le> x / 2 ^ 53" using rnd_error [of x] x by simp
    moreover have "x * (1 + 1 / 2 ^ 53) = x + x / 2 ^ 53" by (simp add: distrib_left)
    moreover have "x / 2 ^ 53 \<le> x" using \<open>0 < x\<close> by simp
    ultimately show ?thesis by linarith
  qed
  then show "0 \<le> rnd x" "rnd x \<le> x * (1 + 1 / 2 ^ 53)" by simp_all
qed

lemma rnd_quotient:
  assumes "1 \<le> ghz" "ghz \<le> 1000" "0 \<le> n" "n < 2 ^ 63"
  shows "rnd (of_int n) < 2 ^ 64" "0 \<le> rnd (of_int n)" "rnd (rnd (of_int n) / ghz) < 2 ^ 64" "0 \<le> rnd (rnd (of_int n) / ghz)"
proof -
  define t :: rat where "t = 2 powi (- 1022)"
  have t: "t \<le> 1 / 2000" by (simp add: t_def power_int_minus field_simps)
  note rb = rnd_nonneg_bounds [folded t_def] and re = rnd_error [folded t_def]
  define m :: rat where "m = of_int n"
  have "m < of_int (2 ^ 63)" unfolding m_def using assms(4) by (simp only: of_int_less_iff)
  then have m: "m < 2 ^ 63" by simp
  have "n = 0 \<or> 1 \<le> n" using assms(3) by linarith
  then have int: "m = 0 \<or> 1 \<le> m" by (simp add: m_def)
  define x where "x = rnd m"
  have x: "0 \<le> x" "x \<le> m * (1 + 1 / 2 ^ 53)" using rb [of m] int t unfolding x_def by auto
  have "0 < m * (1 + 1 / 2 ^ 53) \<Longrightarrow> m * (1 + 1 / 2 ^ 53) < 2 ^ 63 * (1 + 1 / 2 ^ 53)"
    using m by (intro mult_strict_right_mono) auto
  with x have xlt: "x < 2 ^ 63 * (1 + 1 / 2 ^ 53)" using m by (cases "m = 0") auto
  have x1: "x = 0 \<or> 1 / 2 \<le> x"
  proof (cases "m = 0")
    case False
    then have "1 \<le> m" using int by simp
    moreover from this have "\<bar>x - m\<bar> \<le> m / 2 ^ 53" using re [of m] t unfolding x_def by simp
    moreover have "m / 2 ^ 53 \<le> m / 2" using \<open>1 \<le> m\<close> by simp
    ultimately show ?thesis by linarith
  qed (use x in auto)
  define q where "q = x / ghz"
  have q: "q = 0 \<or> t \<le> q"
  proof (cases "x = 0")
    case False
    with x1 have "1 / 2000 \<le> x / 1000" by simp
    also have "\<dots> \<le> q" unfolding q_def using assms(1,2) x(1) by (intro divide_left_mono) auto
    finally show ?thesis using t by linarith
  qed (simp add: q_def)
  have "x * 1 \<le> x * ghz" using assms(1) x(1) by (intro mult_left_mono) auto
  then have qle: "q \<le> x" using assms(1) by (simp add: q_def divide_le_eq)
  have r: "0 \<le> rnd q" "rnd q \<le> q * (1 + 1 / 2 ^ 53)" using rb [OF q] by simp_all
  have "rnd q \<le> x * (1 + 1 / 2 ^ 53)" using r(2) mult_right_mono [OF qle, of "1 + 1 / 2 ^ 53"] by simp
  also have "\<dots> < 2 ^ 63 * (1 + 1 / 2 ^ 53) * (1 + 1 / 2 ^ 53)" using xlt by (intro mult_strict_right_mono) auto
  also have "\<dots> < 2 ^ 64" by simp
  finally have lt: "rnd q < 2 ^ 64" .
  have "x < 2 ^ 64" using xlt by simp
  with lt r(1) x(1) show "rnd (of_int n) < 2 ^ 64" "0 \<le> rnd (of_int n)" "rnd (rnd (of_int n) / ghz) < 2 ^ 64"
      "0 \<le> rnd (rnd (of_int n) / ghz)"
    by (simp_all add: q_def x_def m_def)
qed

lemma cycles_to_ns_defined:
  assumes "1 \<le> ghz" "ghz \<le> 1000" "uint c < 2 ^ 63"
  shows "cycles_to_ns ghz c \<noteq> None"
proof -
  define n where "n = uint c"
  note b = rnd_quotient [OF assms(1,2), of n]
  have n: "0 \<le> n" "n < 2 ^ 63" using assms(3) by (simp_all add: n_def)
  have fin: "\<bar>v\<bar> < 2 ^ 1024" if "0 \<le> v" "v < 2 ^ 64" for v :: rat
  proof -
    have "(2 :: rat) ^ 64 < 2 ^ 1024" by simp
    with that show ?thesis by linarith
  qed
  have "round64 (of_int n) = Finite (rnd (of_int n))" "round64 (rnd (of_int n) / ghz) = Finite (rnd (rnd (of_int n) / ghz))"
    using b [OF n] by (auto intro!: round64_rnd fin)
  moreover have "0 \<le> trunc (rnd (rnd (of_int n) / ghz))" "trunc (rnd (rnd (of_int n) / ghz)) < 2 ^ 64"
    using b [OF n] by (simp_all add: trunc_def floor_less_iff)
  ultimately show ?thesis by (simp add: cycles_to_ns_def d_of_int_def d_div_def d_to_u64_def n_def [symmetric])
qed

text \<open>\<open>RUN\<close> with an invariant of the body.\<close>

lemma RUN_invariant:
  assumes "1 \<le> ghz" "ghz \<le> 1000" and tsc: "\<And>i. i < n \<Longrightarrow> uint (tsc (2 * i + 1) - tsc (2 * i)) < 2 ^ 63" and "I 0 s"
    and step: "\<And>i s. I i s \<Longrightarrow> i < n \<Longrightarrow> \<exists>s'. body i s = Some s' \<and> I (Suc i) s'"
  shows "\<exists>s' st'. RUN ghz tsc body n s st = Some (s', st') \<and> I n s' \<and> length (samples st') = length (samples st) + n"
proof -
  have "\<exists>s' st'. RUN_loop ghz tsc body [k..<n] s st = Some (s', st') \<and> I n s' \<and> length (samples st') = length (samples st) + (n - k)"
    if "I k s" "k \<le> n" for k s st
    using that
  proof (induction "n - k" arbitrary: k s st)
    case 0
    then show ?case by simp
  next
    case (Suc m)
    have k: "k < n" "m = n - Suc k" "Suc k \<le> n" using Suc.hyps(2) by simp_all
    obtain s1 where s1: "body k s = Some s1" "I (Suc k) s1" using step [OF Suc.prems(1) k(1)] by blast
    obtain ns where ns: "cycles_to_ns ghz (tsc (2 * k + 1) - tsc (2 * k)) = Some ns"
      using cycles_to_ns_defined [OF assms(1,2) tsc [OF k(1)]] by blast
    from Suc.hyps(1) [OF k(2) s1(2) k(3), of "record_sample ns st"] s1 ns k show ?case
      by (auto simp: upt_conv_Cons record_sample_def)
  qed
  from this [OF assms(4)] show ?thesis by (simp add: RUN_def)
qed

section \<open>Properties\<close>

text \<open>The statistics are order statistics of the samples: for any non-empty run they are read inside the
  sorted array, are samples themselves and ordered from the minimum to the maximum, and at least half of
  the samples lie at or below the median, and 999 in 1000 at or below the last percentile.\<close>

lemma latency_percentiles:
  assumes "samples st \<noteq> []" "length (samples st) \<le> 2 ^ 54"
  shows "\<exists>l. print_stats st = Some (Some l) \<and> sl_n l = length (samples st) \<and>
    {sl_min l, sl_p50 l, sl_p90 l, sl_p99 l, sl_p999 l, sl_max l} \<subseteq> set (samples st) \<and>
    sl_min l \<le> sl_p50 l \<and> sl_p50 l \<le> sl_p90 l \<and> sl_p90 l \<le> sl_p99 l \<and> sl_p99 l \<le> sl_p999 l \<and> sl_p999 l \<le> sl_max l \<and>
    list_all (\<lambda>x. sl_min l \<le> x \<and> x \<le> sl_max l) (samples st) \<and>
    sl_n l < 2 * length (filter (\<lambda>x. x \<le> sl_p50 l) (samples st)) \<and>
    999 * sl_n l < 1000 * length (filter (\<lambda>x. x \<le> sl_p999 l) (samples st))"
proof -
  let ?s = "sort (samples st)" and ?n = "length (samples st)"
  have n: "0 < ?n" using assms(1) by simp
  let ?i = "\<lambda>a b. ?n * a div b"
  have lt: "?i 50 100 < ?n" "?i 90 100 < ?n" "?i 99 100 < ?n" "?i 999 1000 < ?n"
    by (rule percentile_below [OF n]; simp)+
  have ix: "percentile_index ?n 50 100 = ?i 50 100" "percentile_index ?n 90 100 = ?i 90 100"
      "percentile_index ?n 99 100 = ?i 99 100" "percentile_index ?n 999 1000 = ?i 999 1000"
    by (rule percentile_index_eq [OF assms(2)]; simp)+
  have le: "0 \<le> ?i 50 100" "?i 50 100 \<le> ?i 90 100" "?i 90 100 \<le> ?i 99 100" "?i 99 100 \<le> ?i 999 1000" "?i 999 1000 \<le> ?n - 1"
    using lt by linarith+
  have mono: "?s ! i \<le> ?s ! j" if "i \<le> j" "j < ?n" for i j
    using that by (intro sorted_nth_mono) simp_all
  have mem: "?s ! i \<in> set (samples st)" if "i < ?n" for i using nth_mem [of i ?s] that by simp
  have all: "list_all (\<lambda>x. ?s ! 0 \<le> x \<and> x \<le> ?s ! (?n - 1)) (samples st)"
  proof -
    have "?s ! 0 \<le> x \<and> x \<le> ?s ! (?n - 1)" if x: "x \<in> set ?s" for x
    proof -
      obtain j where "j < ?n" "x = ?s ! j" using x unfolding in_set_conv_nth length_sort by blast
      then show ?thesis using mono [of 0 j] mono [of j "?n - 1"] by simp
    qed
    then show ?thesis by (simp add: list_all_iff)
  qed
  have rank: "Suc i \<le> length (filter (\<lambda>x. x \<le> ?s ! i) (samples st))" if "i < ?n" for i
    using sorted_rank(1) [of ?s i] that length_filter_sort [of "\<lambda>x. x \<le> ?s ! i" "samples st"] by simp
  have r: "?n < 2 * length (filter (\<lambda>x. x \<le> ?s ! ?i 50 100) (samples st))"
      "999 * ?n < 1000 * length (filter (\<lambda>x. x \<le> ?s ! ?i 999 1000) (samples st))"
    using rank [OF lt(1)] rank [OF lt(4)] by linarith+
  let ?l = "\<lparr>sl_n = ?n, sl_min = ?s ! 0, sl_avg = d_div (d_of_int (uint (sum_list ?s))) (of_nat ?n),
    sl_p50 = ?s ! ?i 50 100, sl_p90 = ?s ! ?i 90 100, sl_p99 = ?s ! ?i 99 100, sl_p999 = ?s ! ?i 999 1000, sl_max = ?s ! (?n - 1)\<rparr>"
  have "print_stats st = Some (Some ?l)"
    using assms(1) n lt unfolding print_stats_def Let_def length_sort ix by (simp add: at_index_def)
  moreover have "{?s ! 0, ?s ! ?i 50 100, ?s ! ?i 90 100, ?s ! ?i 99 100, ?s ! ?i 999 1000, ?s ! (?n - 1)} \<subseteq> set (samples st)"
    using mem lt n by simp
  moreover have "?s ! 0 \<le> ?s ! ?i 50 100" "?s ! ?i 50 100 \<le> ?s ! ?i 90 100" "?s ! ?i 90 100 \<le> ?s ! ?i 99 100"
      "?s ! ?i 99 100 \<le> ?s ! ?i 999 1000" "?s ! ?i 999 1000 \<le> ?s ! (?n - 1)"
    using mono le lt n by simp_all
  ultimately show ?thesis using all r by (intro exI [of _ ?l]) simp
qed

text \<open>Running a group runs exactly the cases whose group name starts with the given text, in the order
  they were registered and with the same headers and statistics as a full run of these cases; only when
  there are none is the message printed that nothing matches.\<close>

lemma run_group_selects:
  "run_group p cs =
     (if list_ex (\<lambda>c. prefix p (bc_group c)) cs then run_all (filter (\<lambda>c. prefix p (bc_group c)) cs) else Some [No_Match p])"
proof (cases "\<exists>c \<in> set cs. prefix p (bc_group c)")
  case True
  then show ?thesis
    by (cases "run_all_loop (filter (\<lambda>c. prefix p (bc_group c)) cs) None")
      (simp_all add: run_group_def run_group_loop_eq run_all_def list_ex_iff)
next
  case False
  then have "filter (\<lambda>c. prefix p (bc_group c)) cs = []" by (simp add: filter_empty_conv)
  with False show ?thesis by (simp add: run_group_def run_group_loop_eq list_ex_iff)
qed

end
