(* ===== verification/Bench_Cases.thy ===== *)
theory Bench_Cases
  imports Bench_Harness Unit_Tests
begin

text \<open>
  \<open>benchmarks/bench_main.cpp\<close>: the bodies of the benchmarks, as functions of the environment (system calls,
  clock, cycle counter and its frequency), and \<open>main\<close>. Undefined behaviour and exceptions are \<open>None\<close>. The
  optimisation barrier only reads its argument. The log files are removed before and after a benchmark, so a
  body starts without one.
\<close>

section \<open>Environment and events\<close>

record bench_env =
  be_os :: os_env
  be_clock :: "nat \<Rightarrow> timespec"
  be_tsc :: "nat \<Rightarrow> 64 word"
  be_ghz :: rat

definition bench_fp :: "rat \<Rightarrow> int option" where
  "bench_fp p = d_to_i64 (d_mul (round64 p) 1000000)"

definition bench_fill :: "string \<Rightarrow> side \<Rightarrow> int \<Rightarrow> int \<Rightarrow> string \<Rightarrow> bool \<Rightarrow> order_event option" where
  "bench_fill symb sd q px oid partial = make_fill (sv_of symb) sd q px (sv_of oid) (sv_of '''') partial"

definition bench_new :: "string \<Rightarrow> side \<Rightarrow> int \<Rightarrow> int \<Rightarrow> string \<Rightarrow> order_event option" where
  "bench_new symb sd q px oid = make_new_order (sv_of symb) sd q px (sv_of oid)"

text \<open>\<open>_i % 2 == 0 ? Side::Buy : Side::Sell\<close>, and the two formats of order ids: \<open>O%05zu\<close> and \<open>O%d\<close>.\<close>

definition alternate :: "nat \<Rightarrow> side" where
  "alternate i = (if i mod 2 = 0 then Buy else Sell)"

definition oid5 :: "nat \<Rightarrow> string" where
  "oid5 k = ''O'' @ replicate (5 - length (to_dec k)) CHR ''0'' @ to_dec k"

definition oid_d :: "nat \<Rightarrow> string" where
  "oid_d k = ''O'' @ to_dec k"

text \<open>\<open>get("AAPL")->..\<close> and \<open>get(oid)->..\<close>: the pointer is dereferenced.\<close>

definition deref_pos :: "string \<Rightarrow> position_tracker \<Rightarrow> position option" where
  "deref_pos symb t = do { f \<leftarrow> pt_get t (sv_of symb); f }"

definition deref_ord :: "string \<Rightarrow> order_manager \<Rightarrow> order option" where
  "deref_ord oid om = do { f \<leftarrow> om_get om (sv_of oid); f }"

abbreviation timed :: "bench_env \<Rightarrow> (nat \<Rightarrow> 's \<Rightarrow> 's option) \<Rightarrow> nat \<Rightarrow> 's \<Rightarrow> latency_stats \<Rightarrow> ('s \<times> latency_stats) option" where
  "timed E \<equiv> RUN (be_ghz E) (be_tsc E)"

section \<open>The bodies\<close>

definition bench_append :: "bench_env \<Rightarrow> latency_stats \<Rightarrow> nat \<Rightarrow> (event_log \<times> latency_stats) option" where
  "bench_append E st n = do {
     lg \<leftarrow> open_log (be_os E) None;
     px \<leftarrow> bench_fp 175.00;
     warmup \<leftarrow> bench_fill ''AAPL'' Buy 1 px ''W'' False;
     lg1 \<leftarrow> foldm (\<lambda>i lg. map_option fst (append_log (be_clock E i) warmup lg)) [0..<1000] lg;
     evt \<leftarrow> bench_fill ''AAPL'' Buy 100 px ''O'' False;
     timed E (\<lambda>i lg. map_option fst (append_log (be_clock E (1000 + i)) evt lg)) n lg1 st }"

definition bench_buy :: "bench_env \<Rightarrow> latency_stats \<Rightarrow> nat \<Rightarrow> (position_tracker \<times> latency_stats) option" where
  "bench_buy E st n = do {
     px \<leftarrow> bench_fp 175.00;
     w \<leftarrow> bench_fill ''AAPL'' Buy 1 px ''W'' False;
     t \<leftarrow> pt_apply_event w new_position_tracker;
     evt \<leftarrow> bench_fill ''AAPL'' Buy 100 px ''O'' False;
     timed E (\<lambda>i t. do { t' \<leftarrow> pt_apply_event evt t; _ \<leftarrow> deref_pos ''AAPL'' t'; Some t' }) n t st }"

definition bench_alternating :: "bench_env \<Rightarrow> latency_stats \<Rightarrow> nat \<Rightarrow> (position_tracker \<times> latency_stats) option" where
  "bench_alternating E st n = do {
     px \<leftarrow> bench_fp 175.00;
     w \<leftarrow> bench_fill ''AAPL'' Buy 1 px ''W'' False;
     t \<leftarrow> pt_apply_event w new_position_tracker;
     timed E (\<lambda>i t. do {
       px \<leftarrow> bench_fp 175.00;
       evt \<leftarrow> bench_fill ''AAPL'' (alternate i) 100 px ''O'' False;
       t' \<leftarrow> pt_apply_event evt t;
       _ \<leftarrow> deref_pos ''AAPL'' t';
       Some t' }) n t st }"

definition bench_mark :: "bench_env \<Rightarrow> latency_stats \<Rightarrow> nat \<Rightarrow> ((position_tracker \<times> int) \<times> latency_stats) option" where
  "bench_mark E st n = do {
     px \<leftarrow> bench_fp 200.00;
     t \<leftarrow> foldm (\<lambda>s t. do { w \<leftarrow> bench_fill s Buy 1000 px ''W'' False; pt_apply_event w t })
       [''AAPL'', ''TSLA'', ''MSFT'', ''GOOGL'', ''AMZN''] new_position_tracker;
     timed E (\<lambda>i (t, px). do {
       px' \<leftarrow> i64 (px + (if i mod 2 = 0 then 1 else - 1));
       t' \<leftarrow> mark_to_market t (sv_of ''AAPL'') px';
       _ \<leftarrow> deref_pos ''AAPL'' t';
       Some (t', px') }) n (t, px) st }"

definition bench_get :: "bench_env \<Rightarrow> latency_stats \<Rightarrow> nat \<Rightarrow> (position_tracker \<times> latency_stats) option" where
  "bench_get E st n = do {
     px \<leftarrow> bench_fp 175.00;
     w \<leftarrow> bench_fill ''AAPL'' Buy 100 px ''W'' False;
     t \<leftarrow> pt_apply_event w new_position_tracker;
     timed E (\<lambda>i t. do { _ \<leftarrow> pt_get t (sv_of ''AAPL''); Some t }) n t st }"

definition new_order_step :: "nat \<Rightarrow> order_manager \<Rightarrow> order_manager option" where
  "new_order_step i om = do {
     let oid = oid5 (i mod 256);
     px \<leftarrow> bench_fp 175.00;
     evt \<leftarrow> bench_new ''AAPL'' Buy 100 px oid;
     om' \<leftarrow> om_apply_event evt om;
     _ \<leftarrow> om_get om' (sv_of oid);
     Some om' }"

definition bench_new_order :: "bench_env \<Rightarrow> latency_stats \<Rightarrow> nat \<Rightarrow> (order_manager \<times> latency_stats) option" where
  "bench_new_order E st n = timed E new_order_step n new_order_manager st"

definition bench_full_fill :: "bench_env \<Rightarrow> latency_stats \<Rightarrow> nat \<Rightarrow> (order_manager \<times> latency_stats) option" where
  "bench_full_fill E st n = do {
     px \<leftarrow> bench_fp 175.00;
     e \<leftarrow> bench_new ''AAPL'' Buy 100 px ''O1'';
     om \<leftarrow> om_apply_event e new_order_manager;
     fl \<leftarrow> bench_fill ''AAPL'' Buy 100 px ''O1'' False;
     timed E (\<lambda>i om. do {
       px \<leftarrow> bench_fp 175.00;
       e \<leftarrow> bench_new ''AAPL'' Buy 100 px ''O1'';
       om1 \<leftarrow> om_apply_event e om;
       om2 \<leftarrow> om_apply_event fl om1;
       _ \<leftarrow> deref_ord ''O1'' om2;
       Some om2 }) n om st }"

definition bench_partial_fill :: "bench_env \<Rightarrow> latency_stats \<Rightarrow> nat \<Rightarrow> (order_manager \<times> latency_stats) option" where
  "bench_partial_fill E st n = do {
     px \<leftarrow> bench_fp 175.00;
     e \<leftarrow> bench_new ''AAPL'' Buy 10000 px ''O1'';
     om \<leftarrow> om_apply_event e new_order_manager;
     timed E (\<lambda>i om. do {
       px \<leftarrow> bench_fp 175.00;
       price \<leftarrow> i64 (px + int (i mod 100) * 1000);
       partial \<leftarrow> bench_fill ''AAPL'' Buy 10 price ''O1'' True;
       om' \<leftarrow> om_apply_event partial om;
       _ \<leftarrow> deref_ord ''O1'' om';
       Some om' }) n om st }"

definition bench_cancel :: "bench_env \<Rightarrow> latency_stats \<Rightarrow> nat \<Rightarrow> (order_manager \<times> latency_stats) option" where
  "bench_cancel E st n = do {
     i \<leftarrow> strncpy (c_str ''O1'') 8;
     let cancel = zero_event\<lparr>etype := Cancel, order_id := i\<rparr>;
     timed E (\<lambda>i om. do {
       px \<leftarrow> bench_fp 175.00;
       e \<leftarrow> bench_new ''AAPL'' Buy 100 px ''O1'';
       om1 \<leftarrow> om_apply_event e om;
       om2 \<leftarrow> om_apply_event cancel om1;
       _ \<leftarrow> deref_ord ''O1'' om2;
       Some om2 }) n new_order_manager st }"

text \<open>\<open>open_exposure\<close> with ten and with fifty open orders.\<close>

definition bench_exposure :: "nat \<Rightarrow> bench_env \<Rightarrow> latency_stats \<Rightarrow> nat \<Rightarrow> (order_manager \<times> latency_stats) option" where
  "bench_exposure k E st n = do {
     om \<leftarrow> foldm (\<lambda>i om. do {
       px \<leftarrow> bench_fp 175.00;
       e \<leftarrow> bench_new ''AAPL'' Buy 100 px (oid_d i);
       om_apply_event e om }) [0..<k] new_order_manager;
     timed E (\<lambda>i om. do { _ \<leftarrow> open_exposure om (sv_of ''AAPL''); Some om }) n om st }"

definition bench_check_position :: "bench_env \<Rightarrow> latency_stats \<Rightarrow> nat \<Rightarrow> (position_tracker \<times> latency_stats) option" where
  "bench_check_position E st n = do {
     px \<leftarrow> bench_fp 175.00;
     e \<leftarrow> bench_fill ''AAPL'' Buy 20000 px ''F1'' False;
     t \<leftarrow> pt_apply_event e new_position_tracker;
     timed E (\<lambda>i t. do {
       px \<leftarrow> bench_fp 175.00;
       _ \<leftarrow> check_tracker (new_risk_checker default_limits) (sv_of ''AAPL'') Buy 100 px t;
       Some t }) n t st }"

text \<open>The full check, with a filled and a pending quantity: the passing and the failing case.\<close>

definition bench_check_full :: "int \<Rightarrow> int \<Rightarrow> bench_env \<Rightarrow> latency_stats \<Rightarrow> nat \<Rightarrow> ((position_tracker \<times> order_manager) \<times> latency_stats) option" where
  "bench_check_full filled pending E st n = do {
     px \<leftarrow> bench_fp 175.00;
     e \<leftarrow> bench_fill ''AAPL'' Buy filled px ''F1'' False;
     t \<leftarrow> pt_apply_event e new_position_tracker;
     o1 \<leftarrow> bench_new ''AAPL'' Buy pending px ''O1'';
     om \<leftarrow> om_apply_event o1 new_order_manager;
     timed E (\<lambda>i (t, om). do {
       px \<leftarrow> bench_fp 175.00;
       _ \<leftarrow> check_full (new_risk_checker default_limits) (sv_of ''AAPL'') Buy 100 px t om;
       Some (t, om) }) n (t, om) st }"

definition bench_check_qty :: "bench_env \<Rightarrow> latency_stats \<Rightarrow> nat \<Rightarrow> ((position_tracker \<times> order_manager) \<times> latency_stats) option" where
  "bench_check_qty E st n =
     timed E (\<lambda>i (t, om). do {
       px \<leftarrow> bench_fp 175.00;
       _ \<leftarrow> check_full (new_risk_checker default_limits) (sv_of ''AAPL'') Buy 50000 px t om;
       Some (t, om) }) n (new_position_tracker, new_order_manager) st"

text \<open>The full hot path: the shared setup, the three bookkeeping calls, and the two benchmarks.\<close>

type_synonym book_keeping = "event_log \<times> position_tracker \<times> order_manager"

definition book_event :: "timespec \<Rightarrow> order_event \<Rightarrow> book_keeping \<Rightarrow> book_keeping option" where
  "book_event ts e b = (case b of (lg, t, om) \<Rightarrow> do {
     (lg', _) \<leftarrow> append_log ts e lg;
     t' \<leftarrow> pt_apply_event e t;
     om' \<leftarrow> om_apply_event e om;
     Some (lg', t', om') })"

definition hot_setup :: "bench_env \<Rightarrow> book_keeping option" where
  "hot_setup E = do {
     lg \<leftarrow> open_log (be_os E) None;
     px \<leftarrow> bench_fp 175.00;
     w \<leftarrow> bench_fill ''AAPL'' Buy 1 px ''W'' False;
     book_event (be_clock E 0) w (lg, new_position_tracker, new_order_manager) }"

definition hot_step :: "bench_env \<Rightarrow> nat \<Rightarrow> book_keeping \<Rightarrow> book_keeping option" where
  "hot_step E i b = do {
     px \<leftarrow> bench_fp 175.00;
     evt \<leftarrow> bench_fill ''AAPL'' (alternate i) 100 px ''O'' False;
     b' \<leftarrow> book_event (be_clock E (1 + i)) evt b;
     _ \<leftarrow> deref_pos ''AAPL'' (fst (snd b'));
     Some b' }"

definition bench_hot :: "bench_env \<Rightarrow> latency_stats \<Rightarrow> nat \<Rightarrow> (book_keeping \<times> latency_stats) option" where
  "bench_hot E st n = do { b \<leftarrow> hot_setup E; timed E (hot_step E) n b st }"

definition hot_risk_step :: "bench_env \<Rightarrow> nat \<Rightarrow> book_keeping \<Rightarrow> book_keeping option" where
  "hot_risk_step E i b = (case b of (lg, t, om) \<Rightarrow> do {
     px \<leftarrow> bench_fp 175.00;
     result \<leftarrow> check_full (new_risk_checker default_limits) (sv_of ''AAPL'') (alternate i) 100 px t om;
     if result = Pass then do {
       evt \<leftarrow> bench_fill ''AAPL'' (alternate i) 100 px ''O'' False;
       book_event (be_clock E (1 + i)) evt b }
     else Some b })"

definition bench_hot_risk :: "bench_env \<Rightarrow> latency_stats \<Rightarrow> nat \<Rightarrow> (book_keeping \<times> latency_stats) option" where
  "bench_hot_risk E st n = do { b \<leftarrow> hot_setup E; timed E (hot_risk_step E) n b st }"

section \<open>Registration and main\<close>

text \<open>A registered function keeps the statistics; the objects of the body die with it.\<close>

definition body :: "(latency_stats \<Rightarrow> nat \<Rightarrow> ('s \<times> latency_stats) option) \<Rightarrow> latency_stats \<Rightarrow> nat \<Rightarrow> latency_stats option" where
  "body b st n = map_option snd (b st n)"

definition bench_cases :: "bench_env \<Rightarrow> bench_case list" where
  "bench_cases E = fold (\<lambda>(g, m, fn). auto_register g m 100000 fn)
     [(''EventLog'', ''append() - mmap write'', body (bench_append E)),
      (''PositionTracker'', ''apply_event() buy - warm cache'', body (bench_buy E)),
      (''PositionTracker'', ''apply_event() alternating buy/sell'', body (bench_alternating E)),
      (''PositionTracker'', ''mark_to_market() single symbol'', body (bench_mark E)),
      (''PositionTracker'', ''get() - symbol lookup hit'', body (bench_get E)),
      (''OrderManager'', ''apply_event() NewOrder'', body (bench_new_order E)),
      (''OrderManager'', ''apply_event() FullFill - existing order'', body (bench_full_fill E)),
      (''OrderManager'', ''apply_event() PartialFill - avg price update'', body (bench_partial_fill E)),
      (''OrderManager'', ''apply_event() Cancel'', body (bench_cancel E)),
      (''OrderManager'', ''open_exposure() - 10 open orders'', body (bench_exposure 10 E)),
      (''OrderManager'', ''open_exposure() - 50 open orders'', body (bench_exposure 50 E)),
      (''RiskChecker'', ''check() pass - position-only (legacy)'', body (bench_check_position E)),
      (''RiskChecker'', ''check() pass - full (tracker + orders)'', body (bench_check_full 20000 5000 E)),
      (''RiskChecker'', ''check() FailPositionLimit - full'', body (bench_check_full 40000 15000 E)),
      (''RiskChecker'', ''check() FailMaxQty - early exit'', body (bench_check_qty E)),
      (''FullHotPath'', ''append + apply_event x2 (no risk)'', body (bench_hot E)),
      (''FullHotPath'', ''risk check + append + apply_event x2'', body (bench_hot_risk E))] []"

text \<open>The replay benchmark: the numbers it prints, between four readings of the counter.\<close>

record replay_report =
  rr_events :: nat
  rr_pos_ms :: "64 word"
  rr_pos_per_event :: "64 word"
  rr_ord_ms :: "64 word"
  rr_ord_per_event :: "64 word"

definition run_replay_bench :: "bench_env \<Rightarrow> 64 word \<Rightarrow> 64 word \<Rightarrow> 64 word \<Rightarrow> 64 word \<Rightarrow> nat \<Rightarrow> replay_report option" where
  "run_replay_bench E t0 t1 t2 t3 event_count = do {
     lg0 \<leftarrow> open_log (be_os E) None;
     lg1 \<leftarrow> foldm (\<lambda>i lg. do {
       px \<leftarrow> bench_fp 175.00;
       evt \<leftarrow> bench_fill ''AAPL'' (alternate i) 100 px ''O'' False;
       map_option fst (append_log (be_clock E i) evt lg) }) [0..<event_count] lg0;
     lg \<leftarrow> open_log (be_os E) (Some (close_log lg1));
     _ \<leftarrow> pt_replay_from lg new_position_tracker;
     _ \<leftarrow> om_replay_from lg new_order_manager;
     pos_ns \<leftarrow> cycles_to_ns (be_ghz E) (t1 - t0);
     ord_ns \<leftarrow> cycles_to_ns (be_ghz E) (t3 - t2);
     if word_of_nat event_count = (0 :: 64 word) then None
     else Some \<lparr>rr_events = event_count, rr_pos_ms = pos_ns div 1000000, rr_pos_per_event = pos_ns div word_of_nat event_count,
       rr_ord_ms = ord_ns div 1000000, rr_ord_per_event = ord_ns div word_of_nat event_count\<rparr> }"

text \<open>\<open>main\<close> after the calibration: one group or everything. The text around the numbers is left out.\<close>

definition bench_main :: "bench_env \<Rightarrow> string option \<Rightarrow> 64 word \<times> 64 word \<times> 64 word \<times> 64 word \<Rightarrow> (bench_output list \<times> replay_report option) option" where
  "bench_main E arg r = (case arg of
       Some g \<Rightarrow> do { out \<leftarrow> run_group g (bench_cases E); Some (out, None) }
     | None \<Rightarrow> do {
         out \<leftarrow> run_all (bench_cases E);
         rep \<leftarrow> (case r of (t0, t1, t2, t3) \<Rightarrow> run_replay_bench E t0 t1 t2 t3 100000);
         Some (out, Some rep) })"

section \<open>Events and tables of the benchmarks\<close>

lemma bench_fp_values: "bench_fp 175.00 = Some 175000000" "bench_fp 200.00 = Some 200000000"
proof -
  have "bench_fp = fp" by (simp add: fun_eq_iff bench_fp_def fp_def PRICE_SCALE_def)
  then show "bench_fp 175.00 = Some 175000000" "bench_fp 200.00 = Some 200000000" using fp_values by auto
qed

lemma cstr_name: "NUL \<notin> set s \<Longrightarrow> length s \<le> 8 \<Longrightarrow> cstr 8 (c_str s) = s"
  by (simp add: cstr_c_str)

lemma bench_fill_obtain:
  assumes "int32 q" "int64 px" "NUL \<notin> set oid" "length oid \<le> 8" "NUL \<notin> set symb" "length symb \<le> 8"
  obtains e where "bench_fill symb sd q px oid partial = Some e" "event_ok e" "is_fill e" "side e = sd" "fill_qty e = q"
    "fill_price e = px" "sequence e = 0" "event_symbol e = symb" "event_oid e = oid" "etype e \<noteq> NewOrder"
proof -
  obtain e where e: "bench_fill symb sd q px oid partial = Some e"
    using make_fill_eq [of "sv_of symb" "sv_of oid"] by (simp add: bench_fill_def sv_of_def)
  note f = make_fill_fields [OF e [unfolded bench_fill_def]]
  have "sequence e = 0"
    using e make_fill_eq [of "sv_of symb" "sv_of oid"] by (auto simp: bench_fill_def sv_of_def zero_event_def)
  moreover have "etype e \<noteq> NewOrder" using f(1) by (auto simp: is_fill_def)
  ultimately show thesis using e f(1,2,4,5,7,8) f(9) [OF assms(2,1)] assms(3-6) that by (simp add: cstr_name sv_of_def)
qed

text \<open>A position bought and sold at one price only.\<close>

definition flat_price :: "int \<Rightarrow> int \<Rightarrow> int \<Rightarrow> position" where
  "flat_price px b s = (fresh_position ''AAPL'')\<lparr>net_qty := b - s, avg_entry_price := px, total_buy_qty := b, total_sell_qty := s\<rparr>"

lemma flat_price_fields [simp]:
  "net_qty (flat_price px b s) = b - s" "avg_entry_price (flat_price px b s) = px" "realized_pnl (flat_price px b s) = 0"
  by (simp_all add: flat_price_def fresh_position_def zero_position_def)

lemma same_price_average: "0 < n + q \<Longrightarrow> (px * n + px * q) sdiv (n + q) = (px :: int)"
proof -
  assume "0 < n + q"
  then have "px * n + px * q = px * (n + q)" "n + q \<noteq> 0" by (simp_all add: distrib_left)
  then show ?thesis using \<open>0 < n + q\<close> by (simp add: signed_divide_int_def abs_mult sgn_mult mult_sgn_abs)
qed

lemma flat_price_buy:
  assumes "0 \<le> s" "s < b" "b + q \<le> 20000000" "0 < q"
    and "side e = Buy" "fill_qty e = q" "fill_price e = 175000000" "sequence e = 0"
  shows "fill_position e (flat_price 175000000 b s) = Some (flat_price 175000000 (b + q) s)"
proof -
  have a: "(175000000 * (b - s) + 175000000 * q) sdiv (b - s + q) = 175000000"
    by (rule same_price_average) (use assms in linarith)
  show ?thesis
    using assms a
    by (simp add: fill_position_def apply_buy_def flat_price_def fresh_position_def zero_position_def refresh_unrealized_def
        i64_def i32_def int64_def int32_def u64_to_i64_def Let_def)
qed

lemma flat_price_sell:
  assumes "0 \<le> s" "0 < q" "s + q < b" "b \<le> 20000000"
    and "side e = Sell" "fill_qty e = q" "fill_price e = 175000000" "sequence e = 0"
  shows "fill_position e (flat_price 175000000 b s) = Some (flat_price 175000000 b (s + q))"
  using assms
  by (simp add: fill_position_def apply_sell_def flat_price_def fresh_position_def zero_position_def refresh_unrealized_def
      i64_def i32_def int64_def int32_def u64_to_i64_def Let_def)

lemma flat_price_first:
  assumes "0 < q" "q \<le> 20000000" "side e = Buy" "fill_qty e = q" "fill_price e = 175000000" "sequence e = 0"
  shows "fill_position e (fresh_position ''AAPL'') = Some (flat_price 175000000 q 0)"
proof -
  have a: "(175000000 * 0 + 175000000 * q) sdiv (0 + q) = 175000000" by (rule same_price_average) (use assms in linarith)
  show ?thesis
    using assms a
    by (simp add: fill_position_def apply_buy_def flat_price_def fresh_position_def zero_position_def refresh_unrealized_def
        i64_def i32_def int64_def int32_def u64_to_i64_def Let_def)
qed

text \<open>A table with one symbol.\<close>

definition one_symbol :: "position_tracker \<Rightarrow> position \<Rightarrow> bool" where
  "one_symbol t p \<longleftrightarrow> pt_ok t \<and> pt_map t = [''AAPL'' \<mapsto> p]"

lemma one_symbol_step:
  assumes "one_symbol t p" "event_ok e" "is_fill e" "event_symbol e = ''AAPL''" "fill_position e p = Some p'"
  obtains t' where "pt_apply_event e t = Some t'" "one_symbol t' p'"
proof -
  have "pt_spec e (pt_map t) = Some [''AAPL'' \<mapsto> p']"
    using assms by (simp add: one_symbol_def pt_spec_def position_or_fresh_def)
  then obtain t' where "pt_apply_event e t = Some t'" "pt_ok t'" "pt_map t' = [''AAPL'' \<mapsto> p']"
    using assms(1) by (auto simp: one_symbol_def intro: pt_apply_event_obtain [OF _ assms(2)])
  with that show thesis by (simp add: one_symbol_def)
qed

lemma one_symbol_first:
  assumes "event_ok e" "is_fill e" "event_symbol e = ''AAPL''" "fill_position e (fresh_position ''AAPL'') = Some p"
  obtains t where "pt_apply_event e new_position_tracker = Some t" "one_symbol t p"
proof -
  have "pt_spec e (pt_map new_position_tracker) = Some [''AAPL'' \<mapsto> p]"
    using assms by (simp add: pt_spec_def position_or_fresh_def MAX_SYMBOLS_def)
  then obtain t where "pt_apply_event e new_position_tracker = Some t" "pt_ok t" "pt_map t = [''AAPL'' \<mapsto> p]"
    by (rule pt_apply_event_obtain [OF pt_ok_new(1) assms(1)])
  with that show thesis by (simp add: one_symbol_def)
qed

lemma one_symbol_get: "one_symbol t p \<Longrightarrow> pt_get t (sv_of ''AAPL'') = Some (Some p)"
  using pt_get_map [of t "sv_of ''AAPL''"] cstr_name [of "''AAPL''"] by (simp add: one_symbol_def NUL_def sv_of_def)

lemma deref_one_symbol: "one_symbol t p \<Longrightarrow> deref_pos ''AAPL'' t = Some p"
  by (simp add: deref_pos_def one_symbol_get)

lemma no_order_fill: "is_fill e \<Longrightarrow> om_apply_event e new_order_manager = Some new_order_manager"
  by (auto simp: is_fill_def om_apply_event_def handle_fill_def om_with_order_def om_find_def om_find_loop.simps [of _ _ 0]
      new_order_manager_def)

section \<open>The full hot path\<close>

definition bench_ok :: "bench_env \<Rightarrow> nat \<Rightarrow> bool" where
  "bench_ok E n \<longleftrightarrow> open_ok (be_os E) \<and> ftruncate_ok (be_os E) \<and> mmap_ok (be_os E) \<and> 1 \<le> be_ghz E \<and> be_ghz E \<le> 1000 \<and>
     list_all (\<lambda>i. uint (be_tsc E (2 * i + 1) - be_tsc E (2 * i)) < 2 ^ 63) [0..<n]"

lemma timed_invariant:
  assumes "bench_ok E n" "I 0 s" "\<And>i s. I i s \<Longrightarrow> i < n \<Longrightarrow> \<exists>s'. f i s = Some s' \<and> I (Suc i) s'"
  shows "\<exists>s' st'. timed E f n s st = Some (s', st') \<and> I n s' \<and> length (samples st') = length (samples st) + n"
  by (rule RUN_invariant) (use assms in \<open>auto simp: bench_ok_def list_all_iff\<close>)

text \<open>The books after \<open>i\<close> iterations.\<close>

definition hot_books :: "nat \<Rightarrow> book_keeping \<Rightarrow> bool" where
  "hot_books i b \<longleftrightarrow> (case b of (lg, t, om) \<Rightarrow> log_ok lg \<and> length (log_events lg) = Suc i \<and> om = new_order_manager \<and>
     one_symbol t (flat_price 175000000 (1 + 100 * int (Suc i div 2)) (100 * int (i div 2))))"

lemma append_log_defined:
  assumes "log_ok lg" "length (log_events lg) < MAX_EVENTS"
  obtains lg' sq where "append_log ts e lg = Some (lg', sq)" "log_ok lg'" "length (log_events lg') = Suc (length (log_events lg))"
proof -
  have "unat (next_seq lg) < MAX_EVENTS" using assms(2) by (simp add: length_log_events)
  then obtain lg' where "append_log ts e lg = Some (lg', next_seq lg)" "log_ok lg'"
      "log_events lg' = log_events lg @ [e\<lparr>sequence := next_seq lg, timestamp_ns := now_ns ts\<rparr>]"
    using append_log_step [OF assms(1)] by metis
  with that show thesis by simp
qed

lemma hot_setup_books:
  assumes "bench_ok E n"
  obtains b where "hot_setup E = Some b" "hot_books 0 b"
proof -
  obtain w where w: "bench_fill ''AAPL'' Buy 1 175000000 ''W'' False = Some w" "event_ok w" "is_fill w" "side w = Buy"
      "fill_qty w = 1" "fill_price w = 175000000" "sequence w = 0" "event_symbol w = ''AAPL''"
    by (rule bench_fill_obtain [of 1 175000000 "''W''" "''AAPL''" Buy False]) (simp_all add: int32_def int64_def NUL_def)
  obtain t where t: "pt_apply_event w new_position_tracker = Some t" "one_symbol t (flat_price 175000000 1 0)"
    by (rule one_symbol_first [OF w(2,3,8) flat_price_first]) (simp_all add: w)
  obtain lg sq where lg: "append_log (be_clock E 0) w empty_log = Some (lg, sq)" "log_ok lg" "length (log_events lg) = 1"
    by (rule append_log_defined [of empty_log "be_clock E 0" w]) (simp_all add: MAX_EVENTS_def)
  have "open_log (be_os E) None = Some empty_log" using assms by (simp add: bench_ok_def open_log_new)
  then have "hot_setup E = Some (lg, t, new_order_manager)"
    unfolding hot_setup_def bench_fp_values by (simp add: w(1) book_event_def lg(1) t(1) no_order_fill [OF w(3)])
  with that lg t show thesis by (simp add: hot_books_def)
qed

lemma book_hot_fill:
  assumes "hot_books i b" "i < 100000"
  obtains e b' where "bench_fill ''AAPL'' (alternate i) 100 175000000 ''O'' False = Some e" "book_event ts e b = Some b'"
    "hot_books (Suc i) b'"
proof -
  obtain lg t where b: "b = (lg, t, new_order_manager)" "log_ok lg" "length (log_events lg) = Suc i"
      "one_symbol t (flat_price 175000000 (1 + 100 * int (Suc i div 2)) (100 * int (i div 2)))"
    using assms(1) by (auto simp: hot_books_def)
  obtain e where e: "bench_fill ''AAPL'' (alternate i) 100 175000000 ''O'' False = Some e" "event_ok e" "is_fill e"
      "side e = alternate i" "fill_qty e = 100" "fill_price e = 175000000" "sequence e = 0" "event_symbol e = ''AAPL''"
    by (rule bench_fill_obtain [of 100 175000000 "''O''" "''AAPL''" "alternate i" False]) (simp_all add: int32_def int64_def NUL_def)
  have p: "fill_position e (flat_price 175000000 (1 + 100 * int (Suc i div 2)) (100 * int (i div 2))) =
      Some (flat_price 175000000 (1 + 100 * int (Suc (Suc i) div 2)) (100 * int (Suc i div 2)))"
  proof (cases "even i")
    case True
    then have d: "Suc i div 2 = i div 2" "Suc (Suc i) div 2 = Suc (i div 2)" "alternate i = Buy" by (auto simp: alternate_def)
    have "fill_position e (flat_price 175000000 (1 + 100 * int (i div 2)) (100 * int (i div 2))) =
        Some (flat_price 175000000 (1 + 100 * int (i div 2) + 100) (100 * int (i div 2)))"
      by (rule flat_price_buy) (use e d assms(2) in auto)
    with d show ?thesis by (simp add: algebra_simps)
  next
    case False
    then have d: "Suc i div 2 = Suc (i div 2)" "Suc (Suc i) div 2 = Suc (i div 2)" "alternate i = Sell"
      by (auto simp: alternate_def odd_iff_mod_2_eq_one elim!: oddE)
    have "fill_position e (flat_price 175000000 (1 + 100 * int (Suc (i div 2))) (100 * int (i div 2))) =
        Some (flat_price 175000000 (1 + 100 * int (Suc (i div 2))) (100 * int (i div 2) + 100))"
      by (rule flat_price_sell) (use e d assms(2) in auto)
    with d show ?thesis by (simp add: algebra_simps)
  qed
  obtain t' where t': "pt_apply_event e t = Some t'"
      "one_symbol t' (flat_price 175000000 (1 + 100 * int (Suc (Suc i) div 2)) (100 * int (Suc i div 2)))"
    by (rule one_symbol_step [OF b(4) e(2,3,8) p])
  obtain lg' sq where lg: "append_log ts e lg = Some (lg', sq)" "log_ok lg'" "length (log_events lg') = Suc (Suc i)"
    by (rule append_log_defined [OF b(2), of ts e]) (use assms(2) b(3) in \<open>simp_all add: MAX_EVENTS_def\<close>)
  have "book_event ts e b = Some (lg', t', new_order_manager)"
    by (simp add: b(1) book_event_def lg(1) t'(1) no_order_fill [OF e(3)])
  with e(1) that lg t' show thesis by (simp add: hot_books_def)
qed

lemma hot_step_books:
  assumes "hot_books i b" "i < 100000"
  shows "\<exists>b'. hot_step E i b = Some b' \<and> hot_books (Suc i) b'"
proof -
  obtain e b' where e: "bench_fill ''AAPL'' (alternate i) 100 175000000 ''O'' False = Some e"
      "book_event (be_clock E (1 + i)) e b = Some b'" "hot_books (Suc i) b'"
    by (rule book_hot_fill [OF assms])
  moreover from this obtain p where "deref_pos ''AAPL'' (fst (snd b')) = Some p"
    using deref_one_symbol by (fastforce simp: hot_books_def)
  ultimately show ?thesis unfolding hot_step_def bench_fp_values by simp
qed

lemma hot_check_passes:
  assumes "hot_books i (lg, t, om)"
  shows "check_full (new_risk_checker default_limits) (sv_of ''AAPL'') (alternate i) 100 175000000 t om = Some Pass"
proof -
  have t: "pt_get t (sv_of ''AAPL'') = Some (Some (flat_price 175000000 (1 + 100 * int (Suc i div 2)) (100 * int (i div 2))))"
    and om: "open_exposure om (sv_of ''AAPL'') = Some 0"
    using assms one_symbol_get by (auto simp: hot_books_def open_exposure_def new_order_manager_def)
  have n: "1 + 100 * int (Suc i div 2) - 100 * int (i div 2) = (if even i then 1 else 101)"
    by (auto elim!: evenE oddE)
  show ?thesis
    by (cases "even i") (simp_all add: check_full_def t om n new_risk_checker_def default_limits_def PRICE_SCALE_def alternate_def
        order_delta_def outside_limit_def loss_check_def i64_def i32_def int64_def int32_def odd_iff_mod_2_eq_one even_iff_mod_2_eq_zero)
qed

lemma hot_risk_step_books:
  assumes "hot_books i b" "i < 100000"
  shows "\<exists>b'. hot_risk_step E i b = Some b' \<and> hot_books (Suc i) b'"
proof -
  obtain lg t om where b: "b = (lg, t, om)" by (cases b)
  obtain e b' where "bench_fill ''AAPL'' (alternate i) 100 175000000 ''O'' False = Some e"
      "book_event (be_clock E (1 + i)) e b = Some b'" "hot_books (Suc i) b'"
    by (rule book_hot_fill [OF assms])
  with hot_check_passes [OF assms(1) [unfolded b]] show ?thesis
    unfolding hot_risk_step_def bench_fp_values by (simp add: b)
qed

section \<open>New orders\<close>

text \<open>The ids are read back as numbers.\<close>

definition decimal :: "string \<Rightarrow> nat" where
  "decimal s = foldl (\<lambda>n c. 10 * n + (of_char c - 48)) 0 s"

lemma decimal_to_dec: "decimal (to_dec n) = n"
proof (induction n rule: to_dec.induct)
  case (1 n)
  then show ?case by (subst to_dec.simps) (auto simp: decimal_def digit_char_def)
qed

lemma decimal_zeros: "decimal (replicate m CHR ''0'' @ s) = decimal s"
  by (induction m) (simp_all add: decimal_def)

lemma oid5_id:
  assumes "k < 256"
  shows "decimal (tl (oid5 k)) = k" "length (oid5 k) \<le> 8" "NUL \<notin> set (oid5 k)"
proof -
  have "length (to_dec k) \<le> 3" using assms by (intro length_to_dec) auto
  then show "length (oid5 k) \<le> 8" by (simp add: oid5_def)
  show "decimal (tl (oid5 k)) = k" by (simp add: oid5_def decimal_zeros decimal_to_dec)
  show "NUL \<notin> set (oid5 k)" using to_dec_no_NUL [of k] by (auto simp: oid5_def NUL_def)
qed

lemma oid5_inj: "inj_on oid5 {..<256}"
  by (rule inj_onI) (metis lessThan_iff oid5_id(1))

definition rotated :: "nat \<Rightarrow> order_manager \<Rightarrow> bool" where
  "rotated i om \<longleftrightarrow> om_ok om \<and> dom (om_map om) = oid5 ` {..<min i 256}"

lemma card_ids: "card (oid5 ` {..<min i 256}) = min i 256"
proof -
  have "inj_on oid5 {..<min i 256}" by (rule inj_on_subset [OF oid5_inj]) auto
  then show ?thesis by (simp add: card_image)
qed

lemma new_order_step_rotated:
  assumes "rotated i om"
  shows "\<exists>om'. new_order_step i om = Some om' \<and> rotated (Suc i) om'"
proof -
  let ?k = "i mod 256"
  have k: "?k < 256" by simp
  note id = oid5_id [OF k]
  obtain e where e: "bench_new ''AAPL'' Buy 100 175000000 (oid5 ?k) = Some e"
    using make_new_order_eq [of "sv_of ''AAPL''" "sv_of (oid5 ?k)"] by (simp add: bench_new_def sv_of_def)
  note f = make_new_order_fields [OF e [unfolded bench_new_def]]
  have ev: "event_ok e" "event_oid e = oid5 ?k"
    using f(9,10) cstr_name [OF id(3,2)] by (simp_all add: int64_def int32_def sv_of_def)
  have ok: "om_ok om" "dom (om_map om) = oid5 ` {..<min i 256}" using assms by (simp_all add: rotated_def)
  have "card (dom (om_map om)) < MAX_ORDERS" unfolding ok(2) card_ids by (simp add: MAX_ORDERS_def)
  then have "om_spec e (om_map om) = Some ((om_map om)(oid5 ?k \<mapsto> opened_order e))"
    using f(1) ev(2) by (simp add: om_spec_def)
  then obtain om' where om': "om_apply_event e om = Some om'" "om_ok om'" "om_map om' = (om_map om)(oid5 ?k \<mapsto> opened_order e)"
    by (rule om_apply_event_obtain [OF ok(1) ev(1)])
  have "insert (oid5 ?k) (oid5 ` {..<min i 256}) = oid5 ` {..<min (Suc i) 256}"
  proof (cases "i < 256")
    case True
    then show ?thesis by (simp add: lessThan_Suc)
  next
    case False
    then show ?thesis using k by auto
  qed
  then have "rotated (Suc i) om'" using om'(2,3) ok(2) by (simp add: rotated_def)
  moreover have "om_get om' (sv_of (oid5 ?k)) \<noteq> None" using om_get_map [OF om'(2), of "sv_of (oid5 ?k)"] by (simp add: sv_of_def)
  ultimately show ?thesis
    unfolding new_order_step_def bench_fp_values by (auto simp: e om'(1))
qed

text \<open>The benchmark of new orders creates 256 orders and then overwrites them: the order ids repeat, and
  every later iteration finds an existing order.\<close>

lemma new_order_benchmark:
  assumes "bench_ok E n"
  shows "\<exists>om st'. bench_new_order E st n = Some (om, st') \<and> order_count om = min n 256 \<and>
    length (samples st') = length (samples st) + n"
proof -
  have "rotated 0 new_order_manager" by (simp add: rotated_def om_ok_new)
  then obtain om st' where r: "bench_new_order E st n = Some (om, st')" "rotated n om" "length (samples st') = length (samples st) + n"
    unfolding bench_new_order_def using timed_invariant [OF assms, of rotated] new_order_step_rotated by blast
  then have "order_count om = card (dom (om_map om))" using om_okD(5) [of om] by (simp add: rotated_def order_count_def)
  with r show ?thesis by (simp add: rotated_def card_ids)
qed

section \<open>Properties\<close>

text \<open>The benchmarks of the full hot path run: with log files that can be created and a cycle counter
  that does not run backwards, both are defined for up to 100000 iterations, record one sample for each,
  and leave a log with one event for each iteration and the warm-up, a position of 1 or 101 shares bought
  and sold at one price, and an order table that is still empty, as their fills name no order that was
  booked; every risk check of the second passes.\<close>

lemma hot_path_benchmarks_run:
  assumes "bench_ok E n" "n \<le> 100000"
  shows "(\<exists>b st'. bench_hot E st n = Some (b, st') \<and> hot_books n b \<and> length (samples st') = length (samples st) + n) \<and>
    (\<exists>b st'. bench_hot_risk E st n = Some (b, st') \<and> hot_books n b \<and> length (samples st') = length (samples st) + n)"
proof -
  obtain b where b: "hot_setup E = Some b" "hot_books 0 b" by (rule hot_setup_books [OF assms(1)])
  have "\<exists>s' st'. timed E (hot_step E) n b st = Some (s', st') \<and> hot_books n s' \<and> length (samples st') = length (samples st) + n"
    by (rule timed_invariant [OF assms(1), of hot_books, OF b(2)]) (use hot_step_books assms(2) in auto)
  moreover have "\<exists>s' st'. timed E (hot_risk_step E) n b st = Some (s', st') \<and> hot_books n s' \<and> length (samples st') = length (samples st) + n"
    by (rule timed_invariant [OF assms(1), of hot_books, OF b(2)]) (use hot_risk_step_books assms(2) in auto)
  ultimately show ?thesis by (simp add: bench_hot_def bench_hot_risk_def b(1))
qed

end
