(* ===== verification/Spec2Isabelle.thy ===== *)
theory Spec2Isabelle
  imports Session_Exposure Gateway_Threads Main_Program Log_Image Concurrent_Booking Console Gateway_Tests Bench_Cases
begin

text \<open>
  A verification of the HFT order book: the bookkeeping of a trading process (an append-only event
  log, the positions and orders projected from it, pre-trade risk checks) and its FIX gateway.

  \<^bold>\<open>The program.\<close> Events (\<open>include/OrderEvent.h\<close>) are appended to a memory-mapped log
  (\<open>include/EventLog.h\<close>). Two flat tables are projections of the event stream: positions by symbol
  (\<open>include/PositionTracker.h\<close>) and orders by order id (\<open>include/OrderManager.h\<close>). The risk checker
  (\<open>include/RiskChecker.h\<close>) decides on an order from both. The gateway (\<open>gateway/FIXGateway.cpp\<close>)
  translates FIX messages (\<open>gateway/MessageTranslator.h\<close>), logs and books what the strategy sends and
  what the exchange reports, and owns the emergency path (\<open>gateway/Killswitch.h\<close>). \<open>src/main.cpp\<close> opens
  the log, replays it into the tables and starts the gateway.

  \<^bold>\<open>The theories.\<close>
  \<^item> \<open>HFT_Prelude\<close>: bounded integers (an operation that overflows is undefined, \<open>None\<close>), array accesses,
    C strings (\<open>strncpy\<close>, \<open>strncmp\<close>, \<open>strnlen\<close> on eight-byte fields), decimal numbers, loops.
  \<^item> \<open>Slot_Table\<close>: the two interfaces of the tables, as locales. \<open>scan_loop\<close> is a linear search over the
    used slots by an eight-byte key, \<open>slot_table\<close> adds get-or-create; their lemmas give the view of the
    array as a finite map. Both tables interpret both locales.
  \<^item> \<open>Binary64\<close>: the doubles the program computes with, as rationals with rounding to nearest even.
  \<^item> \<open>OrderEvent\<close>, \<open>EventLog\<close>, \<open>OrderManager\<close>, \<open>PositionTracker\<close>, \<open>RiskChecker\<close>, \<open>MessageTranslator\<close>,
    \<open>Killswitch\<close>, \<open>FIXGateway\<close>: one theory per source file, each struct a record, each enum a datatype
    with a constructor for the other bytes, each member function a definition of its name (with the
    prefix \<open>om_\<close> or \<open>pt_\<close> where both tables have it). \<open>FIXGateway\<close> also holds the start-up and the signal
    handler of \<open>main.cpp\<close>. The tables come with their abstract specifications \<open>om_spec\<close> and \<open>pt_spec\<close> on
    maps, which the arrays refine, undefined behaviour included.
  \<^item> \<open>Struct_Layout\<close>: the bytes of the four structs under the rules of the platform ABI, with the codec
    of a struct as the locale \<open>struct_codec\<close>. \<open>Log_Image\<close>: the log on the bytes of its file, which refines
    \<open>EventLog\<close>.
  \<^item> \<open>EventLog_Concurrency\<close>: \<open>append\<close>, \<open>replay\<close> and a crash at the level of memory accesses, one writer
    and any number of readers, with release/acquire semantics by views.
  \<^item> \<open>Order_Lifecycle\<close>: the documented state diagram as an order on the states, runs of events under it,
    runs of fills on one order, the open exposure.
  \<^item> \<open>Position_Accounting\<close>: positions against the cash moved, and bounds under which no fill overflows.
  \<^item> \<open>Recovery\<close>: the runs of the gateway, restarts included, and the invariant that its tables are the
    projections of its log. \<open>Exposure\<close>: the quantity committed to a symbol, position and open orders,
    under orders, fills and cancels. \<open>Session_Exposure\<close>: the same over whole sessions.
  \<^item> \<open>Gateway_Threads\<close>: the strategy thread and the I/O thread of QuickFIX on the shared log and tables.
  \<^item> \<open>Main_Program\<close>: \<open>main\<close> from its entry to its end, with signals and callbacks between its steps.
  \<^item> \<open>Update_Stores\<close>: \<open>apply_event\<close> of both tables as the sequence of its stores to memory, which run to their
    end are \<open>apply_event\<close>; the locale \<open>slot_lens\<close> carries stores into a slot over to the table.
    \<open>Interrupted_Updates\<close>: what the signal handler and other readers see after any of these stores.
    \<open>Concurrent_Booking\<close>: two threads in the order table at once, the members each of them reads and writes,
    which bookings are a data race, and every interleaving of the stores of those that are not.
  \<^item> \<open>Console\<close>: what the killswitch, the gateway and \<open>main\<close> print, as text.
  \<^item> \<open>Table_Frames\<close>: an operation of a table does on the whole array what it does on the first slots.
    \<open>Unit_Tests\<close>: the unit tests of \<open>tests/test_main.cpp\<close> as runs of the model, evaluated on four slots.
    \<open>Gateway_Tests\<close>: the tests of the translator, the killswitch and the gateway, in the same way.
  \<^item> \<open>Bench_Harness\<close>, \<open>Bench_Cases\<close>: \<open>benchmarks/bench_harness.h\<close> (timing, statistics, registry) and
    \<open>benchmarks/bench_main.cpp\<close> (the bodies and \<open>main\<close>).

  \<^bold>\<open>What is shown.\<close> A restart rebuilds positions and orders from any reachable state; readers of the log
  never race and see a prefix, and a crash at any access leaves a log that can be reopened; the byte
  image of the log behaves as the log of events, and an append touches one slot and the sequence
  number; every struct fills one cache line and the bytes of an event give it back; an order is logged and booked
  before it is sent; what is sent respects the position limit over positions and open orders, fills
  conserve that quantity, and over a session it stays within the limit but for what cancels released;
  the risk check decides as its specification on exact integers; both tables refine finite maps; orders
  follow the state diagram when the exchange does; fills add up, average prices and realized results
  are exact up to truncation, with the bound; the emergency path covers every open order and every
  position, also when a signal interrupts an update of a table between two of its stores, where the
  open exposure is that from before or from after the event, but for certain stores of new orders; two
  events on different orders booked at the same time leave the table of one after the other when neither adds an
  order, and are a data race when one does; the fixed-point conversion loses at most one unit; a signal ends the process, a clean exit
  has requested the cancel of every open order, and every end leaves a log that can be restarted from;
  the message of a clean shutdown and exit code 0 come together; the tests of the repository pass on
  the model, and the benchmarks of the hot path run to their end.
  Some theorems state where the code does less than its comments say: an order and a report that are
  logged at the same time overwrite each other, a new order and a report that are booked at the same time race on
  the count of the order table, a check inside a fill sees half of it, late fills
  reopen orders, order ids repeat after a restart and after 100000 orders, a full table sends orders it
  does not track, a failed send stays booked, a cancel confirmation finds no order, prices such as 8.20
  lose a unit, a failed creation of the log blocks later starts, a signal after the return of \<open>main\<close>
  uses a dead object, a signal between two stores of a new buy order cancels it for the wrong side.

  \<^bold>\<open>Conventions and bounds.\<close> \<open>int32_t\<close> and \<open>int64_t\<close> values are integers and every operation on them
  goes through \<open>i32\<close> or \<open>i64\<close>; unsigned ones are words. Loops over arrays are recursions with a
  termination proof or folds, so no definition needs fuel. Exceptions are left values of a sum. QuickFIX,
  the operating system and the clock are parameters: accessors of reports, the outcome of a send, the
  cracker's routing, the success of system calls, clock readings. Reading past the end of the log file
  is undefined here even where the last page would allow it.

  \<^bold>\<open>Not modelled.\<close> The inside of QuickFIX and its configuration files, the text around the numbers of the
  benchmarks, two writers on the same order inside the calls into the tables, and stores that are
  themselves torn or reordered by the compiler.
\<close>

section \<open>Properties of the whole program\<close>

text \<open>C1. Restarting loses nothing: whatever calls, orders and earlier restarts a gateway went through,
  a restart on its log file succeeds when the file can be opened and mapped, keeps the log, and
  rebuilds the same positions and the same orders, up to the fields that record sequence numbers.\<close>

theorem restart_rebuilds_state:
  assumes "reachable api send g" "open_ok os" "mmap_ok os"
  shows "\<exists>g'. startup os (Some (close_log (g_log g))) = Some (Some (close_log (g_log g)), Inr g') \<and>
    g_log g' = g_log g \<and> same_positions (g_tracker g) (g_tracker g') \<and> same_orders (g_orders g) (g_orders g')"
  using restart_same [OF reachable_gw_ok [OF assms(1)] assms(2,3)] by blast

theorem restart_rebuilds_state_witness:
  "\<exists>g g'. reachable sample_api (\<lambda>s m. Send_Returned True) g \<and> log_events (g_log g) \<noteq> [] \<and>
    startup \<lparr>open_ok = True, ftruncate_ok = True, mmap_ok = True\<rparr> (Some (close_log (g_log g)))
      = Some (Some (close_log (g_log g)), Inr g') \<and> same_orders (g_orders g) (g_orders g')"
proof -
  obtain g where r: "reachable sample_api (\<lambda>s m. Send_Returned True) g" "length (log_events (g_log g)) = 1"
    by (rule sample_sent_reachable)
  then have "log_events (g_log g) \<noteq> []" by auto
  with restart_rebuilds_state [OF r(1), of "\<lparr>open_ok = True, ftruncate_ok = True, mmap_ok = True\<rparr>"] r show ?thesis by auto
qed

text \<open>C2. The position limit holds for what is sent: in every reachable state, an order that goes out under
  a fresh id with a free slot adds exactly its signed quantity to the quantity committed to its
  symbol, changes no other symbol, and leaves the committed quantity, filled and open together,
  within the net position limit on both sides.\<close>

theorem sent_order_within_position_limit:
  assumes "reachable api send g" "int32 q" "int64 px"
    and "send_order send ts symb sd q px g = Some (g', ms, res)" "ms \<noteq> []"
    and "om_map (g_orders g) (filed_id (unat (order_counter g))) = None" "order_count (g_orders g) < MAX_ORDERS"
  shows "\<bar>committed (g_tracker g') (g_orders g') (cstr 8 (sv_data symb))\<bar> \<le> max_net_position (limits (g_risk g)) \<and>
    (\<forall>k. committed (g_tracker g') (g_orders g') k = committed (g_tracker g) (g_orders g) k +
      (if k = cstr 8 (sv_data symb) then signed_qty sd q else 0))"
proof -
  have ok: "pt_ok (g_tracker g)" "om_ok (g_orders g)"
    using reachable_gw_ok [OF assms(1)] by (simp_all add: gw_ok_def)
  show ?thesis using send_order_committed [OF ok assms(2-7)] by blast
qed

theorem sent_order_within_position_limit_witness:
  "\<exists>g' m res. send_order (\<lambda>s m. Send_Returned True) sample_ts (sv_of ''AAPL'') Buy 100 175000000 sample_gateway = Some (g', [m], res) \<and>
    committed (g_tracker g') (g_orders g') ''AAPL'' = 100"
proof -
  obtain g' m res where s: "send_order (\<lambda>s m. Send_Returned True) sample_ts (sv_of ''AAPL'') Buy 100 175000000 sample_gateway
      = Some (g', [m], res)" by (rule sample_send)
  have c: "order_count new_order_manager < MAX_ORDERS" "int32 100" "int64 175000000"
    by (simp_all add: order_count_def new_order_manager_def MAX_ORDERS_def int32_def int64_def)
  have n: "cstr 8 (c_str ''AAPL'') = ''AAPL''" by code_simp
  have z: "committed new_position_tracker new_order_manager k = 0" for k
    by (simp add: committed_def net_of_def exposure_of_def)
  from sent_order_within_position_limit [OF sample_reachable [of sample_api] c(2,3) s] s c(1) n z show ?thesis
    by (auto simp: signed_qty_def)
qed

text \<open>C4. A fill conserves the committed quantity: a fill of an open order, on its symbol and side and of
  at most its open quantity, moves quantity from the order to the position, so that for every symbol
  the sum of net position and open orders stays the same, provided there is a position slot.\<close>

theorem fill_conserves_committed:
  assumes "pt_ok pt" "om_ok om" "event_ok e" "is_fill e"
    and "pt_apply_event e pt = Some pt'" "om_apply_event e om = Some om'"
    and "pt_map pt (event_symbol e) \<noteq> None \<or> symbol_count pt < MAX_SYMBOLS"
    and "om_map om (event_oid e) = Some od" "is_open od" "cstr 8 (o_symbol od) = event_symbol e" "o_side od = side e"
    and "0 \<le> fill_qty e" "fill_qty e \<le> original_qty od - filled_qty od"
  shows "committed pt' om' s = committed pt om s"
  using fill_committed [OF assms] .

theorem fill_conserves_committed_witness:
  "\<exists>om om' pt'. om_map om = [''O1'' \<mapsto> sample_open] \<and>
    pt_apply_event (sample_fill ''O1'' ''AAPL'' Buy 40 100) new_position_tracker = Some pt' \<and>
    om_apply_event (sample_fill ''O1'' ''AAPL'' Buy 40 100) om = Some om' \<and>
    committed pt' om' ''AAPL'' = committed new_position_tracker om ''AAPL''"
proof -
  let ?e = "sample_fill ''O1'' ''AAPL'' Buy 40 100"
  obtain om where om: "om_ok om" "om_map om = [''O1'' \<mapsto> sample_open]" by (rule sample_manager)
  have f: "fill_order ?e sample_open = Some sample_partial" by code_simp
  obtain om' where om': "om_apply_event ?e om = Some om'" by (rule sample_fill_step [OF om f])
  have e: "event_ok ?e" "is_fill ?e" "event_oid ?e = ''O1''" "is_open sample_open"
      "cstr 8 (o_symbol sample_open) = event_symbol ?e" "o_side sample_open = side ?e" "0 \<le> fill_qty ?e"
      "fill_qty ?e \<le> original_qty sample_open - filled_qty sample_open" "event_symbol ?e = ''AAPL''"
      "fill_position ?e (fresh_position ''AAPL'') \<noteq> None"
    by code_simp+
  have "pt_spec ?e (pt_map new_position_tracker) \<noteq> None"
    using e(2,9,10) by (simp add: pt_spec_def MAX_SYMBOLS_def)
  then obtain pt' where pt': "pt_apply_event ?e new_position_tracker = Some pt'"
    using pt_apply_event_obtain [OF pt_ok_new(1) e(1)] by fastforce
  have od: "om_map om (event_oid ?e) = Some sample_open" using om(2) e(3) by simp
  have "committed pt' om' ''AAPL'' = committed new_position_tracker om ''AAPL''"
    by (rule fill_conserves_committed [OF pt_ok_new(1) om(1) e(1,2) pt' om' _ od e(4-8)]) simp
  with om(2) om' pt' show ?thesis by blast
qed

text \<open>C39. Order numbering starts over after a restart while the orders of the earlier process are back in
  the table: the first order sent after a restart is filed under \<open>ORD0\<close> and replaces the order of that
  id, open or not, instead of being a new one.\<close>

theorem restart_reuses_order_ids:
  assumes "reachable api send g" "startup os (Some (close_log (g_log g))) = Some (entry, Inr g1)"
    and "om_map (g_orders g) ''ORD0'' = Some od" "int32 q" "int64 px"
    and "send_order send ts symb sd q px (onLogon i g1) = Some (g2, ms, res)" "ms \<noteq> []"
  shows "\<exists>od'. om_map (g_orders g2) ''ORD0'' = Some od' \<and> o_state od' = Pending \<and> original_qty od' = q \<and>
    filled_qty od' = 0 \<and> order_count (g_orders g2) = order_count (g_orders g1)"
proof -
  have g: "gw_ok g" by (rule reachable_gw_ok [OF assms(1)])
  have os: "open_ok os" "mmap_ok os" using startup_Inr_ok [OF assms(2)] by simp_all
  have g1: "gw_ok g1" "same_orders (g_orders g) (g_orders g1)"
    and cnt: "order_counter g1 = 0"
    using restart_same [OF g os] assms(2) by auto
  have known: "om_map (g_orders g1) ''ORD0'' \<noteq> None"
    using g1(2) assms(3) unfolding same_orders_def same_order_map_def by (metis map_option_is_None option.distinct(1))
  have om1: "om_ok (g_orders g1)" using g1(1) by (simp add: gw_ok_def)
  have id0: "filed_id 0 = ''ORD0''" by code_simp
  from assms(6) show ?thesis
  proof (cases rule: send_order_cases)
    case (booked evt lg sq om)
    have e: "event_ok evt" "etype evt = NewOrder" "event_oid evt = ''ORD0''" "qty evt = q"
      using make_new_order_fields [OF booked(3)] assms(4,5) id0
      by (simp_all add: next_order_id_def onLogon_def cnt filed_id_def)
    have "om_spec evt (om_map (g_orders g1)) = Some (om_map om)"
      using om_apply_event_Some [OF om1 e(1), of om] booked(5) by (simp add: onLogon_def)
    then have m: "om_map om = (om_map (g_orders g1))(''ORD0'' \<mapsto> opened_order evt)"
      using e(2,3) known by (auto simp: om_spec_def)
    have "om_ok om" using om_apply_event_ok [OF om1 e(1), of om] booked(5) by (simp add: onLogon_def)
    then have "order_count om = order_count (g_orders g1)"
      using om_okD(5) [OF om1] om_okD(5) [of om] known by (auto simp: m order_count_def insert_absorb domIff)
    with m e(4) booked(6) show ?thesis by (simp add: opened_order_def onLogon_def)
  qed (use assms(7) in simp_all)
qed

theorem restart_reuses_order_ids_witness:
  "\<exists>g g1 g2 ms res od'. reachable sample_api (\<lambda>s m. Send_Returned True) g \<and>
    startup \<lparr>open_ok = True, ftruncate_ok = True, mmap_ok = True\<rparr> (Some (close_log (g_log g))) = Some (Some (close_log (g_log g)), Inr g1) \<and>
    send_order (\<lambda>s m. Send_Returned True) sample_ts (sv_of ''AAPL'') Buy 7 175000000 (onLogon ''S'' g1) = Some (g2, ms, res) \<and>
    om_map (g_orders g2) ''ORD0'' = Some od' \<and> original_qty od' = 7"
proof -
  let ?send = "\<lambda>s m. Send_Returned True" and ?os = "\<lparr>open_ok = True, ftruncate_ok = True, mmap_ok = True\<rparr>"
  obtain g e where r: "reachable sample_api ?send g" "length (log_events (g_log g)) = 1" and g: "g_tracker g = new_position_tracker"
      "om_map (g_orders g) = [''ORD0'' \<mapsto> opened_order e]" "event_symbol e = ''AAPL''" "side e = Buy" "qty e = 100"
    by (rule sample_sent_reachable)
  obtain g1 where g1: "startup ?os (Some (close_log (g_log g))) = Some (Some (close_log (g_log g)), Inr g1)" "gw_ok g1"
      "g_log g1 = g_log g" "same_positions (g_tracker g) (g_tracker g1)" "same_orders (g_orders g) (g_orders g1)"
      "g_risk g1 = new_risk_checker default_limits"
    using restart_same [OF reachable_gw_ok [OF r(1)], of ?os] by auto
  have pt: "pt_map (g_tracker g1) = Map.empty"
    using g1(4) g(1) by (simp add: same_positions_def same_position_map_def fun_eq_iff)
  obtain od where od: "om_map (g_orders g1) = [''ORD0'' \<mapsto> od]" "erase_order (opened_order e) = erase_order od"
    using same_order_map_single g1(5) g(2) by (metis same_orders_def)
  have "cstr 8 (pad_name 8 ''AAPL'') = ''AAPL''" by code_simp
  then have "signed_open ''AAPL'' (opened_order e) = 100"
    using g(3-5) by (simp add: signed_open_def opened_order_def is_open_def)
  then have "signed_open ''AAPL'' od = 100" using signed_open_erase [OF od(2), of "''AAPL''"] by simp
  then have "check_full (g_risk g1) (sv_of ''AAPL'') Buy 7 175000000 (g_tracker g1) (g_orders g1) = Some Pass"
    using sample_second_check [of "g_tracker g1" "g_orders g1" "''ORD0''" od] pt od(1) g1(2,6) by (simp add: gw_ok_def)
  then obtain g2 m res where s: "send_order ?send sample_ts (sv_of ''AAPL'') Buy 7 175000000 (onLogon ''S'' g1) = Some (g2, [m], res)"
    using send_order_sends [of "onLogon ''S'' g1" "sv_of ''AAPL''" Buy 7 175000000 ?send sample_ts] g1(2,3) r(2)
    by (auto simp: onLogon_def gw_ok_def int32_def int64_def MAX_EVENTS_def)
  have t: "int32 7" "int64 175000000" "om_map (g_orders g) ''ORD0'' = Some (opened_order e)"
    using g(2) by (simp_all add: int32_def int64_def)
  from restart_reuses_order_ids [OF r(1) g1(1) t(3,1,2) s] s g1(1) r(1) show ?thesis by blast
qed



end
